(* ===== verification/Agent_Prelude.thy ===== *)
theory Agent_Prelude
  imports Main "HOL-Library.Word" "HOL-Library.Char_ord" "HOL-Library.List_Lexorder" "HOL-Library.Multiset"
begin

text \<open>
  Shared vocabulary of the development: the byte and string types of the Go source, its
  big-endian integer codec (\<^verbatim>\<open>encoding/binary\<close>), hexadecimal printing, 64-bit wrap-around,
  the \<^verbatim>\<open>strings\<close> functions the components call, Go maps as association lists, and the
  generic lemmas that the component theories rest on.
\<close>

section \<open>Named collections\<close>

named_theorems codec_simps \<open>equations that evaluate the byte codecs\<close>
named_theorems env_defs \<open>unfoldings of the small configuration constants\<close>

section \<open>Bytes, strings and Go maps\<close>

type_synonym byte = "8 word"
type_synonym bytes = "8 word list"

text \<open>
  A Go string is an immutable byte sequence, an Isabelle \<^typ>\<open>char\<close> is one byte. The
  conversion \<^verbatim>\<open>[]byte(s)\<close> keeps every byte.
\<close>

definition bytes_of :: "string \<Rightarrow> bytes" where
  "bytes_of s = map of_char s"

lemma of_char_inj: "(of_char c :: 8 word) = of_char d \<longleftrightarrow> c = d"
proof
  assume "(of_char c :: 8 word) = of_char d"
  then have "(word_of_nat (of_char c) :: 8 word) = word_of_nat (of_char d)"
    by (simp add: of_nat_of_char)
  then have "unat (word_of_nat (of_char c) :: 8 word) = unat (word_of_nat (of_char d) :: 8 word)"
    by simp
  then have "(of_char c :: nat) = of_char d"
    by (simp add: unat_of_nat)
  then show "c = d" by simp
qed simp

lemma bytes_of_inject [simp]: "bytes_of s = bytes_of t \<longleftrightarrow> s = t"
  unfolding bytes_of_def by (rule inj_map_eq_map) (simp add: inj_def of_char_inj)

lemma length_bytes_of [simp]: "length (bytes_of s) = length s"
  by (simp add: bytes_of_def)

text \<open>
  A Go map whose iteration order matters is an association list with distinct keys: the
  list is one enumeration of the map, \<^const>\<open>map_of\<close> is its content, so two lists denote
  the same map exactly when they have equal \<^const>\<open>map_of\<close>.
\<close>

type_synonym smap = "(string \<times> string) list"

definition wf_map :: "('k \<times> 'v) list \<Rightarrow> bool" where
  "wf_map m \<longleftrightarrow> distinct (map fst m)"

definition go_index :: "smap \<Rightarrow> string \<Rightarrow> string" where
  \<comment> \<open>\<^verbatim>\<open>m[k]\<close>: the zero value \<^verbatim>\<open>""\<close> for an absent key\<close>
  "go_index m k = (case map_of m k of None \<Rightarrow> [] | Some v \<Rightarrow> v)"

lemma wf_map_same_keys:
  assumes "wf_map m" "wf_map n" "map_of m = map_of n"
  shows "mset (map fst m) = mset (map fst n)"
proof -
  have "set (map fst m) = set (map fst n)"
    using assms(3) by (metis dom_map_of_conv_image_fst list.set_map)
  with assms(1,2) show ?thesis
    unfolding wf_map_def using set_eq_iff_mset_eq_distinct by blast
qed

section \<open>Big-endian integers\<close>

text \<open>
  \<^verbatim>\<open>binary.BigEndian.PutUint32\<close> and \<^verbatim>\<open>PutUint64\<close>: the \<open>k\<close> low bytes of a number, most
  significant first, and the value read back from such a byte string.
\<close>

primrec be_bytes :: "nat \<Rightarrow> nat \<Rightarrow> bytes" where
  "be_bytes 0 x = []"
| "be_bytes (Suc k) x = be_bytes k (x div 256) @ [word_of_nat (x mod 256)]"

definition be_value :: "bytes \<Rightarrow> nat" where
  "be_value bs = foldl (\<lambda>a b. a * 256 + unat b) 0 bs"

definition put_uint32 :: "32 word \<Rightarrow> bytes" where
  "put_uint32 w = be_bytes 4 (unat w)"

definition put_uint64 :: "64 word \<Rightarrow> bytes" where
  "put_uint64 w = be_bytes 8 (unat w)"

definition get_uint32 :: "bytes \<Rightarrow> 32 word" where
  "get_uint32 bs = word_of_nat (be_value bs)"

lemma length_be_bytes [simp]: "length (be_bytes k x) = k"
  by (induction k arbitrary: x) auto

lemma length_put_uint [simp]: "length (put_uint32 w) = 4" "length (put_uint64 v) = 8"
  by (simp_all add: put_uint32_def put_uint64_def)

lemma be_bytes_4 [codec_simps]:
  "be_bytes 4 x = [word_of_nat (x div 256 div 256 div 256 mod 256), word_of_nat (x div 256 div 256 mod 256),
     word_of_nat (x div 256 mod 256), word_of_nat (x mod 256)]"
proof -
  have four: "(4 :: nat) = Suc (Suc (Suc (Suc 0)))" by simp
  show ?thesis unfolding four by simp
qed

lemma be_value_snoc: "be_value (bs @ [b]) = be_value bs * 256 + unat b"
  by (simp add: be_value_def)

lemma be_value_be_bytes [codec_simps]: "x < 256 ^ k \<Longrightarrow> be_value (be_bytes k x) = x"
proof (induction k arbitrary: x)
  case 0
  then show ?case by (simp add: be_value_def)
next
  case (Suc k)
  then have "x div 256 < 256 ^ k" by (simp add: less_mult_imp_div_less mult.commute)
  with Suc.IH have "be_value (be_bytes k (x div 256)) = x div 256" by blast
  moreover have "unat (word_of_nat (x mod 256) :: 8 word) = x mod 256"
    by (simp add: unat_of_nat)
  ultimately show ?case by (simp add: be_value_snoc)
qed

lemma get_put_uint32 [codec_simps, simp]: "get_uint32 (put_uint32 w) = w"
proof -
  have "unat w < 256 ^ 4" using unsigned_less [of w] by simp
  then show ?thesis by (simp add: get_uint32_def put_uint32_def be_value_be_bytes)
qed

lemma put_uint32_inject [simp]: "put_uint32 v = put_uint32 w \<longleftrightarrow> v = w"
  by (metis get_put_uint32)

lemma put_uint64_inject [simp]: "put_uint64 v = put_uint64 w \<longleftrightarrow> v = w"
proof
  assume eq: "put_uint64 v = put_uint64 w"
  have "unat v < 256 ^ 8" "unat w < 256 ^ 8"
    using unsigned_less [of v] unsigned_less [of w] by simp_all
  with eq have "unat v = unat w"
    unfolding put_uint64_def by (metis be_value_be_bytes)
  then show "v = w" by (simp add: word_unat_eq_iff)
qed simp

section \<open>Fixed-width arithmetic of Go's int and int64\<close>

definition wrap64 :: "int \<Rightarrow> int" where
  "wrap64 x = sint (word_of_int x :: 64 word)"

lemma wrap64_id: "- (2 ^ 63) \<le> x \<Longrightarrow> x < 2 ^ 63 \<Longrightarrow> wrap64 x = x"
  by (simp add: wrap64_def signed_of_int signed_take_bit_int_eq_self)

lemma wrap64_range: "- (2 ^ 63) \<le> wrap64 x \<and> wrap64 x < 2 ^ 63"
  using sint_greater_eq [of "word_of_int x :: 64 word"] sint_less [of "word_of_int x :: 64 word"]
  by (simp add: wrap64_def)

section \<open>Decimal and hexadecimal printing\<close>

text \<open>\<^verbatim>\<open>%d\<close> on a non-negative number.\<close>

definition dec_digit :: "nat \<Rightarrow> char" where
  "dec_digit n = char_of (n + 48)"

fun dec_digits :: "nat \<Rightarrow> string" where
  "dec_digits n = (if n < 10 then [dec_digit n] else dec_digits (n div 10) @ [dec_digit (n mod 10)])"

declare dec_digits.simps [simp del]

lemma dec_digits_ne [simp]: "dec_digits n \<noteq> []"
  by (subst dec_digits.simps) auto


definition hex_digit :: "nat \<Rightarrow> char" where
  "hex_digit n = char_of (if n < 10 then n + 48 else n + 87)"

text \<open>\<^verbatim>\<open>fmt.Sprintf("%x", b)\<close> and \<^verbatim>\<open>hex.EncodeToString\<close> on a byte slice.\<close>

primrec hex_encode :: "bytes \<Rightarrow> string" where
  "hex_encode [] = []"
| "hex_encode (b # bs) = hex_digit (unat b div 16) # hex_digit (unat b mod 16) # hex_encode bs"

lemma hex_digit_inject:
  assumes "m < 16" "n < 16" "hex_digit m = hex_digit n"
  shows "m = n"
proof -
  have "(of_char (hex_digit m) :: nat) = of_char (hex_digit n)" using assms(3) by simp
  then show ?thesis using assms(1,2) by (auto simp: hex_digit_def split: if_splits)
qed

lemma hex_encode_inject: "hex_encode a = hex_encode b \<Longrightarrow> a = b"
proof (induction a arbitrary: b)
  case Nil
  then show ?case by (cases b) auto
next
  case (Cons x xs)
  then obtain y ys where b: "b = y # ys" by (cases b) auto
  have lt: "unat x < 256" "unat y < 256"
    using unsigned_less [of x] unsigned_less [of y] by simp_all
  from Cons.prems b have "unat x div 16 = unat y div 16"
    using lt by (auto intro!: hex_digit_inject)
  moreover from Cons.prems b have "unat x mod 16 = unat y mod 16"
    by (auto intro!: hex_digit_inject)
  ultimately have "unat x = unat y" by (metis mod_mult_div_eq)
  with Cons b show ?case by (auto simp: word_unat_eq_iff)
qed

lemma length_hex_encode [simp]: "length (hex_encode bs) = 2 * length bs"
  by (induction bs) auto

section \<open>Functions of package strings\<close>

definition go_HasPrefix :: "string \<Rightarrow> string \<Rightarrow> bool" where
  "go_HasPrefix s p \<longleftrightarrow> take (length p) s = p"

definition go_HasSuffix :: "string \<Rightarrow> string \<Rightarrow> bool" where
  "go_HasSuffix s p \<longleftrightarrow> length p \<le> length s \<and> drop (length s - length p) s = p"

fun go_Contains :: "string \<Rightarrow> string \<Rightarrow> bool" where
  "go_Contains [] sub \<longleftrightarrow> sub = []"
| "go_Contains (c # cs) sub \<longleftrightarrow> go_HasPrefix (c # cs) sub \<or> go_Contains cs sub"

text \<open>
  \<^verbatim>\<open>strings.ReplaceAll(s, old, new)\<close> for a non-empty \<open>old\<close>, the only case the source uses:
  leftmost, non-overlapping occurrences.
\<close>

function go_ReplaceAll :: "string \<Rightarrow> string \<Rightarrow> string \<Rightarrow> string" where
  "go_ReplaceAll [] old new = []"
| "go_ReplaceAll (c # cs) old new =
     (if old \<noteq> [] \<and> go_HasPrefix (c # cs) old
      then new @ go_ReplaceAll (drop (length old) (c # cs)) old new
      else c # go_ReplaceAll cs old new)"
  by pat_completeness auto
termination
  by (relation "measure (\<lambda>(s, old, new). length s)") auto

declare go_ReplaceAll.simps(2) [simp del]

lemma go_HasPrefix_append: "go_HasPrefix s p \<longleftrightarrow> (\<exists>t. s = p @ t)"
  by (metis append_eq_conv_conj append_take_drop_id go_HasPrefix_def)

lemma go_HasSuffix_append: "go_HasSuffix s p \<longleftrightarrow> (\<exists>t. s = t @ p)"
proof
  assume "go_HasSuffix s p"
  then have "s = take (length s - length p) s @ p"
    unfolding go_HasSuffix_def by (metis append_take_drop_id)
  then show "\<exists>t. s = t @ p" by blast
qed (auto simp: go_HasSuffix_def)

lemma go_Contains_append: "go_Contains s sub \<longleftrightarrow> (\<exists>a b. s = a @ sub @ b)"
proof (induction s)
  case Nil
  then show ?case by auto
next
  case (Cons c cs)
  have "(\<exists>a b. c # cs = a @ sub @ b) \<longleftrightarrow>
    (\<exists>b. c # cs = sub @ b) \<or> (\<exists>a b. cs = a @ sub @ b)"
    by (metis append_Cons append_Nil list.exhaust list.sel(3))
  with Cons show ?case by (simp add: go_HasPrefix_append)
qed

lemma go_ReplaceAll_absent: "\<not> go_Contains s old \<Longrightarrow> go_ReplaceAll s old new = s"
  by (induction s) (auto simp: go_ReplaceAll.simps(2))

lemma go_Contains_set: "go_Contains s sub \<Longrightarrow> set sub \<subseteq> set s"
  by (auto simp: go_Contains_append)

lemma go_ReplaceAll_absent_char:
  "c \<in> set old \<Longrightarrow> c \<notin> set s \<Longrightarrow> go_ReplaceAll s old new = s"
  using go_Contains_set by (intro go_ReplaceAll_absent) blast

lemma go_ReplaceAll_prefix:
  assumes "old \<noteq> []"
  shows "go_ReplaceAll (old @ s) old new = new @ go_ReplaceAll s old new"
proof (cases "old @ s")
  case Nil
  with assms show ?thesis by simp
next
  case (Cons c cs)
  then have "go_HasPrefix (c # cs) old" by (auto simp: go_HasPrefix_append Cons [symmetric])
  moreover have "drop (length old) (c # cs) = s" by (simp add: Cons [symmetric])
  ultimately show ?thesis using assms by (simp add: Cons go_ReplaceAll.simps(2))
qed

section \<open>Wire enumerations\<close>

text \<open>The report kinds of the protocol, on both sides of the wire; 0 is unspecified.\<close>

datatype ReportKind = KindResults | KindAudit | KindInventory | KindOther nat

end
