(* ===== verification/Authenv.thy ===== *)
theory Authenv
  imports Agent_Prelude "HOL-Library.AList"
begin

text \<open>
  Package \<^verbatim>\<open>internal/authenv\<close>: the command envelope (\<^verbatim>\<open>agentv1.CommandEnvelope\<close>), its canonical
  serialisation, signing and verification, and the nonce cache that guards against replays.
  Ed25519 itself is a parameter (\<open>sign\<close>, \<open>verify\<close>) of the definitions that call it.
\<close>

section \<open>Data\<close>

record CommandEnvelope =
  env_CmdId :: string
  env_Action :: string
  env_Params :: smap
  env_TimeoutSec :: "32 word"
  env_IssuedAt :: "64 word"
  env_ExpiresAt :: "64 word"
  env_Nonce :: bytes
  env_Signature :: bytes

datatype verify_error = MissingOrMalformedSignature | SignatureVerificationFailed

datatype nonce_error = NonceReplayDetected

section \<open>Canonical serialisation\<close>

definition magic :: bytes where
  "magic = bytes_of ''TAI-CMD-v1''"

definition writeField :: "bytes \<Rightarrow> bytes \<Rightarrow> bytes" where
  "writeField buf b = buf @ put_uint32 (word_of_nat (length b)) @ b"

definition CanonicalBytes :: "CommandEnvelope \<Rightarrow> bytes" where
  "CanonicalBytes env =
     (let buf = magic;
          buf = writeField buf (bytes_of (env_CmdId env));
          buf = writeField buf (bytes_of (env_Action env));
          keys = sort (map fst (env_Params env));
          buf = buf @ put_uint32 (word_of_nat (length keys));
          buf = foldl (\<lambda>b k. writeField (writeField b (bytes_of k))
                                  (bytes_of (go_index (env_Params env) k))) buf keys;
          buf = buf @ put_uint64 (ucast (env_TimeoutSec env));
          buf = buf @ put_uint64 (env_IssuedAt env);
          buf = buf @ put_uint64 (env_ExpiresAt env)
      in writeField buf (env_Nonce env))"

section \<open>Signing and verifying\<close>

definition Sign :: "('priv \<Rightarrow> bytes \<Rightarrow> bytes) \<Rightarrow> 'priv \<Rightarrow> CommandEnvelope \<Rightarrow> CommandEnvelope" where
  "Sign sign priv env = env\<lparr>env_Signature := sign priv (CanonicalBytes env)\<rparr>"

definition SignatureSize :: nat where
  "SignatureSize = 64"

definition Verify ::
  "('pub \<Rightarrow> bytes \<Rightarrow> bytes \<Rightarrow> bool) \<Rightarrow> 'pub \<Rightarrow> CommandEnvelope \<Rightarrow> verify_error option" where
  "Verify verify pub env =
     (if length (env_Signature env) \<noteq> SignatureSize then Some MissingOrMalformedSignature
      else if \<not> verify pub (CanonicalBytes env) (env_Signature env)
      then Some SignatureVerificationFailed
      else None)"

section \<open>Key files\<close>

text \<open>What a parsed key is; only Ed25519 keys are accepted.\<close>

datatype 'ed parsed_key = Ed25519Key 'ed | OtherKey

datatype key_error = KeyUnreadable | NoPEMBlock | KeyUnparsable | NotEd25519

text \<open>\<open>rd\<close> reads a file, \<open>pem\<close> is the content of its first PEM block, \<open>parse\<close> the PKIX parser.\<close>

definition LoadPublicKeyPEM ::
  "(string \<Rightarrow> bytes option) \<Rightarrow> (bytes \<Rightarrow> bytes option) \<Rightarrow> (bytes \<Rightarrow> 'ed parsed_key option) \<Rightarrow> string \<Rightarrow> key_error + 'ed" where
  "LoadPublicKeyPEM rd pem parse path =
     (case rd path of
        None \<Rightarrow> Inl KeyUnreadable
      | Some data \<Rightarrow>
          (case pem data of
             None \<Rightarrow> Inl NoPEMBlock
           | Some der \<Rightarrow>
               (case parse der of
                  None \<Rightarrow> Inl KeyUnparsable
                | Some (Ed25519Key k) \<Rightarrow> Inr k
                | Some OtherKey \<Rightarrow> Inl NotEd25519)))"

text \<open>The same steps with the parser of PKCS 8 private keys.\<close>

definition LoadPrivateKeyPEM ::
  "(string \<Rightarrow> bytes option) \<Rightarrow> (bytes \<Rightarrow> bytes option) \<Rightarrow> (bytes \<Rightarrow> 'ed parsed_key option) \<Rightarrow> string \<Rightarrow> key_error + 'ed" where
  "LoadPrivateKeyPEM rd pem parse path =
     (case rd path of
        None \<Rightarrow> Inl KeyUnreadable
      | Some data \<Rightarrow>
          (case pem data of
             None \<Rightarrow> Inl NoPEMBlock
           | Some der \<Rightarrow>
               (case parse der of
                  None \<Rightarrow> Inl KeyUnparsable
                | Some (Ed25519Key k) \<Rightarrow> Inr k
                | Some OtherKey \<Rightarrow> Inl NotEd25519)))"

section \<open>Nonce cache\<close>

record NonceCache =
  nc_cap :: int
  nc_items :: "(string \<times> int) list"
  nc_order :: "string list"

definition NewNonceCache :: "int \<Rightarrow> NonceCache" where
  "NewNonceCache capacity = \<lparr>nc_cap = capacity, nc_items = [], nc_order = []\<rparr>"

definition item_expiry :: "(string \<times> int) list \<Rightarrow> string \<Rightarrow> int" where
  "item_expiry items k = (case map_of items k of None \<Rightarrow> 0 | Some e \<Rightarrow> e)"

text \<open>The lazy clean-up loop: the kept order and the map with the dropped keys deleted.\<close>

fun nonce_sweep :: "int \<Rightarrow> string list \<Rightarrow> (string \<times> int) list \<Rightarrow> string list \<times> (string \<times> int) list" where
  "nonce_sweep now [] items = ([], items)"
| "nonce_sweep now (k # ks) items =
     (if item_expiry items k > now
      then (let (kept, items') = nonce_sweep now ks items in (k # kept, items'))
      else nonce_sweep now ks (AList.delete k items))"

definition nonce_Check :: "NonceCache \<Rightarrow> bytes \<Rightarrow> int \<Rightarrow> int \<Rightarrow> nonce_error option \<times> NonceCache" where
  "nonce_Check c nonce expiresAt now =
     (let key = hex_encode nonce;
          c = (if length (nc_order c) > 0 \<and> int (length (nc_items c)) \<ge> nc_cap c
               then (let (kept, items) = nonce_sweep now (nc_order c) (nc_items c)
                     in c\<lparr>nc_items := items, nc_order := kept\<rparr>)
               else c)
      in if map_of (nc_items c) key \<noteq> None then (Some NonceReplayDetected, c)
         else (None, c\<lparr>nc_items := AList.update key expiresAt (nc_items c),
                       nc_order := nc_order c @ [key]\<rparr>))"

section \<open>The encoding is injective\<close>

lemma writeField_cancel:
  assumes "length a < 2 ^ 32" "length b < 2 ^ 32"
    and "writeField [] a @ x = writeField [] b @ y"
  shows "a = b \<and> x = y"
proof -
  from assms(3) have pu: "put_uint32 (word_of_nat (length a)) = put_uint32 (word_of_nat (length b))"
    and rest: "a @ x = b @ y"
    unfolding writeField_def by simp_all
  from pu have "(word_of_nat (length a) :: 32 word) = word_of_nat (length b)"
    by simp
  then have "unat (word_of_nat (length a) :: 32 word) = unat (word_of_nat (length b) :: 32 word)"
    by simp
  with assms(1,2) have "length a = length b" by (simp add: unat_of_nat)
  with rest show ?thesis by simp
qed

definition enc_params :: "smap \<Rightarrow> string list \<Rightarrow> bytes" where
  "enc_params m ks = concat (map (\<lambda>k. writeField [] (bytes_of k) @ writeField [] (bytes_of (go_index m k))) ks)"

lemma writeField_append: "writeField buf b = buf @ writeField [] b"
  by (simp add: writeField_def)

lemma foldl_writeField:
  "foldl (\<lambda>b k. writeField (writeField b (bytes_of k)) (bytes_of (go_index m k))) buf ks
   = buf @ enc_params m ks"
proof (induction ks arbitrary: buf)
  case Nil
  then show ?case by (simp add: enc_params_def)
next
  case (Cons k ks)
  have "writeField (writeField buf (bytes_of k)) (bytes_of (go_index m k))
      = buf @ writeField [] (bytes_of k) @ writeField [] (bytes_of (go_index m k))"
    by (subst (1 2) writeField_append) simp
  then show ?case by (simp only: foldl_Cons Cons.IH) (simp add: enc_params_def)
qed

lemma CanonicalBytes_alt:
  "CanonicalBytes env =
     magic @ writeField [] (bytes_of (env_CmdId env)) @ writeField [] (bytes_of (env_Action env)) @
     put_uint32 (word_of_nat (length (env_Params env))) @
     enc_params (env_Params env) (sort (map fst (env_Params env))) @
     put_uint64 (ucast (env_TimeoutSec env)) @ put_uint64 (env_IssuedAt env) @
     put_uint64 (env_ExpiresAt env) @ writeField [] (env_Nonce env)"
  unfolding CanonicalBytes_def Let_def foldl_writeField
  by (simp add: writeField_def)

text \<open>Every length that is written as a \<^verbatim>\<open>uint32\<close> fits, and the parameters form a map.\<close>

definition wf_envelope :: "CommandEnvelope \<Rightarrow> bool" where
  "wf_envelope env \<longleftrightarrow>
     wf_map (env_Params env) \<and> length (env_Params env) < 2 ^ 32 \<and>
     length (env_CmdId env) < 2 ^ 32 \<and> length (env_Action env) < 2 ^ 32 \<and>
     length (env_Nonce env) < 2 ^ 32 \<and>
     list_all (\<lambda>(k, v). length k < 2 ^ 32 \<and> length v < 2 ^ 32) (env_Params env)"

lemma enc_params_cancel:
  assumes "length ks = length ls"
    and "\<forall>k \<in> set ks. length k < 2 ^ 32 \<and> length (go_index m k) < 2 ^ 32"
    and "\<forall>k \<in> set ls. length k < 2 ^ 32 \<and> length (go_index n k) < 2 ^ 32"
    and "enc_params m ks @ x = enc_params n ls @ y"
  shows "ks = ls \<and> (\<forall>k \<in> set ks. go_index m k = go_index n k) \<and> x = y"
  using assms
proof (induction ks ls rule: list_induct2)
  case Nil
  then show ?case by (simp add: enc_params_def)
next
  case (Cons k ks l ls)
  have lk: "length (bytes_of k) < 2 ^ 32" "length (bytes_of l) < 2 ^ 32"
    "length (bytes_of (go_index m k)) < 2 ^ 32" "length (bytes_of (go_index n l)) < 2 ^ 32"
    using Cons.prems(1,2) by auto
  have eq: "writeField [] (bytes_of k) @ (writeField [] (bytes_of (go_index m k)) @ enc_params m ks @ x)
    = writeField [] (bytes_of l) @ (writeField [] (bytes_of (go_index n l)) @ enc_params n ls @ y)"
    using Cons.prems(3) by (simp add: enc_params_def)
  from writeField_cancel [OF lk(1,2) eq]
  have kl: "k = l" and eq2: "writeField [] (bytes_of (go_index m k)) @ (enc_params m ks @ x)
    = writeField [] (bytes_of (go_index n l)) @ (enc_params n ls @ y)" by auto
  from writeField_cancel [OF lk(3,4) eq2]
  have "go_index m k = go_index n l" "enc_params m ks @ x = enc_params n ls @ y" by auto
  with Cons.IH Cons.prems(1,2) kl show ?case by auto
qed

lemma go_index_map_of:
  assumes "set (map fst m) = set (map fst n)" "\<forall>k \<in> set (map fst m). go_index m k = go_index n k"
  shows "map_of m = map_of n"
proof
  fix k
  show "map_of m k = map_of n k"
  proof (cases "k \<in> set (map fst m)")
    case True
    with assms obtain v w where "map_of m k = Some v" "map_of n k = Some w"
      by (metis dom_map_of_conv_image_fst domD list.set_map)
    with assms(2) True show ?thesis by (auto simp: go_index_def)
  next
    case False
    with assms(1) show ?thesis by (metis list.set_map map_of_eq_None_iff)
  qed
qed

lemma wf_envelope_index:
  assumes "wf_envelope env" "k \<in> set (sort (map fst (env_Params env)))"
  shows "length k < 2 ^ 32 \<and> length (go_index (env_Params env) k) < 2 ^ 32"
proof -
  from assms(2) have "k \<in> fst ` set (env_Params env)" by simp
  then obtain v where v: "map_of (env_Params env) k = Some v"
    by (metis dom_map_of_conv_image_fst domD)
  then have "(k, v) \<in> set (env_Params env)" by (rule map_of_SomeD)
  with assms(1) v show ?thesis
    by (auto simp: wf_envelope_def list_all_iff go_index_def)
qed

text \<open>Which fields an envelope's signature covers: everything but the signature itself.\<close>

definition same_command :: "CommandEnvelope \<Rightarrow> CommandEnvelope \<Rightarrow> bool" where
  "same_command e f \<longleftrightarrow>
     env_CmdId e = env_CmdId f \<and> env_Action e = env_Action f \<and>
     map_of (env_Params e) = map_of (env_Params f) \<and> env_TimeoutSec e = env_TimeoutSec f \<and>
     env_IssuedAt e = env_IssuedAt f \<and> env_ExpiresAt e = env_ExpiresAt f \<and>
     env_Nonce e = env_Nonce f"

lemma ucast_32_64_inject: "(ucast (a :: 32 word) :: 64 word) = ucast b \<longleftrightarrow> a = b"
proof
  assume "(ucast a :: 64 word) = ucast b"
  then have "unat (ucast a :: 64 word) = unat (ucast b :: 64 word)" by simp
  moreover have "unat x < 2 ^ 64" for x :: "32 word"
    by (rule order_less_le_trans [OF unsigned_less]) simp
  ultimately have "unat a = unat b"
    by (simp add: unsigned_ucast_eq take_bit_nat_eq_self)
  then show "a = b" by (simp add: word_unat_eq_iff)
qed simp

lemma same_command_if_canonical_eq:
  assumes wf: "wf_envelope e" "wf_envelope f" and eq: "CanonicalBytes e = CanonicalBytes f"
  shows "same_command e f"
proof -
  let ?te = "put_uint64 (ucast (env_TimeoutSec e)) @ put_uint64 (env_IssuedAt e) @
     put_uint64 (env_ExpiresAt e) @ writeField [] (env_Nonce e)"
  let ?tf = "put_uint64 (ucast (env_TimeoutSec f)) @ put_uint64 (env_IssuedAt f) @
     put_uint64 (env_ExpiresAt f) @ writeField [] (env_Nonce f)"
  let ?pe = "put_uint32 (word_of_nat (length (env_Params e))) @
     enc_params (env_Params e) (sort (map fst (env_Params e))) @ ?te"
  let ?pf = "put_uint32 (word_of_nat (length (env_Params f))) @
     enc_params (env_Params f) (sort (map fst (env_Params f))) @ ?tf"
  from eq have eq1: "writeField [] (bytes_of (env_CmdId e)) @ (writeField [] (bytes_of (env_Action e)) @ ?pe)
      = writeField [] (bytes_of (env_CmdId f)) @ (writeField [] (bytes_of (env_Action f)) @ ?pf)"
    by (simp add: CanonicalBytes_alt)
  have lens: "length (bytes_of (env_CmdId e)) < 2 ^ 32" "length (bytes_of (env_CmdId f)) < 2 ^ 32"
    "length (bytes_of (env_Action e)) < 2 ^ 32" "length (bytes_of (env_Action f)) < 2 ^ 32"
    "length (env_Nonce e) < 2 ^ 32" "length (env_Nonce f) < 2 ^ 32"
    using wf by (simp_all add: wf_envelope_def)
  from writeField_cancel [OF lens(1,2) eq1]
  have id: "env_CmdId e = env_CmdId f"
    and eq2: "writeField [] (bytes_of (env_Action e)) @ ?pe = writeField [] (bytes_of (env_Action f)) @ ?pf"
    by simp_all
  from writeField_cancel [OF lens(3,4) eq2]
  have act: "env_Action e = env_Action f" and eq3: "?pe = ?pf" by simp_all
  from eq3 have "put_uint32 (word_of_nat (length (env_Params e)))
      = put_uint32 (word_of_nat (length (env_Params f)))"
    by (simp add: append_eq_append_conv)
  then have "unat (word_of_nat (length (env_Params e)) :: 32 word)
      = unat (word_of_nat (length (env_Params f)) :: 32 word)" by simp
  with wf have len: "length (env_Params e) = length (env_Params f)"
    by (simp add: wf_envelope_def unat_of_nat)
  with eq3 have eq4: "enc_params (env_Params e) (sort (map fst (env_Params e))) @ ?te
      = enc_params (env_Params f) (sort (map fst (env_Params f))) @ ?tf" by simp
  have "sort (map fst (env_Params e)) = sort (map fst (env_Params f)) \<and>
     (\<forall>k \<in> set (sort (map fst (env_Params e))). go_index (env_Params e) k = go_index (env_Params f) k) \<and>
     ?te = ?tf"
    using wf_envelope_index [OF wf(1)] wf_envelope_index [OF wf(2)] len
    by (intro enc_params_cancel [OF _ _ _ eq4]) auto
  then have ks: "sort (map fst (env_Params e)) = sort (map fst (env_Params f))"
    and vs: "\<forall>k \<in> set (sort (map fst (env_Params e))). go_index (env_Params e) k = go_index (env_Params f) k"
    and tl: "?te = ?tf" by blast+
  from ks have "set (map fst (env_Params e)) = set (map fst (env_Params f))"
    by (metis set_sort)
  moreover from vs have "\<forall>k \<in> set (map fst (env_Params e)). go_index (env_Params e) k = go_index (env_Params f) k"
    by (metis set_sort)
  ultimately have par: "map_of (env_Params e) = map_of (env_Params f)"
    by (rule go_index_map_of)
  from tl have "env_TimeoutSec e = env_TimeoutSec f" "env_IssuedAt e = env_IssuedAt f"
    "env_ExpiresAt e = env_ExpiresAt f" and n: "writeField [] (env_Nonce e) @ [] = writeField [] (env_Nonce f) @ []"
    by (simp_all add: ucast_32_64_inject)
  moreover from writeField_cancel [OF lens(5,6) n] have "env_Nonce e = env_Nonce f" by simp
  ultimately show ?thesis using id act par by (simp add: same_command_def)
qed

lemma canonical_eq_if_same_command:
  assumes "wf_map (env_Params e)" "wf_map (env_Params f)" "same_command e f"
  shows "CanonicalBytes e = CanonicalBytes f"
proof -
  have m: "mset (map fst (env_Params e)) = mset (map fst (env_Params f))"
    using assms by (intro wf_map_same_keys) (auto simp: same_command_def)
  then have ks: "sort (map fst (env_Params e)) = sort (map fst (env_Params f))"
    by (metis properties_for_sort sorted_sort mset_sort)
  from m have "length (env_Params e) = length (env_Params f)"
    by (metis length_map size_mset)
  moreover have "enc_params (env_Params e) = enc_params (env_Params f)"
    using assms(3) by (simp add: fun_eq_iff enc_params_def go_index_def same_command_def)
  ultimately show ?thesis using assms(3) ks
    by (simp add: CanonicalBytes_alt same_command_def)
qed

section \<open>The nonce cache\<close>

definition nonce_inv :: "NonceCache \<Rightarrow> bool" where
  "nonce_inv c \<longleftrightarrow> wf_map (nc_items c) \<and> distinct (nc_order c) \<and>
     set (nc_order c) = fst ` set (nc_items c)"

definition nonce_recorded :: "NonceCache \<Rightarrow> bytes \<Rightarrow> int option" where
  "nonce_recorded c n = map_of (nc_items c) (hex_encode n)"

lemma wf_map_delete: "wf_map m \<Longrightarrow> wf_map (AList.delete k m)"
  by (simp add: wf_map_def distinct_delete)

lemma nonce_sweep_order:
  "wf_map items \<Longrightarrow> distinct ks \<Longrightarrow>
   fst (nonce_sweep now ks items) = filter (\<lambda>k. item_expiry items k > now) ks"
proof (induction now ks items rule: nonce_sweep.induct)
  case (2 now k ks items)
  have "filter (\<lambda>x. item_expiry (AList.delete k items) x > now) ks
      = filter (\<lambda>x. item_expiry items x > now) ks"
    using "2.prems"(2) by (intro filter_cong) (auto simp: item_expiry_def delete_conv')
  with 2 show ?case by (auto simp: wf_map_delete split: prod.splits)
qed simp

lemma nonce_sweep_items:
  "distinct ks \<Longrightarrow> map_of (snd (nonce_sweep now ks items)) k =
     (if k \<in> set ks \<and> item_expiry items k \<le> now then None else map_of items k)"
proof (induction now ks items rule: nonce_sweep.induct)
  case (2 now j ks items)
  show ?case
  proof (cases "item_expiry items j > now")
    case True
    with 2 show ?thesis by (auto split: prod.splits)
  next
    case False
    with 2 show ?thesis by (auto simp: item_expiry_def delete_conv')
  qed
qed simp

lemma nonce_sweep_wf: "wf_map items \<Longrightarrow> wf_map (snd (nonce_sweep now ks items))"
  by (induction now ks items rule: nonce_sweep.induct) (auto simp: wf_map_delete split: prod.splits)

definition nonce_purged :: "NonceCache \<Rightarrow> int \<Rightarrow> NonceCache" where
  "nonce_purged c now =
     (if length (nc_order c) > 0 \<and> int (length (nc_items c)) \<ge> nc_cap c
      then (let (kept, items) = nonce_sweep now (nc_order c) (nc_items c)
            in c\<lparr>nc_items := items, nc_order := kept\<rparr>)
      else c)"

lemma nonce_Check_alt:
  "nonce_Check c n e now =
     (if nonce_recorded (nonce_purged c now) n \<noteq> None
      then (Some NonceReplayDetected, nonce_purged c now)
      else (None, (nonce_purged c now)\<lparr>
              nc_items := AList.update (hex_encode n) e (nc_items (nonce_purged c now)),
              nc_order := nc_order (nonce_purged c now) @ [hex_encode n]\<rparr>))"
  by (simp add: nonce_Check_def nonce_purged_def nonce_recorded_def Let_def)

lemma map_of_dom: "k \<in> fst ` set m \<longleftrightarrow> map_of m k \<noteq> None"
  by (metis map_of_eq_None_iff)

lemma nonce_purged_inv:
  assumes "nonce_inv c"
  shows "nonce_inv (nonce_purged c now)"
proof (cases "length (nc_order c) > 0 \<and> int (length (nc_items c)) \<ge> nc_cap c")
  case False
  then show ?thesis using assms by (auto simp: nonce_purged_def)
next
  case True
  let ?r = "nonce_sweep now (nc_order c) (nc_items c)"
  from assms have wf: "wf_map (nc_items c)" and d: "distinct (nc_order c)"
    and s: "set (nc_order c) = fst ` set (nc_items c)" by (auto simp: nonce_inv_def)
  have ord: "fst ?r = filter (\<lambda>k. item_expiry (nc_items c) k > now) (nc_order c)"
    using wf d by (rule nonce_sweep_order)
  have "k \<in> set (fst ?r) \<longleftrightarrow> k \<in> fst ` set (snd ?r)" for k
    unfolding ord map_of_dom using nonce_sweep_items [OF d, of now "nc_items c" k] s map_of_dom [of k "nc_items c"]
    by auto
  then have "set (fst ?r) = fst ` set (snd ?r)" by blast
  moreover have "distinct (fst ?r)" using d ord by simp
  moreover have "wf_map (snd ?r)" using wf by (rule nonce_sweep_wf)
  moreover have "nonce_purged c now = c\<lparr>nc_items := snd ?r, nc_order := fst ?r\<rparr>"
    using True by (simp add: nonce_purged_def case_prod_unfold Let_def)
  ultimately show ?thesis by (simp add: nonce_inv_def)
qed

lemma nonce_purged_recorded:
  assumes "nonce_inv c"
  shows "nonce_recorded (nonce_purged c now) n =
     (if nc_order c \<noteq> [] \<and> int (length (nc_items c)) \<ge> nc_cap c
         \<and> (\<exists>e. nonce_recorded c n = Some e \<and> e \<le> now)
      then None else nonce_recorded c n)"
proof -
  have d: "distinct (nc_order c)" and s: "set (nc_order c) = fst ` set (nc_items c)"
    using assms by (auto simp: nonce_inv_def)
  have "hex_encode n \<in> set (nc_order c) \<longleftrightarrow> nonce_recorded c n \<noteq> None"
    by (simp add: s map_of_dom nonce_recorded_def)
  then show ?thesis
    using nonce_sweep_items [OF d, of now "nc_items c" "hex_encode n"]
    by (auto simp: nonce_purged_def nonce_recorded_def item_expiry_def case_prod_unfold Let_def split: option.splits)
qed

lemma nonce_Check_inv:
  assumes "nonce_inv c"
  shows "nonce_inv (snd (nonce_Check c n e now))"
proof -
  let ?p = "nonce_purged c now"
  have p: "nonce_inv ?p" using assms by (rule nonce_purged_inv)
  show ?thesis
  proof (cases "nonce_recorded ?p n")
    case None
    then have fresh: "hex_encode n \<notin> fst ` set (nc_items ?p)"
      by (simp add: nonce_recorded_def map_of_dom)
    with p None show ?thesis
      by (auto simp: nonce_Check_alt nonce_inv_def wf_map_def distinct_update dom_update)
  next
    case (Some x)
    with p show ?thesis by (simp add: nonce_Check_alt)
  qed
qed

lemma nonce_inv_new: "nonce_inv (NewNonceCache k)"
  by (simp add: nonce_inv_def NewNonceCache_def wf_map_def)

section \<open>Replay protection as an interface\<close>

text \<open>
  What the executor relies on: an accepted nonce is on record with its expiry, a nonce on
  record is refused while its expiry lies in the future, and checks of other nonces made
  before that expiry leave it on record.
\<close>

locale replay_guard =
  fixes check :: "'c \<Rightarrow> bytes \<Rightarrow> int \<Rightarrow> int \<Rightarrow> nonce_error option \<times> 'c"
    and recorded :: "'c \<Rightarrow> bytes \<Rightarrow> int option"
    and inv :: "'c \<Rightarrow> bool"
  assumes accept_records: "inv c \<Longrightarrow> check c n e now = (None, c') \<Longrightarrow> recorded c' n = Some e"
    and recorded_refused: "inv c \<Longrightarrow> recorded c n = Some e \<Longrightarrow> now < e \<Longrightarrow> fst (check c n e' now) \<noteq> None"
    and recorded_kept: "inv c \<Longrightarrow> recorded c n = Some e \<Longrightarrow> now < e \<Longrightarrow>
          recorded (snd (check c m e' now)) n = Some e"
    and inv_check: "inv c \<Longrightarrow> inv (snd (check c m e' now))"
begin

primrec run_checks :: "'c \<Rightarrow> (bytes \<times> int \<times> int) list \<Rightarrow> 'c" where
  "run_checks c [] = c"
| "run_checks c (q # qs) = run_checks (snd (check c (fst q) (fst (snd q)) (snd (snd q)))) qs"

lemma run_checks_inv: "inv c \<Longrightarrow> inv (run_checks c qs)"
  by (induction qs arbitrary: c) (auto simp: inv_check)

lemma run_checks_kept:
  "inv c \<Longrightarrow> recorded c n = Some e \<Longrightarrow> \<forall>q \<in> set qs. snd (snd q) < e \<Longrightarrow>
   recorded (run_checks c qs) n = Some e"
  by (induction qs arbitrary: c) (auto simp: inv_check recorded_kept)

lemma replay_refused:
  assumes "inv c" "check c n e now = (None, c')"
    and "\<forall>q \<in> set qs. snd (snd q) < e" "later < e"
  shows "fst (check (run_checks c' qs) n e' later) \<noteq> None"
proof -
  have "inv c'" using inv_check [OF assms(1), of n e now] assms(2) by simp
  moreover have "recorded c' n = Some e" using assms(1,2) by (rule accept_records)
  ultimately have "recorded (run_checks c' qs) n = Some e"
    using assms(3) by (rule run_checks_kept)
  with run_checks_inv [OF \<open>inv c'\<close>] show ?thesis using assms(4) by (rule recorded_refused)
qed

end

interpretation nonces: replay_guard nonce_Check nonce_recorded nonce_inv
proof
  fix c c' n e now
  assume "nonce_inv c" "nonce_Check c n e now = (None, c')"
  then show "nonce_recorded c' n = Some e"
    by (auto simp: nonce_Check_alt nonce_recorded_def update_conv' split: if_splits)
next
  fix c n e e' now
  assume "nonce_inv c" "nonce_recorded c n = Some e" "now < e"
  then show "fst (nonce_Check c n e' now) \<noteq> None"
    by (auto simp: nonce_Check_alt nonce_purged_recorded)
next
  fix c n e e' m now
  assume "nonce_inv c" "nonce_recorded c n = Some e" "now < e"
  then have "nonce_recorded (nonce_purged c now) n = Some e"
    by (auto simp: nonce_purged_recorded)
  then show "nonce_recorded (snd (nonce_Check c m e' now)) n = Some e"
    by (auto simp: nonce_Check_alt nonce_recorded_def update_conv')
next
  fix c m e' now
  assume "nonce_inv c"
  then show "nonce_inv (snd (nonce_Check c m e' now))" by (rule nonce_Check_inv)
qed


section \<open>Properties\<close>

lemma length_update_absent:
  "k \<notin> fst ` set m \<Longrightarrow> length (AList.update k v m) = Suc (length m)"
  by (induction m) auto

lemma wf_map_of_envelope: "wf_envelope e \<Longrightarrow> wf_map (env_Params e)"
  by (simp add: wf_envelope_def)

text \<open>
  C15: for envelopes whose fields fit the four-byte length prefixes, the canonical
  byte string that is signed determines every signed field, whatever the iteration order
  of the parameter map: two envelopes have the same canonical bytes exactly when they carry
  the same command id, action, parameter map, timeout, issue time, expiry and nonce.
\<close>

theorem canonical_bytes_injective:
  assumes "wf_envelope e" "wf_envelope f"
  shows "CanonicalBytes e = CanonicalBytes f \<longleftrightarrow> same_command e f"
  using same_command_if_canonical_eq [OF assms]
    canonical_eq_if_same_command [OF wf_map_of_envelope [OF assms(1)] wf_map_of_envelope [OF assms(2)]]
  by blast

definition sample_envelope :: "smap \<Rightarrow> bytes \<Rightarrow> bytes \<Rightarrow> CommandEnvelope" where
  "sample_envelope ps n s = \<lparr>env_CmdId = ''c1'', env_Action = ''diagnose.read_log_tail'', env_Params = ps,
     env_TimeoutSec = 30, env_IssuedAt = 100, env_ExpiresAt = 200, env_Nonce = n, env_Signature = s\<rparr>"

theorem canonical_bytes_injective_witness:
  "CanonicalBytes (sample_envelope [(''path'', ''/var/log/a''), (''lines'', ''5'')] [1] []) =
     CanonicalBytes (sample_envelope [(''lines'', ''5''), (''path'', ''/var/log/a'')] [1] [9]) \<and>
   CanonicalBytes (sample_envelope [(''path'', ''/var/log/a'')] [1] []) \<noteq>
     CanonicalBytes (sample_envelope [(''path'', ''/var/log/b'')] [1] [])"
proof
  have "wf_envelope (sample_envelope [(''path'', ''/var/log/a''), (''lines'', ''5'')] [1] [])"
    "wf_envelope (sample_envelope [(''lines'', ''5''), (''path'', ''/var/log/a'')] [1] [9])"
    by (simp_all add: wf_envelope_def sample_envelope_def wf_map_def)
  from canonical_bytes_injective [OF this]
  show "CanonicalBytes (sample_envelope [(''path'', ''/var/log/a''), (''lines'', ''5'')] [1] []) =
     CanonicalBytes (sample_envelope [(''lines'', ''5''), (''path'', ''/var/log/a'')] [1] [9])"
    by (simp add: same_command_def sample_envelope_def fun_upd_twist)
next
  have "wf_envelope (sample_envelope [(''path'', ''/var/log/a'')] [1] [])"
    "wf_envelope (sample_envelope [(''path'', ''/var/log/b'')] [1] [])"
    by (simp_all add: wf_envelope_def sample_envelope_def wf_map_def)
  from canonical_bytes_injective [OF this]
  show "CanonicalBytes (sample_envelope [(''path'', ''/var/log/a'')] [1] []) \<noteq>
     CanonicalBytes (sample_envelope [(''path'', ''/var/log/b'')] [1] [])"
    by (auto simp: same_command_def sample_envelope_def dest!: fun_upd_eqD)
qed

text \<open>
  The capacity of the nonce cache is not a bound on its size. A cache that holds
  unexpired entries only accepts any fresh nonce and grows by one, however many entries it
  already has.
\<close>

theorem nonce_cache_exceeds_capacity:
  assumes "nonce_inv c" "\<forall>k \<in> set (nc_order c). now < item_expiry (nc_items c) k"
    and "nonce_recorded c n = None"
  shows "fst (nonce_Check c n e now) = None \<and>
    length (nc_items (snd (nonce_Check c n e now))) = Suc (length (nc_items c)) \<and>
    nc_cap (snd (nonce_Check c n e now)) = nc_cap c"
proof -
  have wf: "wf_map (nc_items c)" and d: "distinct (nc_order c)" using assms(1) by (auto simp: nonce_inv_def)
  have swept: "nonce_sweep now ks (nc_items c) = (ks, nc_items c)"
    if "\<forall>k \<in> set ks. now < item_expiry (nc_items c) k" for ks
    using that by (induction ks) auto
  have p: "nonce_purged c now = c"
    using swept [OF assms(2)] by (simp add: nonce_purged_def)
  have "hex_encode n \<notin> fst ` set (nc_items c)"
    using assms(3) by (simp add: nonce_recorded_def map_of_dom)
  then have "length (AList.update (hex_encode n) e (nc_items c)) = Suc (length (nc_items c))"
    by (simp add: length_update_absent)
  with p assms(3) show ?thesis by (simp add: nonce_Check_alt)
qed

theorem nonce_cache_exceeds_capacity_witness:
  "length (nc_items (snd (nonce_Check (snd (nonce_Check (NewNonceCache 1) [1] 50 10)) [2] 60 11))) = 2 \<and>
   nc_cap (snd (nonce_Check (snd (nonce_Check (NewNonceCache 1) [1] 50 10)) [2] 60 11)) = 1"
proof -
  let ?c = "snd (nonce_Check (NewNonceCache 1) [1] 50 10)"
  have "nonce_inv ?c" by (intro nonce_Check_inv nonce_inv_new)
  moreover have "\<forall>k \<in> set (nc_order ?c). 11 < item_expiry (nc_items ?c) k"
    and "nonce_recorded ?c [2] = None" and "length (nc_items ?c) = 1" and "nc_cap ?c = 1"
    by (simp_all add: nonce_Check_def NewNonceCache_def item_expiry_def nonce_recorded_def hex_digit_def Let_def)
  ultimately show ?thesis using nonce_cache_exceeds_capacity [of ?c 11 "[2]" 60] by simp
qed

end
