(* ===== verification/Actions.thy ===== *)
theory Actions
  imports Authenv
begin

text \<open>
  \<^verbatim>\<open>internal/executor/actions.go\<close>: the action catalogue, the parameter validators (regular
  expressions as predicates on byte strings) and \<^verbatim>\<open>buildArgv\<close>. Errors are values of a
  datatype that keeps what the Go message interpolates.
\<close>

section \<open>Errors and actions\<close>

datatype ctx_err = DeadlineExceeded | Canceled

datatype exec_error =
    InvalidServiceName string
  | InvalidPath string
  | PathNotInWhitelist string
  | InvalidLines string
  | InvalidSeconds string
  | UnknownAction string
  | ParamValidationFailed exec_error
  | SignatureInvalid verify_error
  | NonceRequired
  | NonceRejected nonce_error
  | EnvelopeExpired
  | ExecutorQueueFull
  | StartFailed string
  | ExitError int
  | WaitFailed string
  | CtxErr ctx_err
  | FuncError string

record Action =
  act_ID :: string
  act_Risk :: string
  act_Validate :: "(smap \<Rightarrow> exec_error option) option"
  act_Binary :: string
  act_Args :: "string list"
  act_Func :: "(smap \<Rightarrow> string \<times> exec_error option) option"
  act_PluginTO :: int

record Hooks =
  AgentStatus :: "smap \<Rightarrow> string \<times> exec_error option"
  InventoryRefresh :: "smap \<Rightarrow> string \<times> exec_error option"
  AllowTestActions :: bool

section \<open>Regular expressions of the validators\<close>

definition is_alnum :: "char \<Rightarrow> bool" where
  "is_alnum c \<longleftrightarrow> (CHR ''a'' \<le> c \<and> c \<le> CHR ''z'') \<or> (CHR ''A'' \<le> c \<and> c \<le> CHR ''Z'') \<or>
     (CHR ''0'' \<le> c \<and> c \<le> CHR ''9'')"

definition is_digit :: "char \<Rightarrow> bool" where
  "is_digit c \<longleftrightarrow> CHR ''0'' \<le> c \<and> c \<le> CHR ''9''"

definition is_digit19 :: "char \<Rightarrow> bool" where
  "is_digit19 c \<longleftrightarrow> CHR ''1'' \<le> c \<and> c \<le> CHR ''9''"

definition reServiceName :: "string \<Rightarrow> bool" where
  "reServiceName s \<longleftrightarrow> 1 \<le> length s \<and> length s \<le> 64 \<and>
     list_all (\<lambda>c. is_alnum c \<or> c \<in> set ''_.@-'') s"

definition reSafePath :: "string \<Rightarrow> bool" where
  "reSafePath s \<longleftrightarrow> (case s of [] \<Rightarrow> False
     | c # cs \<Rightarrow> c = CHR ''/'' \<and> 1 \<le> length cs \<and> length cs \<le> 256 \<and>
         list_all (\<lambda>c. is_alnum c \<or> c \<in> set ''_./@+-'') cs)"

definition reLines :: "string \<Rightarrow> bool" where
  "reLines s \<longleftrightarrow> (case s of [] \<Rightarrow> False
     | c # cs \<Rightarrow> is_digit19 c \<and> length cs \<le> 3 \<and> list_all is_digit cs)"

definition reSleepSec :: "string \<Rightarrow> bool" where
  "reSleepSec s \<longleftrightarrow> (case s of [c] \<Rightarrow> is_digit19 c
     | [c, d] \<Rightarrow> CHR ''1'' \<le> c \<and> c \<le> CHR ''5'' \<and> is_digit d \<or> s = ''60''
     | _ \<Rightarrow> False)"

section \<open>Validators\<close>

definition logPathAllowed :: "string list" where
  "logPathAllowed = [''/var/log/'', ''/var/lib/tom_ai_agent/'']"

definition validateService :: "smap \<Rightarrow> exec_error option" where
  "validateService params =
     (let svc = go_index params ''service''
      in if \<not> reServiceName svc then Some (InvalidServiceName svc) else None)"

definition validateLogTail :: "smap \<Rightarrow> exec_error option" where
  "validateLogTail params =
     (let path = go_index params ''path''
      in if \<not> reSafePath path \<or> go_Contains path ''..'' then Some (InvalidPath path)
         else if \<not> list_ex (\<lambda>p. go_HasPrefix path p) logPathAllowed
         then Some (PathNotInWhitelist path)
         else (let v = go_index params ''lines''
               in if v \<noteq> [] \<and> \<not> reLines v then Some (InvalidLines v) else None))"

definition validateSleep :: "smap \<Rightarrow> exec_error option" where
  "validateSleep p =
     (if \<not> reSleepSec (go_index p ''seconds'') then Some (InvalidSeconds (go_index p ''seconds''))
      else None)"

section \<open>The catalogue\<close>

definition ext_action :: "string \<Rightarrow> string \<Rightarrow> (smap \<Rightarrow> exec_error option) option \<Rightarrow> string \<Rightarrow> string list \<Rightarrow> Action" where
  "ext_action i r v b as = \<lparr>act_ID = i, act_Risk = r, act_Validate = v, act_Binary = b, act_Args = as,
     act_Func = None, act_PluginTO = 0\<rparr>"

definition func_action :: "string \<Rightarrow> string \<Rightarrow> (smap \<Rightarrow> string \<times> exec_error option) \<Rightarrow> Action" where
  "func_action i r f = \<lparr>act_ID = i, act_Risk = r, act_Validate = None, act_Binary = [], act_Args = [],
     act_Func = Some f, act_PluginTO = 0\<rparr>"

definition test_sleep_action :: Action where
  "test_sleep_action = ext_action ''diagnose.test_sleep'' ''medium'' (Some validateSleep)
     ''/usr/bin/sleep'' [''{seconds}'']"

definition catalog :: "Hooks \<Rightarrow> string \<rightharpoonup> Action" where
  "catalog h =
     (let c = map_of
        [(''diagnose.disk_usage'',
            ext_action ''diagnose.disk_usage'' ''low'' None ''/usr/bin/df'' [''-h'']),
         (''diagnose.memory_summary'',
            ext_action ''diagnose.memory_summary'' ''low'' None ''/usr/bin/free'' [''-m'']),
         (''diagnose.cpu_top'',
            ext_action ''diagnose.cpu_top'' ''low'' None ''/usr/bin/top'' [''-b'', ''-n'', ''1'']),
         (''diagnose.network_connections'',
            ext_action ''diagnose.network_connections'' ''low'' None ''/usr/bin/ss'' [''-s'']),
         (''diagnose.process_list'',
            ext_action ''diagnose.process_list'' ''low'' None ''/usr/bin/ps''
              [''-eo'', ''pid,ppid,user,pcpu,pmem,comm'', ''--sort=-pcpu'']),
         (''diagnose.service_status'',
            ext_action ''diagnose.service_status'' ''low'' (Some validateService) ''/usr/bin/systemctl''
              [''status'', ''--no-pager'', ''--'', ''{service}.service'']),
         (''diagnose.read_log_tail'',
            ext_action ''diagnose.read_log_tail'' ''low'' (Some validateLogTail) ''/usr/bin/tail''
              [''-n'', ''{lines}'', ''--'', ''{path}'']),
         (''agent.status'', func_action ''agent.status'' ''low'' (AgentStatus h)),
         (''inventory.refresh'', func_action ''inventory.refresh'' ''low'' (InventoryRefresh h))]
      in if AllowTestActions h then c(''diagnose.test_sleep'' \<mapsto> test_sleep_action) else c)"

section \<open>buildArgv\<close>

definition placeholder :: "string \<Rightarrow> string" where
  "placeholder k = ''{'' @ k @ ''}''"

text \<open>The list \<open>params\<close> is the order in which Go happens to iterate over the map.\<close>

definition fillArg :: "smap \<Rightarrow> string \<Rightarrow> string" where
  "fillArg params arg =
     go_ReplaceAll (foldl (\<lambda>a (k, v). go_ReplaceAll a (placeholder k) v) arg params) ''{lines}'' ''100''"

definition buildArgv :: "Action \<Rightarrow> smap \<Rightarrow> string list" where
  "buildArgv a params = act_Binary a # map (fillArg params) (act_Args a)"

section \<open>Substitution lemmas\<close>

lemma foldl_no_brace:
  "CHR ''{'' \<notin> set arg \<Longrightarrow> foldl (\<lambda>a (k, v). go_ReplaceAll a (placeholder k) v) arg ps = arg"
proof (induction ps)
  case (Cons p ps)
  obtain k v where p: "p = (k, v)" by (cases p)
  have "go_ReplaceAll arg (placeholder k) v = arg"
    by (rule go_ReplaceAll_absent_char [of "CHR ''{''"]) (use Cons.prems in \<open>auto simp: placeholder_def\<close>)
  with Cons p show ?case by simp
qed simp

lemma fillArg_static: "CHR ''{'' \<notin> set arg \<Longrightarrow> fillArg ps arg = arg"
  by (simp add: fillArg_def foldl_no_brace go_ReplaceAll_absent_char [of "CHR ''{''"])

lemma placeholder_match:
  assumes "go_Contains (placeholder name @ rest) (placeholder k)"
    and "set ''{}'' \<inter> set (name @ rest) = {}"
  shows "k = name"
proof -
  from assms(1) obtain a b where eq: "placeholder name @ rest = a @ placeholder k @ b"
    by (auto simp: go_Contains_append)
  have "a = []"
  proof (rule ccontr)
    assume "a \<noteq> []"
    then obtain a' where "a = CHR ''{'' # a'" using eq by (cases a) (auto simp: placeholder_def)
    with eq have "name @ ''}'' @ rest = a' @ placeholder k @ b" by (simp add: placeholder_def)
    then have "CHR ''{'' \<in> set (name @ ''}'' @ rest)" by (simp add: placeholder_def)
    with assms(2) show False by auto
  qed
  with eq have eq2: "name @ CHR ''}'' # rest = k @ CHR ''}'' # b" by (simp add: placeholder_def)
  from assms(2) have n: "CHR ''}'' \<notin> set name" "CHR ''}'' \<notin> set rest" by auto
  with eq2 n show ?thesis by (simp add: append_Cons_eq_iff)
qed

lemma foldl_placeholder:
  assumes "wf_map ps" "set ''{}'' \<inter> set (name @ rest) = {}"
    and "\<forall>v. map_of ps name = Some v \<longrightarrow> CHR ''{'' \<notin> set v"
  shows "foldl (\<lambda>a (k, v). go_ReplaceAll a (placeholder k) v) (placeholder name @ rest) ps
    = (case map_of ps name of None \<Rightarrow> placeholder name @ rest | Some v \<Rightarrow> v @ rest)"
  using assms(1,3)
proof (induction ps)
  case (Cons p ps)
  obtain k v where p: "p = (k, v)" by (cases p)
  show ?case
  proof (cases "k = name")
    case True
    have v: "CHR ''{'' \<notin> set v" using Cons.prems(2) p True by simp
    have "go_ReplaceAll (placeholder name @ rest) (placeholder name) v = v @ rest"
      using assms(2) by (subst go_ReplaceAll_prefix)
        (auto simp: placeholder_def go_ReplaceAll_absent_char [of "CHR ''{''"])
    moreover have "CHR ''{'' \<notin> set (v @ rest)" using v assms(2) by auto
    ultimately show ?thesis using p True by (simp add: foldl_no_brace)
  next
    case False
    then have "\<not> go_Contains (placeholder name @ rest) (placeholder k)"
      using placeholder_match [OF _ assms(2)] by blast
    then have "go_ReplaceAll (placeholder name @ rest) (placeholder k) v = placeholder name @ rest"
      by (rule go_ReplaceAll_absent)
    with Cons p False show ?thesis by (simp add: wf_map_def)
  qed
qed simp

lemma fillArg_placeholder:
  assumes "wf_map ps" "set ''{}'' \<inter> set (name @ rest) = {}" "map_of ps name = Some v"
    and "CHR ''{'' \<notin> set v"
  shows "fillArg ps (placeholder name @ rest) = v @ rest"
proof -
  have "CHR ''{'' \<notin> set (v @ rest)" using assms(2,4) by auto
  then show ?thesis using foldl_placeholder [OF assms(1,2)] assms(3,4)
    by (simp add: fillArg_def go_ReplaceAll_absent_char [of "CHR ''{''"])
qed

lemma fillArg_lines_default:
  assumes "wf_map ps" "map_of ps ''lines'' = None"
  shows "fillArg ps ''{lines}'' = ''100''"
proof -
  have "''{lines}'' = placeholder ''lines'' @ []" by (simp add: placeholder_def)
  then have "foldl (\<lambda>a (k, v). go_ReplaceAll a (placeholder k) v) ''{lines}'' ps = ''{lines}''"
    using foldl_placeholder [OF assms(1), of "''lines''" "[]"] assms(2) by simp
  then show ?thesis
    using go_ReplaceAll_prefix [of "''{lines}''" "[]" "''100''"] by (simp add: fillArg_def)
qed

section \<open>What the argument vector is meant to be\<close>

text \<open>
  The intended argument vector of every external action of the catalogue, as a function of
  the content of the parameter map alone.
\<close>

definition intended_argv :: "string \<Rightarrow> (string \<rightharpoonup> string) \<Rightarrow> string list" where
  "intended_argv i m =
     (if i = ''diagnose.disk_usage'' then [''/usr/bin/df'', ''-h'']
      else if i = ''diagnose.memory_summary'' then [''/usr/bin/free'', ''-m'']
      else if i = ''diagnose.cpu_top'' then [''/usr/bin/top'', ''-b'', ''-n'', ''1'']
      else if i = ''diagnose.network_connections'' then [''/usr/bin/ss'', ''-s'']
      else if i = ''diagnose.process_list''
      then [''/usr/bin/ps'', ''-eo'', ''pid,ppid,user,pcpu,pmem,comm'', ''--sort=-pcpu'']
      else if i = ''diagnose.service_status''
      then [''/usr/bin/systemctl'', ''status'', ''--no-pager'', ''--'', the (m ''service'') @ ''.service'']
      else if i = ''diagnose.read_log_tail''
      then [''/usr/bin/tail'', ''-n'', (case m ''lines'' of None \<Rightarrow> ''100'' | Some v \<Rightarrow> v), ''--'', the (m ''path'')]
      else [''/usr/bin/sleep'', the (m ''seconds'')])"

lemma char_class_no_brace: "\<not> is_alnum (CHR ''{'')" "\<not> is_digit (CHR ''{'')" "\<not> is_digit19 (CHR ''{'')"
  by (simp_all add: is_alnum_def is_digit_def is_digit19_def less_eq_char_def)

lemma reServiceName_no_brace: "reServiceName s \<Longrightarrow> CHR ''{'' \<notin> set s"
  by (auto simp: reServiceName_def list_all_iff char_class_no_brace)

lemma reSafePath_no_brace: "reSafePath s \<Longrightarrow> CHR ''{'' \<notin> set s"
  by (auto simp: reSafePath_def list_all_iff char_class_no_brace split: list.splits)

lemma reLines_no_brace: "reLines s \<Longrightarrow> CHR ''{'' \<notin> set s"
  by (auto simp: reLines_def list_all_iff char_class_no_brace split: list.splits)

lemma reSleepSec_no_brace: "reSleepSec s \<Longrightarrow> CHR ''{'' \<notin> set s"
  by (auto simp: reSleepSec_def char_class_no_brace less_eq_char_def split: list.splits)

lemmas re_no_brace = reServiceName_no_brace reSafePath_no_brace reLines_no_brace reSleepSec_no_brace

lemma go_index_nonempty: "go_index m k \<noteq> [] \<Longrightarrow> map_of m k = Some (go_index m k)"
  by (auto simp: go_index_def split: option.splits)

lemma fillArg_checked:
  assumes "wf_map ps" "set ''{}'' \<inter> set (name @ rest) = {}" "P (go_index ps name)"
    and "\<And>s. P s \<Longrightarrow> CHR ''{'' \<notin> set s" "\<not> P []" "arg = placeholder name @ rest"
  shows "fillArg ps arg = the (map_of ps name) @ rest"
proof -
  have "map_of ps name = Some (go_index ps name)"
    using assms(3,5) by (intro go_index_nonempty) auto
  with fillArg_placeholder [OF assms(1,2) this] assms(3,4,6) show ?thesis by auto
qed

lemma argv_service_status:
  assumes "wf_map ps" "validateService ps = None"
  shows "fillArg ps ''{service}.service'' = the (map_of ps ''service'') @ ''.service''"
proof (rule fillArg_checked [where P = reServiceName and name = "''service''" and rest = "''.service''", OF assms(1)])
  show "reServiceName (go_index ps ''service'')"
    using assms(2) by (auto simp: validateService_def Let_def split: if_splits)
qed (auto simp: placeholder_def reServiceName_def[of "[]"] dest: re_no_brace)

lemma argv_log_path:
  assumes "wf_map ps" "validateLogTail ps = None"
  shows "fillArg ps ''{path}'' = the (map_of ps ''path'')"
proof -
  have "fillArg ps ''{path}'' = the (map_of ps ''path'') @ []"
  proof (rule fillArg_checked [where P = reSafePath and name = "''path''" and rest = "[]", OF assms(1)])
    show "reSafePath (go_index ps ''path'')"
      using assms(2) by (auto simp: validateLogTail_def Let_def split: if_splits)
  qed (auto simp: placeholder_def reSafePath_def[of "[]"] dest: re_no_brace)
  then show ?thesis by simp
qed

lemma argv_log_lines:
  assumes "wf_map ps" "validateLogTail ps = None"
  shows "fillArg ps ''{lines}'' = (case map_of ps ''lines'' of None \<Rightarrow> ''100'' | Some v \<Rightarrow> v)"
proof (cases "map_of ps ''lines''")
  case None
  with assms(1) show ?thesis by (simp add: fillArg_lines_default)
next
  case (Some v)
  then have "v = [] \<or> reLines v"
    using assms(2) by (auto simp: validateLogTail_def go_index_def Let_def split: if_splits)
  then have "CHR ''{'' \<notin> set v" by (auto dest: re_no_brace)
  then have "fillArg ps (placeholder ''lines'' @ []) = v @ []"
    using fillArg_placeholder [OF assms(1) _ Some, of "[]"] by simp
  with Some show ?thesis by (simp add: placeholder_def)
qed

lemma argv_sleep:
  assumes "wf_map ps" "validateSleep ps = None"
  shows "fillArg ps ''{seconds}'' = the (map_of ps ''seconds'')"
proof -
  have "fillArg ps ''{seconds}'' = the (map_of ps ''seconds'') @ []"
  proof (rule fillArg_checked [where P = reSleepSec and name = "''seconds''" and rest = "[]", OF assms(1)])
    show "reSleepSec (go_index ps ''seconds'')"
      using assms(2) by (auto simp: validateSleep_def split: if_splits)
  qed (auto simp: placeholder_def reSleepSec_def[of "[]"] dest: re_no_brace)
  then show ?thesis by simp
qed

lemmas argv_placeholders = argv_service_status argv_log_path argv_log_lines argv_sleep

lemma catalog_cases:
  assumes "catalog h i = Some a" "act_Func a = None"
  obtains "i = ''diagnose.disk_usage''" "a = ext_action i ''low'' None ''/usr/bin/df'' [''-h'']"
    | "i = ''diagnose.memory_summary''" "a = ext_action i ''low'' None ''/usr/bin/free'' [''-m'']"
    | "i = ''diagnose.cpu_top''" "a = ext_action i ''low'' None ''/usr/bin/top'' [''-b'', ''-n'', ''1'']"
    | "i = ''diagnose.network_connections''" "a = ext_action i ''low'' None ''/usr/bin/ss'' [''-s'']"
    | "i = ''diagnose.process_list''" "a = ext_action i ''low'' None ''/usr/bin/ps''
              [''-eo'', ''pid,ppid,user,pcpu,pmem,comm'', ''--sort=-pcpu'']"
    | "i = ''diagnose.service_status''" "a = ext_action i ''low'' (Some validateService) ''/usr/bin/systemctl''
              [''status'', ''--no-pager'', ''--'', ''{service}.service'']"
    | "i = ''diagnose.read_log_tail''" "a = ext_action i ''low'' (Some validateLogTail) ''/usr/bin/tail''
              [''-n'', ''{lines}'', ''--'', ''{path}'']"
    | "i = ''diagnose.test_sleep''" "a = test_sleep_action"
  using assms
  by (auto simp: catalog_def Let_def func_action_def split: if_splits)



text \<open>
  A \<^verbatim>\<open>lines\<close> parameter that is present but empty passes validation and is
  substituted literally: the default of 100 lines is used only when the key is absent, and
  \<^verbatim>\<open>tail -n ""\<close> is run otherwise.
\<close>

theorem empty_lines_reaches_tail:
  assumes "wf_map ps" "map_of ps ''lines'' = Some []" "map_of ps ''path'' = Some p"
    and "reSafePath p" "\<not> go_Contains p ''..''" "go_HasPrefix p ''/var/log/''"
    and "catalog h ''diagnose.read_log_tail'' = Some a"
  shows "validateLogTail ps = None \<and> buildArgv a ps = [''/usr/bin/tail'', ''-n'', [], ''--'', p]"
proof -
  have v: "validateLogTail ps = None"
    using assms by (simp add: validateLogTail_def go_index_def logPathAllowed_def)
  have "a = ext_action ''diagnose.read_log_tail'' ''low'' (Some validateLogTail) ''/usr/bin/tail''
              [''-n'', ''{lines}'', ''--'', ''{path}'']"
    using assms(7) by (auto simp: catalog_def Let_def split: if_splits)
  with v assms(1-3) show ?thesis
    by (simp add: buildArgv_def ext_action_def fillArg_static argv_placeholders)
qed

theorem empty_lines_reaches_tail_witness:
  "buildArgv (the (catalog \<lparr>AgentStatus = (\<lambda>_. ([], None)), InventoryRefresh = (\<lambda>_. ([], None)),
       AllowTestActions = False\<rparr> ''diagnose.read_log_tail''))
     [(''path'', ''/var/log/syslog''), (''lines'', [])]
   = [''/usr/bin/tail'', ''-n'', [], ''--'', ''/var/log/syslog'']"
proof -
  let ?h = "\<lparr>AgentStatus = (\<lambda>_. ([], None)), InventoryRefresh = (\<lambda>_. ([], None)), AllowTestActions = False\<rparr>"
  have "catalog ?h ''diagnose.read_log_tail'' = Some (the (catalog ?h ''diagnose.read_log_tail''))"
    by (simp add: catalog_def)
  moreover have "reSafePath ''/var/log/syslog''" "\<not> go_Contains ''/var/log/syslog'' ''..''"
    "go_HasPrefix ''/var/log/syslog'' ''/var/log/''" "wf_map [(''path'', ''/var/log/syslog''), (''lines'', [])]"
    by (simp_all add: reSafePath_def is_alnum_def less_eq_char_def go_HasPrefix_def wf_map_def)
  ultimately show ?thesis
    using empty_lines_reaches_tail [of "[(''path'', ''/var/log/syslog''), (''lines'', [])]" "''/var/log/syslog''"]
    by simp
qed

text \<open>
  The guarantee needs the validator. An action without one, as every plugin
  action is, substitutes placeholders found inside parameter values, and what is run then
  depends on Go's map iteration order: the same map gives two argument vectors.
\<close>

theorem unvalidated_argv_order_dependent:
  "let a = ext_action ''plugin.p.q'' ''high'' None ''/opt/p'' [''{a}'']
   in buildArgv a [(''a'', ''{b}''), (''b'', ''x'')] = [''/opt/p'', ''x''] \<and>
      buildArgv a [(''b'', ''x''), (''a'', ''{b}'')] = [''/opt/p'', ''{b}''] \<and>
      map_of [(''a'', ''{b}''), (''b'', ''x'')] = map_of [(''b'', ''x''), (''a'', ''{b}'')]"
  by (simp add: buildArgv_def ext_action_def fillArg_def placeholder_def go_ReplaceAll.simps go_HasPrefix_def
      fun_upd_twist)

end
