(* ===== verification/Capped_Buffer.thy ===== *)
theory Capped_Buffer
  imports Agent_Prelude
begin

text \<open>
  The output buffer of the executor (\<^verbatim>\<open>cappedBuffer\<close> in \<^verbatim>\<open>internal/executor/engine.go\<close>):
  a head and a tail that together keep the two ends of a command's output.
\<close>

section \<open>Definitions\<close>

record cappedBuffer =
  cb_limit :: nat
  cb_head :: string
  cb_tail :: string
  cb_truncated :: bool

definition newCappedBuffer :: "int \<Rightarrow> cappedBuffer" where
  "newCappedBuffer limitKB =
     (let limitKB = (if limitKB \<le> 0 then 1024 else limitKB)
      in \<lparr>cb_limit = nat (limitKB * 1024), cb_head = [], cb_tail = [], cb_truncated = False\<rparr>)"

text \<open>
  \<^verbatim>\<open>Write\<close> always reports \<^verbatim>\<open>len(p)\<close> bytes written and no error; the model returns the new
  buffer.
\<close>

definition cb_Write :: "cappedBuffer \<Rightarrow> string \<Rightarrow> cappedBuffer" where
  "cb_Write b p =
     (let half = cb_limit b div 2;
          total = length (cb_head b) + length (cb_tail b)
      in if total + length p \<le> cb_limit b
         then (if length (cb_tail b) > 0 then b\<lparr>cb_tail := cb_tail b @ p\<rparr>
               else b\<lparr>cb_head := cb_head b @ p\<rparr>)
         else
           (let b = b\<lparr>cb_truncated := True\<rparr>;
                b = (if length (cb_head b) < half
                     then (let need = half - length (cb_head b);
                               b = b\<lparr>cb_head := cb_head b @ take (min need (length p)) p\<rparr>
                           in if length p > need then b\<lparr>cb_tail := cb_tail b @ drop need p\<rparr> else b)
                     else b\<lparr>cb_tail := cb_tail b @ p\<rparr>)
            in if length (cb_tail b) > half
               then b\<lparr>cb_tail := drop (length (cb_tail b) - half) (cb_tail b)\<rparr> else b))"

definition cb_String :: "cappedBuffer \<Rightarrow> string" where
  "cb_String b =
     (if \<not> cb_truncated b then cb_head b @ cb_tail b
      else cb_head b @ ''\<newline>...[TRUNCATED]...\<newline>'' @ cb_tail b)"

definition cb_write_all :: "cappedBuffer \<Rightarrow> string list \<Rightarrow> cappedBuffer" where
  "cb_write_all b ps = foldl cb_Write b ps"

section \<open>What the buffer keeps\<close>

text \<open>
  Relation between a buffer and the whole stream \<open>s\<close> written to it so far: before the limit
  is passed the head is the stream; afterwards the head is a prefix of at least half the
  limit and the tail is the end of the stream, never overlapping the head.
\<close>

definition cb_keeps :: "cappedBuffer \<Rightarrow> string \<Rightarrow> bool" where
  "cb_keeps b s \<longleftrightarrow> 2 \<le> cb_limit b \<and> even (cb_limit b) \<and>
     (\<not> cb_truncated b \<longrightarrow> length s \<le> cb_limit b \<and> cb_head b = s \<and> cb_tail b = []) \<and>
     (cb_truncated b \<longrightarrow> cb_limit b < length s \<and>
        cb_limit b div 2 \<le> length (cb_head b) \<and> length (cb_head b) \<le> cb_limit b \<and>
        (\<exists>r. s = cb_head b @ r \<and>
           cb_tail b = drop (length r - cb_limit b div 2) r))"

lemma cb_Write_limit [simp]: "cb_limit (cb_Write b p) = cb_limit b"
  by (simp add: cb_Write_def Let_def)

lemma drop_end_append:
  "drop (length (drop (length r - h) r @ p) - h) (drop (length r - h) r @ p) = drop (length (r @ p) - h) (r @ p)"
proof (cases "length p \<ge> h")
  case True
  then show ?thesis by simp
next
  case False
  then show ?thesis by (cases "h \<le> length r") (simp_all add: add.commute)
qed

lemma cb_Write_overflow:
  assumes "cb_limit b < length (cb_head b) + length (cb_tail b) + length p"
    and "cb_tail b = [] \<or> cb_limit b div 2 \<le> length (cb_head b)"
  defines "need \<equiv> cb_limit b div 2 - length (cb_head b)"
  defines "t \<equiv> cb_tail b @ drop need p"
  shows "cb_Write b p = b\<lparr>cb_truncated := True, cb_head := cb_head b @ take need p,
           cb_tail := drop (length t - cb_limit b div 2) t\<rparr>"
proof (cases "length (cb_head b) < cb_limit b div 2")
  case True
  with assms(1,2) have "need < length p" unfolding need_def by auto
  with True assms(1) show ?thesis by (simp add: cb_Write_def Let_def t_def flip: need_def)
next
  case False
  then have "need = 0" by (simp add: need_def)
  with False assms(1) show ?thesis by (simp add: cb_Write_def Let_def t_def)
qed

lemma cb_Write_keeps:
  assumes "cb_keeps b s"
  shows "cb_keeps (cb_Write b p) (s @ p)"
proof (cases "cb_truncated b")
  case False
  then have h: "cb_head b = s" "cb_tail b = []" "length s \<le> cb_limit b" "2 \<le> cb_limit b" "even (cb_limit b)"
    using assms by (auto simp: cb_keeps_def)
  show ?thesis
  proof (cases "length s + length p \<le> cb_limit b")
    case True
    with False h show ?thesis by (simp add: cb_keeps_def cb_Write_def)
  next
    case big: False
    let ?need = "cb_limit b div 2 - length s"
    have need: "?need \<le> length p" using big by linarith
    have w: "cb_Write b p = b\<lparr>cb_truncated := True, cb_head := s @ take ?need p,
           cb_tail := drop (length (drop ?need p) - cb_limit b div 2) (drop ?need p)\<rparr>"
      using cb_Write_overflow [of b p] h big by simp
    have "s @ p = (s @ take ?need p) @ drop ?need p" by simp
    moreover have "cb_limit b div 2 \<le> length (s @ take ?need p)" "length (s @ take ?need p) \<le> cb_limit b"
      using need h(3) by auto
    ultimately show ?thesis unfolding cb_keeps_def w using big h(4,5)
      by (simp only: cappedBuffer.simps simp_thms) (auto intro!: exI [of _ "drop ?need p"])
  qed
next
  case True
  then obtain r where h: "cb_limit b < length s"
    "cb_limit b div 2 \<le> length (cb_head b)" "length (cb_head b) \<le> cb_limit b"
    "s = cb_head b @ r" "cb_tail b = drop (length r - cb_limit b div 2) r"
    "2 \<le> cb_limit b" "even (cb_limit b)"
    using assms by (auto simp: cb_keeps_def)
  let ?t = "cb_tail b @ p"
  have new: "cb_tail (cb_Write b p) = drop (length ?t - cb_limit b div 2) ?t"
    and hd: "cb_head (cb_Write b p) = cb_head b" and tr: "cb_truncated (cb_Write b p)"
  proof -
    have "cb_tail (cb_Write b p) = drop (length ?t - cb_limit b div 2) ?t \<and>
      cb_head (cb_Write b p) = cb_head b \<and> cb_truncated (cb_Write b p)"
    proof (cases "cb_limit b < length (cb_head b) + length (cb_tail b) + length p")
      case big: True
      then show ?thesis using cb_Write_overflow [of b p] h(2) by simp
    next
      case False
      have "0 < length r" "0 < cb_limit b div 2" using h(1,3,4,6) by auto
      then have "0 < length (cb_tail b)" unfolding h(5) by simp
      moreover have "length ?t \<le> cb_limit b div 2" using False h(2,7) by (auto elim!: evenE)
      ultimately show ?thesis using False True by (simp add: cb_Write_def)
    qed
    then show "cb_tail (cb_Write b p) = drop (length ?t - cb_limit b div 2) ?t"
      "cb_head (cb_Write b p) = cb_head b" "cb_truncated (cb_Write b p)" by auto
  qed
  have "drop (length ?t - cb_limit b div 2) ?t = drop (length (r @ p) - cb_limit b div 2) (r @ p)"
    unfolding h(5) by (rule drop_end_append)
  with new hd tr h show ?thesis
    by (auto simp: cb_keeps_def intro!: exI [of _ "r @ p"])
qed

lemma newCappedBuffer_keeps: "cb_keeps (newCappedBuffer k) []"
proof -
  have "2 \<le> nat (j * 1024) \<and> even (nat (j * 1024))" if "0 < j" for j :: int
    using that by (simp add: even_nat_iff le_nat_iff)
  then show ?thesis by (simp add: cb_keeps_def newCappedBuffer_def Let_def)
qed

lemma cb_write_all_keeps: "cb_keeps b s \<Longrightarrow> cb_keeps (cb_write_all b ps) (s @ concat ps)"
  unfolding cb_write_all_def
proof (induction ps arbitrary: b s)
  case (Cons p ps)
  from Cons.IH [OF cb_Write_keeps [OF Cons.prems]] show ?case by simp
qed simp

lemma cb_write_all_limit [simp]: "cb_limit (cb_write_all b ps) = cb_limit b"
  unfolding cb_write_all_def by (induction ps arbitrary: b) auto

text \<open>
  Whatever the sequence of writes, the buffer is marked truncated exactly
  when more than the limit was written; below the limit \<^verbatim>\<open>String\<close> is the whole output, above
  it the head is a prefix of the output of between half the limit and the limit, and the
  tail is the last bytes of the rest, at most half the limit, with nothing reordered.
\<close>

theorem capped_buffer_keeps_ends:
  fixes k ps
  defines "b \<equiv> cb_write_all (newCappedBuffer k) ps"
  shows "(cb_truncated b \<longleftrightarrow> cb_limit b < length (concat ps)) \<and>
    (if cb_truncated b
     then cb_limit b div 2 \<le> length (cb_head b) \<and> length (cb_head b) \<le> cb_limit b \<and>
          length (cb_tail b) \<le> cb_limit b div 2 \<and>
          (\<exists>m. concat ps = cb_head b @ m @ cb_tail b)
     else cb_String b = concat ps)"
proof -
  have k: "cb_keeps b (concat ps)"
    unfolding b_def using cb_write_all_keeps [OF newCappedBuffer_keeps] by simp
  show ?thesis
  proof (cases "cb_truncated b")
    case False
    with k show ?thesis by (auto simp: cb_keeps_def cb_String_def)
  next
    case True
    with k obtain r where r: "concat ps = cb_head b @ r"
      "cb_tail b = drop (length r - cb_limit b div 2) r"
      "cb_limit b div 2 \<le> length (cb_head b)" "length (cb_head b) \<le> cb_limit b"
      "cb_limit b < length (concat ps)"
      by (auto simp: cb_keeps_def)
    then have "concat ps = cb_head b @ take (length r - cb_limit b div 2) r @ cb_tail b" by simp
    moreover have "length (cb_tail b) \<le> cb_limit b div 2" using r(2) by simp
    ultimately show ?thesis using True r(3-5) by auto
  qed
qed

text \<open>
  The stored output can exceed the configured limit by half of it. When a
  first write fills the head up to the limit and a second write follows, the buffer holds
  the limit plus half the limit, although \<^verbatim>\<open>output_limit_kb\<close> promises head half plus tail half.
\<close>

theorem capped_buffer_exceeds_limit:
  assumes "0 < k"
  shows "\<exists>ps. let b = cb_write_all (newCappedBuffer k) ps
     in length (cb_head b) + length (cb_tail b) = cb_limit b + cb_limit b div 2 \<and> 0 < cb_limit b"
proof -
  let ?n = "cb_limit (newCappedBuffer k)"
  have n: "?n = nat (k * 1024)" "0 < ?n" using assms by (simp_all add: newCappedBuffer_def)
  let ?p = "replicate ?n (CHR ''x'')"
  let ?b1 = "cb_Write (newCappedBuffer k) ?p"
  have b1: "cb_head ?b1 = ?p" "cb_tail ?b1 = []"
    by (simp_all add: cb_Write_def newCappedBuffer_def Let_def)
  then have w: "cb_Write ?b1 ?p = ?b1\<lparr>cb_truncated := True, cb_head := ?p,
      cb_tail := drop (?n - ?n div 2) ?p\<rparr>"
    using cb_Write_overflow [of ?b1 ?p] n(2) by simp
  have "length (cb_head (cb_Write ?b1 ?p)) + length (cb_tail (cb_Write ?b1 ?p)) = ?n + ?n div 2"
    unfolding w by simp
  with n(2) show ?thesis
    by (intro exI [of _ "[?p, ?p]"]) (simp add: Let_def cb_write_all_def)
qed

theorem capped_buffer_exceeds_limit_witness:
  "\<exists>ps. let b = cb_write_all (newCappedBuffer 1) ps
     in length (cb_head b) + length (cb_tail b) = cb_limit b + cb_limit b div 2 \<and> 0 < cb_limit b"
  by (rule capped_buffer_exceeds_limit [of 1]) simp

end
