(* ===== verification/Engine.thy ===== *)
theory Engine
  imports Actions Capped_Buffer "HOL-Library.Sublist"
begin

text \<open>
  The command executor: \<^verbatim>\<open>internal/executor/engine.go\<close>, \<^verbatim>\<open>envelope.go\<close> and \<^verbatim>\<open>poller.go\<close>. The
  engine's channel, worker pool and table of cancel functions are explicit state; what the
  operating system does to a child process is an input of the operation that observes it.
  Every result that the engine hands to \<^verbatim>\<open>reporter.SubmitReliable\<close> is returned.
\<close>

section \<open>Data\<close>

record Command =
  c_CmdID :: string
  c_Action :: string
  c_Params :: smap
  c_TimeoutSec :: int

text \<open>
  The \<^verbatim>\<open>stderr\<close> text of a result: bytes of the process, an error message, or both. Messages
  are kept as error values.
\<close>

datatype stderr_text = Bytes string | ErrorText exec_error | BytesThenError string exec_error

record Result =
  r_CmdID :: string
  r_Status :: string
  r_ExitCode :: int
  r_Stdout :: string
  r_Stderr :: stderr_text
  r_Truncated :: bool
  r_KillReason :: string
  r_DurationMs :: int
  r_StartedAt :: int
  r_FinishedAt :: int

definition zeroResult :: Result where
  "zeroResult = \<lparr>r_CmdID = [], r_Status = [], r_ExitCode = 0, r_Stdout = [], r_Stderr = Bytes [],
     r_Truncated = False, r_KillReason = [], r_DurationMs = 0, r_StartedAt = 0, r_FinishedAt = 0\<rparr>"

record ExecutorConf =
  x_Workers :: int
  x_QueueSize :: nat
  x_MaxTimeout :: int
  x_KillGrace :: int
  x_OutputLimitKB :: int

text \<open>
  \<open>e_idle\<close> counts the workers blocked on the channel, \<open>e_active\<close> the executions under way
  (numbered), \<open>e_running\<close> is the \<^verbatim>\<open>sync.Map\<close> from command id to cancel function (the number
  of the execution it cancels), \<open>e_cancelled\<close> the executions whose context was cancelled.
\<close>

record 'pub Engine =
  e_cfg :: ExecutorConf
  e_catalog :: "string \<rightharpoonup> Action"
  e_verifyKey :: "'pub option"
  e_nonces :: NonceCache
  e_queue :: "Command list"
  e_running :: "string \<rightharpoonup> nat"
  e_idle :: nat
  e_active :: "(nat \<times> Command) list"
  e_cancelled :: "nat list"
  e_next :: nat

definition second :: int where
  "second = 1000000000"

section \<open>Construction\<close>

definition NewEngine :: "ExecutorConf \<Rightarrow> 'pub option \<Rightarrow> Hooks \<Rightarrow> 'pub Engine" where
  "NewEngine cfg key h =
     \<lparr>e_cfg = cfg, e_catalog = catalog h, e_verifyKey = key, e_nonces = NewNonceCache 10000,
      e_queue = [], e_running = Map.empty, e_idle = 0, e_active = [], e_cancelled = [], e_next = 0\<rparr>"

fun AddActions :: "'pub Engine \<Rightarrow> Action list \<Rightarrow> 'pub Engine" where
  "AddActions e [] = e"
| "AddActions e (a # acts) =
     (if e_catalog e (act_ID a) \<noteq> None then AddActions e acts
      else AddActions (e\<lparr>e_catalog := (e_catalog e)(act_ID a \<mapsto> a)\<rparr>) acts)"

definition engine_Start :: "'pub Engine \<Rightarrow> 'pub Engine" where
  "engine_Start e =
     (let workers = x_Workers (e_cfg e);
          workers = (if workers \<le> 0 then 4 else workers)
      in e\<lparr>e_idle := nat workers\<rparr>)"

section \<open>Submission\<close>

definition validate :: "'pub Engine \<Rightarrow> Command \<Rightarrow> exec_error option" where
  "validate e cmd =
     (case e_catalog e (c_Action cmd) of
        None \<Rightarrow> Some (UnknownAction (c_Action cmd))
      | Some a \<Rightarrow>
          (case act_Validate a of
             None \<Rightarrow> None
           | Some f \<Rightarrow> (case f (c_Params cmd) of
                          None \<Rightarrow> None
                        | Some err \<Rightarrow> Some (ParamValidationFailed err))))"

text \<open>
  A non-blocking send succeeds when a worker waits on the channel, which then takes the
  command without buffering it, or when the buffer has room. \<open>e_queue\<close> holds the commands
  handed to a waiting worker that has not run yet, then the buffered ones.
\<close>

definition queue_accepts :: "'pub Engine \<Rightarrow> bool" where
  "queue_accepts e \<longleftrightarrow> length (e_queue e) < x_QueueSize (e_cfg e) + e_idle e"

definition Submit :: "int \<Rightarrow> 'pub Engine \<Rightarrow> Command \<Rightarrow> Result \<times> 'pub Engine" where
  "Submit now e cmd =
     (case validate e cmd of
        Some err \<Rightarrow> (zeroResult\<lparr>r_CmdID := c_CmdID cmd, r_Status := ''REJECTED_POLICY'', r_ExitCode := -1,
                       r_Stderr := ErrorText err, r_FinishedAt := now\<rparr>, e)
      | None \<Rightarrow>
          (if queue_accepts e
           then (zeroResult\<lparr>r_CmdID := c_CmdID cmd, r_Status := ''QUEUED'', r_ExitCode := -1\<rparr>,
                 e\<lparr>e_queue := e_queue e @ [cmd]\<rparr>)
           else (zeroResult\<lparr>r_CmdID := c_CmdID cmd, r_Status := ''REJECTED_BUSY'', r_ExitCode := -1,
                   r_Stderr := ErrorText ExecutorQueueFull, r_FinishedAt := now\<rparr>, e)))"

definition reject :: "CommandEnvelope \<Rightarrow> int \<Rightarrow> exec_error \<Rightarrow> Result" where
  "reject env fin reason = zeroResult\<lparr>r_CmdID := env_CmdId env, r_Status := ''REJECTED_POLICY'',
     r_ExitCode := -1, r_Stderr := ErrorText reason, r_FinishedAt := fin\<rparr>"

definition command_of :: "CommandEnvelope \<Rightarrow> Command" where
  "command_of env = \<lparr>c_CmdID = env_CmdId env, c_Action = env_Action env, c_Params = env_Params env,
     c_TimeoutSec = uint (env_TimeoutSec env)\<rparr>"

text \<open>
  \<open>now\<close> is the clock read before the guards, \<open>fin\<close> the one read when a refusal is reported.
  The first component is what reaches \<^verbatim>\<open>reportImmediate\<close>.
\<close>

definition submit_checked :: "int \<Rightarrow> int \<Rightarrow> 'pub Engine \<Rightarrow> CommandEnvelope \<Rightarrow> Result list \<times> 'pub Engine" where
  "submit_checked now fin e env =
     (if sint (env_ExpiresAt env) > 0 \<and> now > sint (env_ExpiresAt env)
      then ([reject env fin EnvelopeExpired], e)
      else (let (res, e') = Submit fin e (command_of env)
            in (if r_Status res \<noteq> ''QUEUED'' then [res] else [], e')))"

definition SubmitEnvelope ::
  "('pub \<Rightarrow> bytes \<Rightarrow> bytes \<Rightarrow> bool) \<Rightarrow> int \<Rightarrow> int \<Rightarrow> 'pub Engine \<Rightarrow> CommandEnvelope \<Rightarrow> Result list \<times> 'pub Engine"
where
  "SubmitEnvelope verify now fin e env =
     (case e_verifyKey e of
        None \<Rightarrow> submit_checked now fin e env
      | Some key \<Rightarrow>
          (case Verify verify key env of
             Some err \<Rightarrow> ([reject env fin (SignatureInvalid err)], e)
           | None \<Rightarrow>
               if length (env_Nonce env) = 0 then ([reject env fin NonceRequired], e)
               else (case nonce_Check (e_nonces e) (env_Nonce env) (sint (env_ExpiresAt env)) now of
                       (Some err, c) \<Rightarrow> ([reject env fin (NonceRejected err)], e\<lparr>e_nonces := c\<rparr>)
                     | (None, c) \<Rightarrow> submit_checked now fin (e\<lparr>e_nonces := c\<rparr>) env)))"

definition Cancel :: "'pub Engine \<Rightarrow> string \<Rightarrow> 'pub Engine" where
  "Cancel e cmdID =
     (case e_running e cmdID of
        None \<Rightarrow> e
      | Some h \<Rightarrow> e\<lparr>e_cancelled := h # e_cancelled e\<rparr>)"

definition engine_Stats :: "'pub Engine \<Rightarrow> nat \<times> nat" where
  "engine_Stats e = (card (dom (e_running e)), length (e_queue e) - e_idle e)"

section \<open>Execution\<close>

definition effective_timeout :: "ExecutorConf \<Rightarrow> Action \<Rightarrow> Command \<Rightarrow> int" where
  "effective_timeout cfg a cmd =
     (let timeout = wrap64 (c_TimeoutSec cmd * second);
          maxTimeout = x_MaxTimeout cfg;
          maxTimeout = (if maxTimeout \<le> 0 then 300 * second else maxTimeout);
          maxTimeout = (if act_PluginTO a > 0 \<and> act_PluginTO a < maxTimeout
                        then act_PluginTO a else maxTimeout)
      in if timeout \<le> 0 \<or> timeout > maxTimeout then maxTimeout else timeout)"

definition kill_grace :: "ExecutorConf \<Rightarrow> int" where
  "kill_grace cfg = (if x_KillGrace cfg \<le> 0 then 3 * second else x_KillGrace cfg)"

datatype signal = SIGTERM | SIGKILL

text \<open>
  What the world does to an external command, in the order the nested \<^verbatim>\<open>select\<close>s of
  \<^verbatim>\<open>runExternal\<close> observe it, with the chunks it writes: it cannot be started; it exits before
  the context ends; the context ends and it exits within the grace period after SIGTERM; it
  outlives the grace period and is killed.
\<close>

datatype ext_run =
    StartErr string
  | DoneFirst "string list" "string list" "exec_error option"
  | TermExit ctx_err "string list" "string list" "exec_error option"
  | KillExit ctx_err "string list" "string list"

definition runExternal ::
  "ExecutorConf \<Rightarrow> Command \<Rightarrow> Action \<Rightarrow> ext_run \<Rightarrow>
   string list \<times> signal list \<times> cappedBuffer \<times> cappedBuffer \<times> exec_error option" where
  "runExternal cfg cmd a run =
     (let argv = buildArgv a (c_Params cmd);
          stdout = newCappedBuffer (x_OutputLimitKB cfg);
          stderr = newCappedBuffer (x_OutputLimitKB cfg)
      in case run of
           StartErr m \<Rightarrow> (argv, [], stdout, stderr, Some (StartFailed m))
         | DoneFirst out err r \<Rightarrow> (argv, [], cb_write_all stdout out, cb_write_all stderr err, r)
         | TermExit c out err r \<Rightarrow> (argv, [SIGTERM], cb_write_all stdout out, cb_write_all stderr err, r)
         | KillExit c out err \<Rightarrow>
             (argv, [SIGTERM, SIGKILL], cb_write_all stdout out, cb_write_all stderr err, Some (CtxErr c)))"

record exec_world =
  w_startedAt :: int
  w_durationMs :: int
  w_finishedAt :: int
  w_run :: ext_run
  w_ctxErr :: "ctx_err option"
  w_parentErr :: bool

text \<open>The final \<^verbatim>\<open>switch\<close> of \<^verbatim>\<open>execute\<close>.\<close>

definition classify :: "ctx_err option \<Rightarrow> bool \<Rightarrow> exec_error option \<Rightarrow> Result \<Rightarrow> Result" where
  "classify ctxErr parentErr execErr res =
     (if ctxErr = Some DeadlineExceeded
      then res\<lparr>r_Status := ''TIMEOUT_KILLED'', r_KillReason := ''timeout'', r_ExitCode := -1\<rparr>
      else if ctxErr = Some Canceled \<and> \<not> parentErr
      then res\<lparr>r_Status := ''CANCELLED'', r_KillReason := ''cancel'', r_ExitCode := -1\<rparr>
      else case execErr of
             Some err \<Rightarrow>
               (case err of
                  ExitError code \<Rightarrow> res\<lparr>r_Status := ''FAILED'', r_ExitCode := code\<rparr>
                | _ \<Rightarrow> res\<lparr>r_Status := ''FAILED'', r_ExitCode := -1,
                          r_Stderr := (case r_Stderr res of Bytes s \<Rightarrow> BytesThenError s err
                                                          | t \<Rightarrow> t)\<rparr>)
           | None \<Rightarrow> res\<lparr>r_Status := ''SUCCEEDED'', r_ExitCode := 0\<rparr>)"

text \<open>
  \<^verbatim>\<open>execute\<close>: \<open>None\<close> is the nil-pointer panic on a command whose action is not in the
  catalogue.
\<close>

definition execute :: "'pub Engine \<Rightarrow> Command \<Rightarrow> exec_world \<Rightarrow> (signal list \<times> Result) option" where
  "execute e cmd w =
     (case e_catalog e (c_Action cmd) of
        None \<Rightarrow> None
      | Some a \<Rightarrow>
          (let res = zeroResult\<lparr>r_CmdID := c_CmdID cmd, r_StartedAt := w_startedAt w\<rparr>;
               (sigs, stdout, stderr, execErr) =
                 (case act_Func a of
                    Some f \<Rightarrow>
                      (let (out, err) = f (c_Params cmd)
                       in ([], cb_Write (newCappedBuffer (x_OutputLimitKB (e_cfg e))) out,
                           newCappedBuffer (x_OutputLimitKB (e_cfg e)), err))
                  | None \<Rightarrow> snd (runExternal (e_cfg e) cmd a (w_run w)));
               res = res\<lparr>r_DurationMs := w_durationMs w, r_FinishedAt := w_finishedAt w,
                         r_Stdout := cb_String stdout, r_Stderr := Bytes (cb_String stderr),
                         r_Truncated := cb_truncated stdout \<or> cb_truncated stderr\<rparr>
           in Some (sigs, classify (w_ctxErr w) (w_parentErr w) execErr res)))"

section \<open>The worker loop\<close>

text \<open>
  A worker takes the head of the queue and registers its cancel function; when the
  execution is over it removes the entry of its command id and reports the result.
\<close>

definition worker_take :: "'pub Engine \<Rightarrow> 'pub Engine option" where
  "worker_take e =
     (case e_queue e of
        [] \<Rightarrow> None
      | cmd # q \<Rightarrow>
          if e_idle e = 0 then None
          else Some (e\<lparr>e_queue := q, e_idle := e_idle e - 1,
                       e_running := (e_running e)(c_CmdID cmd \<mapsto> e_next e),
                       e_active := (e_next e, cmd) # e_active e, e_next := Suc (e_next e)\<rparr>))"

definition worker_finish :: "'pub Engine \<Rightarrow> nat \<Rightarrow> exec_world \<Rightarrow> (Result \<times> 'pub Engine) option" where
  "worker_finish e h w =
     (case map_of (e_active e) h of
        None \<Rightarrow> None
      | Some cmd \<Rightarrow>
          (case execute e cmd w of
             None \<Rightarrow> None
           | Some (sigs, res) \<Rightarrow>
               Some (res, e\<lparr>e_active := AList.delete h (e_active e), e_idle := Suc (e_idle e),
                            e_running := (e_running e)(c_CmdID cmd := None)\<rparr>)))"

section \<open>The long-poll channel\<close>

fun poll_cancels :: "'pub Engine \<Rightarrow> string list \<Rightarrow> 'pub Engine" where
  "poll_cancels e [] = e"
| "poll_cancels e (i # is) = poll_cancels (Cancel e i) is"

fun poll_commands :: "int \<Rightarrow> 'pub Engine \<Rightarrow> Command list \<Rightarrow> Result list \<times> 'pub Engine" where
  "poll_commands now e [] = ([], e)"
| "poll_commands now e (cmd # cmds) =
     (let (res, e') = Submit now e cmd;
          (rs, e'') = poll_commands now e' cmds
      in (if r_Status res = ''QUEUED'' then rs else res # rs, e''))"

text \<open>
  One turn of \<^verbatim>\<open>Poller.loop\<close>: nothing is polled before registration, a failed poll doubles
  the back-off up to the first value of at least a minute, a successful one resets it and
  handles the cancellations before the commands.
\<close>

datatype poll_outcome = PollFailed | PollOK "Command list" "string list"

definition poll_interval :: int where
  "poll_interval = 5 * second"

definition poll_turn ::
  "int \<Rightarrow> string \<Rightarrow> poll_outcome \<Rightarrow> int \<Rightarrow> 'pub Engine \<Rightarrow> Result list \<times> int \<times> 'pub Engine" where
  "poll_turn now assetID resp backoff e =
     (if assetID = [] then ([], backoff, e)
      else case resp of
        PollFailed \<Rightarrow> ([], if backoff < 60 * second then backoff * 2 else backoff, e)
      | PollOK cmds cancels \<Rightarrow>
          (let (rs, e') = poll_commands now (poll_cancels e cancels) cmds in (rs, poll_interval, e')))"

text \<open>
  One request of the poller: \<open>None\<close> is a transport error; otherwise the status and the body, if
  it can be decoded. Only status 200 counts.
\<close>

definition poll_url :: "string \<Rightarrow> string \<Rightarrow> string" where
  "poll_url addr assetID = addr @ ''/v1/commands?asset_id='' @ assetID @ ''&wait=25''"

definition poller_poll :: "(nat \<times> (Command list \<times> string list) option) option \<Rightarrow> poll_outcome" where
  "poller_poll resp =
     (case resp of
        None \<Rightarrow> PollFailed
      | Some (status, body) \<Rightarrow>
          if status \<noteq> 200 then PollFailed
          else (case body of None \<Rightarrow> PollFailed | Some (cmds, cancels) \<Rightarrow> PollOK cmds cancels))"

text \<open>Every polled command is queued, in the order of the answer, or reported as rejected.\<close>

lemma poll_commands_accounted:
  assumes "poll_commands now e cmds = (rs, e')"
  shows "\<exists>qs. e_queue e' = e_queue e @ qs \<and> subseq qs cmds \<and>
    image_mset c_CmdID (mset qs) + image_mset r_CmdID (mset rs) = image_mset c_CmdID (mset cmds) \<and>
    (\<forall>r \<in> set rs. r_Status r \<in> {''REJECTED_POLICY'', ''REJECTED_BUSY''})"
  using assms
proof (induction cmds arbitrary: e rs)
  case (Cons cmd cmds)
  obtain res e1 where s: "Submit now e cmd = (res, e1)" by (cases "Submit now e cmd")
  obtain rs' where r: "poll_commands now e1 cmds = (rs', e')" "rs = (if r_Status res = ''QUEUED'' then rs' else res # rs')"
    using Cons.prems s by (auto split: prod.splits)
  from Cons.IH [OF r(1)] obtain qs where q: "e_queue e' = e_queue e1 @ qs" "subseq qs cmds"
    "image_mset c_CmdID (mset qs) + image_mset r_CmdID (mset rs') = image_mset c_CmdID (mset cmds)"
    "\<forall>r \<in> set rs'. r_Status r \<in> {''REJECTED_POLICY'', ''REJECTED_BUSY''}" by blast
  show ?case
  proof (cases "r_Status res = ''QUEUED''")
    case True
    then have "e_queue e1 = e_queue e @ [cmd]" using s by (auto simp: Submit_def zeroResult_def split: option.splits if_splits)
    then show ?thesis using q r(2) True by (intro exI [of _ "cmd # qs"]) auto
  next
    case False
    then have "e1 = e" "r_CmdID res = c_CmdID cmd" "r_Status res \<in> {''REJECTED_POLICY'', ''REJECTED_BUSY''}"
      using s by (auto simp: Submit_def zeroResult_def split: option.splits if_splits)
    then show ?thesis using q r(2) False by (intro exI [of _ qs]) auto
  qed
qed auto

text \<open>Polled commands carry no signature: a configured key does not stop them.\<close>

lemma poller_skips_verification:
  assumes "e_verifyKey e = Some key" "assetID \<noteq> []" "validate e cmd = None" "queue_accepts e"
  shows "e_queue (snd (snd (poll_turn now assetID (PollOK [cmd] []) b e))) = e_queue e @ [cmd]"
  using assms by (simp add: poll_turn_def Submit_def zeroResult_def)

section \<open>Timeouts and process control\<close>

text \<open>The hard limit on an action: the configured maximum, or the stricter one of its plugin.\<close>

definition timeout_cap :: "ExecutorConf \<Rightarrow> Action \<Rightarrow> int" where
  "timeout_cap cfg a =
     (let m = (if x_MaxTimeout cfg \<le> 0 then 300 * second else x_MaxTimeout cfg)
      in if 0 < act_PluginTO a then min m (act_PluginTO a) else m)"

text \<open>
  Whatever timeout the platform asks for, 64-bit overflow of its conversion to
  nanoseconds included, the timeout an execution runs under is positive and at most the
  configured maximum and the plugin's own limit, and a request within that limit is
  honoured exactly.
\<close>

theorem effective_timeout_bounded:
  assumes "timeout_cap cfg a < 2 ^ 63"
  shows "0 < effective_timeout cfg a cmd \<and> effective_timeout cfg a cmd \<le> timeout_cap cfg a \<and>
    (0 < c_TimeoutSec cmd \<and> c_TimeoutSec cmd * second \<le> timeout_cap cfg a \<longrightarrow>
       effective_timeout cfg a cmd = c_TimeoutSec cmd * second)"
proof -
  have cap: "0 < timeout_cap cfg a" by (auto simp: timeout_cap_def second_def Let_def min_def)
  have eff: "effective_timeout cfg a cmd =
      (let t = wrap64 (c_TimeoutSec cmd * second) in if t \<le> 0 \<or> t > timeout_cap cfg a then timeout_cap cfg a else t)"
    by (auto simp: effective_timeout_def timeout_cap_def Let_def min_def)
  have "wrap64 (c_TimeoutSec cmd * second) = c_TimeoutSec cmd * second"
    if "0 < c_TimeoutSec cmd" "c_TimeoutSec cmd * second \<le> timeout_cap cfg a"
    using that assms by (intro wrap64_id) (auto simp: second_def)
  with cap show ?thesis by (auto simp: eff Let_def second_def)
qed

definition sample_conf :: ExecutorConf where
  "sample_conf = \<lparr>x_Workers = 1, x_QueueSize = 1, x_MaxTimeout = 0, x_KillGrace = 0, x_OutputLimitKB = 1\<rparr>"

theorem effective_timeout_bounded_witness:
  "timeout_cap sample_conf test_sleep_action < 2 ^ 63 \<and>
   effective_timeout sample_conf test_sleep_action
     \<lparr>c_CmdID = ''a'', c_Action = ''diagnose.test_sleep'', c_Params = [], c_TimeoutSec = 60\<rparr> = 60 * second"
proof -
  have "timeout_cap sample_conf test_sleep_action = 300 * second"
    by (simp add: timeout_cap_def sample_conf_def test_sleep_action_def ext_action_def)
  with effective_timeout_bounded [of sample_conf test_sleep_action
      "\<lparr>c_CmdID = ''a'', c_Action = ''diagnose.test_sleep'', c_Params = [], c_TimeoutSec = 60\<rparr>"]
  show ?thesis by (simp add: second_def)
qed

text \<open>
  What Go's contexts guarantee about the observations of one execution: the kill path is
  entered only after the context ended, and the error that path saw is the one seen later.
\<close>

fun world_consistent :: "exec_world \<Rightarrow> bool" where
  "world_consistent w =
     (case w_run w of
        TermExit c _ _ _ \<Rightarrow> w_ctxErr w = Some c
      | KillExit c _ _ \<Rightarrow> w_ctxErr w = Some c
      | _ \<Rightarrow> True)"

definition final_statuses :: "string set" where
  "final_statuses = {''SUCCEEDED'', ''FAILED'', ''TIMEOUT_KILLED'', ''CANCELLED''}"

lemma classify_fields:
  "r_CmdID (classify c p x res) = r_CmdID res \<and> r_Status (classify c p x res) \<in> final_statuses \<and>
   r_Stdout (classify c p x res) = r_Stdout res \<and> r_Truncated (classify c p x res) = r_Truncated res"
  by (auto simp: classify_def final_statuses_def split: option.splits exec_error.splits)

lemma execute_catalogued:
  "e_catalog e (c_Action cmd) = Some a \<Longrightarrow>
   \<exists>sigs res. execute e cmd w = Some (sigs, res) \<and> r_CmdID res = c_CmdID cmd \<and> r_Status res \<in> final_statuses"
  by (auto simp: execute_def Let_def case_prod_unfold classify_fields)

lemma runExternal_signals:
  "fst (snd (runExternal cfg cmd a r)) =
     (case r of TermExit _ _ _ _ \<Rightarrow> [SIGTERM] | KillExit _ _ _ \<Rightarrow> [SIGTERM, SIGKILL] | _ \<Rightarrow> [])"
  by (auto simp: runExternal_def Let_def split: ext_run.splits)

text \<open>
  A process group is signalled only after its context ended, SIGTERM always before
  SIGKILL; a command reported as SUCCEEDED had exit code 0, its context had not expired and
  was not cancelled on its own, and it was signalled only if the whole agent was stopping.
\<close>

theorem signals_and_status_agree:
  assumes "execute e cmd w = Some (sigs, res)" "world_consistent w"
  shows "(sigs = [] \<or> sigs = [SIGTERM] \<or> sigs = [SIGTERM, SIGKILL]) \<and>
    (sigs \<noteq> [] \<longrightarrow> w_ctxErr w \<noteq> None) \<and>
    (r_Status res = ''SUCCEEDED'' \<longrightarrow>
       r_ExitCode res = 0 \<and> w_ctxErr w \<noteq> Some DeadlineExceeded \<and>
       (w_ctxErr w = Some Canceled \<longrightarrow> w_parentErr w) \<and> (sigs \<noteq> [] \<longrightarrow> w_parentErr w)) \<and>
    (r_Status res = ''TIMEOUT_KILLED'' \<longleftrightarrow> w_ctxErr w = Some DeadlineExceeded) \<and>
    (r_Status res = ''CANCELLED'' \<longleftrightarrow> w_ctxErr w = Some Canceled \<and> \<not> w_parentErr w)"
proof -
  obtain a where a: "e_catalog e (c_Action cmd) = Some a"
    using assms(1) by (auto simp: execute_def split: option.splits)
  obtain x r0 where res: "res = classify (w_ctxErr w) (w_parentErr w) x r0"
    using assms(1) a by (auto simp: execute_def Let_def case_prod_unfold)
  have sigs: "sigs = (if act_Func a = None then fst (snd (runExternal (e_cfg e) cmd a (w_run w))) else [])"
    using assms(1) a by (auto simp: execute_def Let_def case_prod_unfold split: option.splits)
  have 1: "(sigs = [] \<or> sigs = [SIGTERM] \<or> sigs = [SIGTERM, SIGKILL]) \<and> (sigs \<noteq> [] \<longrightarrow> w_ctxErr w \<noteq> None)"
    using sigs assms(2) by (auto simp: runExternal_signals split: ext_run.splits if_splits)
  have st: "r_Status res = (if w_ctxErr w = Some DeadlineExceeded then ''TIMEOUT_KILLED''
      else if w_ctxErr w = Some Canceled \<and> \<not> w_parentErr w then ''CANCELLED''
      else if x = None then ''SUCCEEDED'' else ''FAILED'')"
    unfolding res by (auto simp: classify_def split: option.splits exec_error.splits)
  have code: "r_ExitCode res = 0" if "r_Status res = ''SUCCEEDED''"
    using that unfolding res by (auto simp: classify_def split: option.splits exec_error.splits if_splits)
  have "w_ctxErr w = None \<or> w_ctxErr w = Some Canceled \<or> w_ctxErr w = Some DeadlineExceeded"
    by (cases "w_ctxErr w") (use ctx_err.exhaust in auto)
  with 1 st code show ?thesis by (auto split: if_splits)
qed

definition sample_hooks :: Hooks where
  "sample_hooks = \<lparr>AgentStatus = (\<lambda>_. (''ok'', None)), InventoryRefresh = (\<lambda>_. (''ok'', None)),
     AllowTestActions = True\<rparr>"

definition sample_cmd :: "string \<Rightarrow> Command" where
  "sample_cmd i = \<lparr>c_CmdID = i, c_Action = ''diagnose.disk_usage'', c_Params = [], c_TimeoutSec = 5\<rparr>"

definition sample_world :: "ext_run \<Rightarrow> ctx_err option \<Rightarrow> exec_world" where
  "sample_world r c = \<lparr>w_startedAt = 1, w_durationMs = 2, w_finishedAt = 3, w_run = r, w_ctxErr = c,
     w_parentErr = False\<rparr>"

theorem signals_and_status_agree_witness:
  "\<exists>res. execute (NewEngine sample_conf (None :: unit option) sample_hooks) (sample_cmd ''a'')
      (sample_world (KillExit DeadlineExceeded [''out''] []) (Some DeadlineExceeded)) =
      Some ([SIGTERM, SIGKILL], res) \<and> r_Status res = ''TIMEOUT_KILLED''"
proof -
  let ?w = "sample_world (KillExit DeadlineExceeded [''out''] []) (Some DeadlineExceeded)"
  obtain res where x: "execute (NewEngine sample_conf (None :: unit option) sample_hooks) (sample_cmd ''a'') ?w
      = Some ([SIGTERM, SIGKILL], res)"
    by (auto simp: execute_def NewEngine_def sample_hooks_def sample_cmd_def sample_world_def catalog_def
        runExternal_def ext_action_def Let_def case_prod_unfold)
  have "world_consistent ?w" by (simp add: sample_world_def)
  from signals_and_status_agree [OF x this] x show ?thesis by (auto simp: sample_world_def)
qed

end
