(* ===== verification/Engine_Run.thy ===== *)
theory Engine_Run
  imports Engine
begin

text \<open>
  The executor as a state machine: submissions from the control stream and from the
  long-poll channel, cancellations and the worker loop as one step relation, the invariant
  of every reachable state, and what follows from it: no command is lost or reported twice,
  the queue and the worker pool stay bounded, and no worker ever dereferences a missing
  action.
\<close>

section \<open>Steps\<close>

record 'pub exec_state =
  s_engine :: "'pub Engine"
  s_submitted :: "string list"
  s_reported :: "Result list"

inductive engine_step ::
  "('pub \<Rightarrow> bytes \<Rightarrow> bytes \<Rightarrow> bool) \<Rightarrow> 'pub exec_state \<Rightarrow> 'pub exec_state \<Rightarrow> bool"
  for verify where
  step_envelope:
    "SubmitEnvelope verify now fin (s_engine s) env = (rs, e') \<Longrightarrow>
     engine_step verify s \<lparr>s_engine = e', s_submitted = env_CmdId env # s_submitted s,
       s_reported = rs @ s_reported s\<rparr>"
| step_poll:
    "poll_commands now (poll_cancels (s_engine s) cancels) cmds = (rs, e') \<Longrightarrow>
     engine_step verify s \<lparr>s_engine = e', s_submitted = map c_CmdID cmds @ s_submitted s,
       s_reported = rs @ s_reported s\<rparr>"
| step_cancel:
    "engine_step verify s (s\<lparr>s_engine := Cancel (s_engine s) i\<rparr>)"
| step_take:
    "worker_take (s_engine s) = Some e' \<Longrightarrow> engine_step verify s (s\<lparr>s_engine := e'\<rparr>)"
| step_finish:
    "worker_finish (s_engine s) h w = Some (res, e') \<Longrightarrow>
     engine_step verify s (s\<lparr>s_engine := e', s_reported := res # s_reported s\<rparr>)"

definition engine_boot :: "ExecutorConf \<Rightarrow> 'pub option \<Rightarrow> Hooks \<Rightarrow> Action list \<Rightarrow> 'pub exec_state" where
  "engine_boot cfg key h acts =
     \<lparr>s_engine = engine_Start (AddActions (NewEngine cfg key h) acts), s_submitted = [], s_reported = []\<rparr>"

inductive engine_reach ::
  "('pub \<Rightarrow> bytes \<Rightarrow> bytes \<Rightarrow> bool) \<Rightarrow> 'pub exec_state \<Rightarrow> 'pub exec_state \<Rightarrow> bool"
  for verify s0 where
  reach_boot: "engine_reach verify s0 s0"
| reach_step: "engine_reach verify s0 s \<Longrightarrow> engine_step verify s s' \<Longrightarrow> engine_reach verify s0 s'"

section \<open>The invariant\<close>

definition pool_size :: "ExecutorConf \<Rightarrow> nat" where
  "pool_size cfg = (if x_Workers cfg \<le> 0 then 4 else nat (x_Workers cfg))"

definition engine_ok :: "'pub Engine \<Rightarrow> bool" where
  "engine_ok e \<longleftrightarrow>
     (\<forall>cmd \<in> set (e_queue e) \<union> snd ` set (e_active e). validate e cmd = None) \<and>
     length (e_queue e) \<le> x_QueueSize (e_cfg e) + e_idle e \<and>
     e_idle e + length (e_active e) = pool_size (e_cfg e) \<and>
     distinct (map fst (e_active e)) \<and> (\<forall>h \<in> fst ` set (e_active e). h < e_next e)"

text \<open>The ids of the commands the engine holds.\<close>

definition held_ids :: "'pub Engine \<Rightarrow> string multiset" where
  "held_ids e = mset (map c_CmdID (e_queue e)) + mset (map (c_CmdID \<circ> snd) (e_active e))"

definition conserved :: "'pub exec_state \<Rightarrow> bool" where
  "conserved s \<longleftrightarrow>
     mset (s_submitted s) = mset (map r_CmdID (s_reported s)) + held_ids (s_engine s)"

lemma validate_cong: "e_catalog e = e_catalog e' \<Longrightarrow> validate e = validate e'"
  by (simp add: fun_eq_iff validate_def)

lemma Submit_cases:
  obtains (queued) "validate e cmd = None" "queue_accepts e" "r_Status (fst (Submit now e cmd)) = ''QUEUED''"
      "snd (Submit now e cmd) = e\<lparr>e_queue := e_queue e @ [cmd]\<rparr>"
  | (refused) "r_Status (fst (Submit now e cmd)) \<noteq> ''QUEUED''" "snd (Submit now e cmd) = e"
proof (cases "validate e cmd = None \<and> queue_accepts e")
  case True
  then show ?thesis by (intro queued) (auto simp: Submit_def)
next
  case False
  then show ?thesis by (intro refused) (auto simp: Submit_def split: option.splits)
qed

lemma Submit_id [simp]: "r_CmdID (fst (Submit now e cmd)) = c_CmdID cmd"
  by (auto simp: Submit_def split: option.splits)

lemma Submit_ok:
  assumes "engine_ok e"
  shows "engine_ok (snd (Submit now e cmd))"
proof (cases rule: Submit_cases [of e cmd now])
  case queued
  have "validate (e\<lparr>e_queue := e_queue e @ [cmd]\<rparr>) = validate e" by (rule validate_cong) simp
  with queued assms show ?thesis by (auto simp: engine_ok_def queue_accepts_def)
next
  case refused
  with assms show ?thesis by simp
qed

lemma Submit_conserves:
  "add_mset (c_CmdID cmd) (held_ids e) =
     mset (map r_CmdID (if r_Status (fst (Submit now e cmd)) = ''QUEUED'' then [] else [fst (Submit now e cmd)]))
     + held_ids (snd (Submit now e cmd))"
  by (cases rule: Submit_cases [of e cmd now]) (auto simp: held_ids_def)

lemma held_ids_nonces [simp]: "held_ids (e\<lparr>e_nonces := c\<rparr>) = held_ids e"
  by (simp add: held_ids_def)

lemma engine_ok_nonces [simp]: "engine_ok (e\<lparr>e_nonces := c\<rparr>) = engine_ok e"
  using validate_cong [of "e\<lparr>e_nonces := c\<rparr>" e] by (simp add: engine_ok_def)

lemma reject_id [simp]: "r_CmdID (reject env fin r) = env_CmdId env"
  by (simp add: reject_def)

lemma command_of_id [simp]: "c_CmdID (command_of env) = env_CmdId env"
  by (simp add: command_of_def)

lemma submit_checked_ok: "engine_ok e \<Longrightarrow> engine_ok (snd (submit_checked now fin e env))"
  using Submit_ok [of e fin "command_of env"] by (auto simp: submit_checked_def case_prod_unfold Let_def)

lemma submit_checked_conserves:
  "add_mset (env_CmdId env) (held_ids e) =
     mset (map r_CmdID (fst (submit_checked now fin e env))) + held_ids (snd (submit_checked now fin e env))"
  using Submit_conserves [of "command_of env" e fin]
  by (auto simp: submit_checked_def case_prod_unfold Let_def)

lemma SubmitEnvelope_ok:
  "engine_ok e \<Longrightarrow> engine_ok (snd (SubmitEnvelope verify now fin e env))"
  using submit_checked_ok [of e now fin env] submit_checked_ok [of "e\<lparr>e_nonces := c\<rparr>" now fin env for c]
  by (auto simp: SubmitEnvelope_def split: option.splits prod.splits)

lemma SubmitEnvelope_conserves:
  "add_mset (env_CmdId env) (held_ids e) =
     mset (map r_CmdID (fst (SubmitEnvelope verify now fin e env)))
     + held_ids (snd (SubmitEnvelope verify now fin e env))"
  using submit_checked_conserves [of env e now fin]
    submit_checked_conserves [of env "e\<lparr>e_nonces := c\<rparr>" now fin for c]
  by (auto simp: SubmitEnvelope_def split: option.splits prod.splits)

lemma Cancel_ok [simp]: "engine_ok (Cancel e i) = engine_ok e"
  using validate_cong [of "Cancel e i" e] by (auto simp: engine_ok_def Cancel_def split: option.splits)

lemma Cancel_held [simp]: "held_ids (Cancel e i) = held_ids e"
  by (auto simp: held_ids_def Cancel_def split: option.splits)

lemma poll_cancels_ok [simp]: "engine_ok (poll_cancels e is) = engine_ok e"
  by (induction e "is" rule: poll_cancels.induct) auto

lemma poll_cancels_held [simp]: "held_ids (poll_cancels e is) = held_ids e"
  by (induction e "is" rule: poll_cancels.induct) auto

lemma poll_commands_ok: "engine_ok e \<Longrightarrow> engine_ok (snd (poll_commands now e cmds))"
  by (induction cmds arbitrary: e) (auto simp: case_prod_unfold Let_def Submit_ok)

lemma poll_commands_conserves:
  "mset (map c_CmdID cmds) + held_ids e =
     mset (map r_CmdID (fst (poll_commands now e cmds))) + held_ids (snd (poll_commands now e cmds))"
proof (induction cmds arbitrary: e)
  case (Cons cmd cmds)
  let ?e = "snd (Submit now e cmd)"
  have "mset (map c_CmdID (cmd # cmds)) + held_ids e
      = mset (map c_CmdID cmds) + add_mset (c_CmdID cmd) (held_ids e)" by simp
  also have "\<dots> = mset (map r_CmdID (if r_Status (fst (Submit now e cmd)) = ''QUEUED'' then [] else [fst (Submit now e cmd)]))
        + (mset (map c_CmdID cmds) + held_ids ?e)"
    unfolding Submit_conserves [of cmd e now] by (simp only: ac_simps)
  finally show ?case unfolding Cons.IH [of ?e] by (auto simp: case_prod_unfold Let_def)
qed simp

lemma worker_take_ok:
  assumes "engine_ok e" "worker_take e = Some e'"
  shows "engine_ok e' \<and> held_ids e' = held_ids e"
proof -
  obtain cmd q where q: "e_queue e = cmd # q" "e_idle e \<noteq> 0"
    and e': "e' = e\<lparr>e_queue := q, e_idle := e_idle e - 1, e_running := (e_running e)(c_CmdID cmd \<mapsto> e_next e),
       e_active := (e_next e, cmd) # e_active e, e_next := Suc (e_next e)\<rparr>"
    using assms(2) by (auto simp: worker_take_def split: list.splits if_splits)
  have "validate e' = validate e" by (rule validate_cong) (simp add: e')
  moreover have "held_ids e' = held_ids e" using q by (simp add: e' held_ids_def)
  ultimately show ?thesis using assms(1) q by (auto simp: engine_ok_def e' less_Suc_eq)
qed

lemma map_of_mset_delete:
  "distinct (map fst xs) \<Longrightarrow> map_of xs h = Some v \<Longrightarrow> mset xs = add_mset (h, v) (mset (AList.delete h xs))"
proof (induction xs)
  case (Cons x xs)
  show ?case
  proof (cases "fst x = h")
    case True
    with Cons.prems have "h \<notin> fst ` set xs" by auto
    then have "AList.delete h xs = xs" by (induction xs) auto
    with True have "AList.delete h (x # xs) = xs" by (cases x) simp
    with True Cons.prems show ?thesis by (cases x) simp
  next
    case False
    with Cons show ?thesis by (cases x) (auto simp: AList.delete_eq)
  qed
qed simp

lemma worker_finish_ok:
  assumes "engine_ok e" "worker_finish e h w = Some (res, e')"
  shows "engine_ok e' \<and> held_ids e = add_mset (r_CmdID res) (held_ids e')"
proof -
  obtain cmd sigs where m: "map_of (e_active e) h = Some cmd" and x: "execute e cmd w = Some (sigs, res)"
    and e': "e' = e\<lparr>e_active := AList.delete h (e_active e), e_idle := Suc (e_idle e),
       e_running := (e_running e)(c_CmdID cmd := None)\<rparr>"
    using assms(2) by (auto simp: worker_finish_def split: option.splits)
  have d: "distinct (map fst (e_active e))" using assms(1) by (simp add: engine_ok_def)
  note ms = map_of_mset_delete [OF d m]
  obtain a where "e_catalog e (c_Action cmd) = Some a"
    using x by (auto simp: execute_def split: option.splits)
  from execute_catalogued [where w = w, OF this] x have id: "r_CmdID res = c_CmdID cmd" by auto
  from ms have "image_mset (c_CmdID \<circ> snd) (mset (e_active e)) =
      add_mset (c_CmdID cmd) (image_mset (c_CmdID \<circ> snd) (mset (AList.delete h (e_active e))))" by simp
  then have held: "held_ids e = add_mset (r_CmdID res) (held_ids e')"
    by (simp add: held_ids_def e' id)
  have len: "length (e_active e) = Suc (length (AList.delete h (e_active e)))"
    using arg_cong [OF ms, of size] by simp
  have sub: "set (AList.delete h (e_active e)) \<subseteq> set (e_active e)"
    using ms by (metis insert_iff set_mset_add_mset_insert set_mset_mset subsetI)
  have "validate e' = validate e" by (rule validate_cong) (simp add: e')
  with assms(1) len sub d have "engine_ok e'"
    by (auto simp: engine_ok_def e' distinct_delete)
  with held show ?thesis by simp
qed

lemma engine_step_inv:
  assumes "engine_step verify s s'" "engine_ok (s_engine s)" "conserved s"
  shows "engine_ok (s_engine s') \<and> conserved s'"
  using assms
proof (induction rule: engine_step.cases)
  case (step_envelope now fin s env rs e')
  with SubmitEnvelope_ok [of "s_engine s" verify now fin env]
    SubmitEnvelope_conserves [of env "s_engine s" verify now fin]
  show ?case by (auto simp: conserved_def)
next
  case (step_poll now s cancels cmds rs e')
  with poll_commands_ok [of "poll_cancels (s_engine s) cancels" now cmds]
    poll_commands_conserves [of cmds "poll_cancels (s_engine s) cancels" now]
  show ?case by (auto simp: conserved_def)
next
  case (step_cancel s i)
  then show ?case by (auto simp: conserved_def)
next
  case (step_take s e')
  then show ?case using worker_take_ok [of "s_engine s" e'] by (auto simp: conserved_def)
next
  case (step_finish s h w res e')
  then show ?case using worker_finish_ok [of "s_engine s" h w res e'] by (auto simp: conserved_def)
qed

section \<open>Authentication and replay\<close>

lemma submit_checked_queue:
  assumes "e_queue (snd (submit_checked now fin e env)) \<noteq> e_queue e"
  shows "fst (submit_checked now fin e env) = [] \<and>
    e_queue (snd (submit_checked now fin e env)) = e_queue e @ [command_of env] \<and>
    validate e (command_of env) = None \<and>
    (sint (env_ExpiresAt env) \<le> 0 \<or> now \<le> sint (env_ExpiresAt env))"
  using assms
  by (cases rule: Submit_cases [of e "command_of env" fin])
    (auto simp: submit_checked_def case_prod_unfold Let_def split: if_splits)

lemma submit_checked_expired:
  "0 < sint (env_ExpiresAt env) \<Longrightarrow> sint (env_ExpiresAt env) < now \<Longrightarrow>
   submit_checked now fin e env = ([reject env fin EnvelopeExpired], e)"
  by (simp add: submit_checked_def)

lemma submit_checked_keeps:
  "e_nonces (snd (submit_checked now fin e env)) = e_nonces e"
  "e_verifyKey (snd (submit_checked now fin e env)) = e_verifyKey e"
  by (cases rule: Submit_cases [of e "command_of env" fin];
      auto simp: submit_checked_def case_prod_unfold Let_def)+

lemma SubmitEnvelope_signed:
  assumes "e_verifyKey e = Some key" "e_queue (snd (SubmitEnvelope verify now fin e env)) \<noteq> e_queue e"
  shows "Verify verify key env = None \<and> env_Nonce env \<noteq> [] \<and>
    fst (nonce_Check (e_nonces e) (env_Nonce env) (sint (env_ExpiresAt env)) now) = None \<and>
    SubmitEnvelope verify now fin e env = submit_checked now fin
      (e\<lparr>e_nonces := snd (nonce_Check (e_nonces e) (env_Nonce env) (sint (env_ExpiresAt env)) now)\<rparr>) env"
  using assms by (auto simp: SubmitEnvelope_def split: option.splits prod.splits if_splits)


definition signed_envelope :: CommandEnvelope where
  "signed_envelope = \<lparr>env_CmdId = ''c1'', env_Action = ''diagnose.disk_usage'', env_Params = [],
     env_TimeoutSec = 30, env_IssuedAt = 100, env_ExpiresAt = 200, env_Nonce = [1], env_Signature = replicate 64 7\<rparr>"

definition sample_verify :: "unit \<Rightarrow> bytes \<Rightarrow> bytes \<Rightarrow> bool" where
  "sample_verify k m s \<longleftrightarrow> m = CanonicalBytes signed_envelope"

definition sample_engine :: "unit Engine" where
  "sample_engine = engine_Start (NewEngine sample_conf (Some ()) sample_hooks)"

lemma sample_engine_key: "e_verifyKey sample_engine = Some ()"
  by (simp add: sample_engine_def NewEngine_def engine_Start_def Let_def)

lemma sample_envelope_wf: "wf_envelope signed_envelope"
  by (simp add: wf_envelope_def signed_envelope_def wf_map_def)

lemma sample_verified: "Verify sample_verify () signed_envelope = None"
  by (simp add: Verify_def sample_verify_def signed_envelope_def SignatureSize_def)

lemma sample_valid: "validate sample_engine (command_of signed_envelope) = None"
  by (simp add: validate_def sample_engine_def NewEngine_def engine_Start_def Let_def command_of_def
      signed_envelope_def catalog_def sample_hooks_def ext_action_def)

lemma sample_submitted:
  "\<exists>c. SubmitEnvelope sample_verify 150 151 sample_engine signed_envelope =
     ([], sample_engine\<lparr>e_nonces := c, e_queue := [command_of signed_envelope]\<rparr>)"
proof -
  have "nonce_Check (e_nonces sample_engine) [1] 200 150 = (None, c) \<Longrightarrow>
      validate (sample_engine\<lparr>e_nonces := c\<rparr>) (command_of signed_envelope) = None" for c
    using sample_valid validate_cong [of "sample_engine\<lparr>e_nonces := c\<rparr>" sample_engine] by simp
  moreover have "env_Nonce signed_envelope = [1]" "sint (env_ExpiresAt signed_envelope) = 200"
    by (simp_all add: signed_envelope_def)
  moreover have "fst (nonce_Check (e_nonces sample_engine) [1] 200 150) = None"
    by (simp add: nonce_Check_def sample_engine_def NewEngine_def engine_Start_def Let_def NewNonceCache_def)
  moreover have "e_queue sample_engine = []" "x_QueueSize (e_cfg sample_engine) = 1"
    by (simp_all add: sample_engine_def NewEngine_def engine_Start_def Let_def sample_conf_def)
  ultimately show ?thesis
    by (auto simp: SubmitEnvelope_def sample_engine_key sample_verified submit_checked_def Submit_def
        queue_accepts_def split: prod.splits)
qed


text \<open>A run of submissions, each with the two clock readings it makes.\<close>

definition submit_all ::
  "('pub \<Rightarrow> bytes \<Rightarrow> bytes \<Rightarrow> bool) \<Rightarrow> 'pub Engine \<Rightarrow> (int \<times> int \<times> CommandEnvelope) list \<Rightarrow> 'pub Engine" where
  "submit_all verify e subs = foldl (\<lambda>e (now, fin, env). snd (SubmitEnvelope verify now fin e env)) e subs"

lemma SubmitEnvelope_keeps_key [simp]:
  "e_verifyKey (snd (SubmitEnvelope verify now fin e env)) = e_verifyKey e"
  by (auto simp: SubmitEnvelope_def submit_checked_keeps split: option.splits prod.splits)

lemma submit_all_key [simp]: "e_verifyKey (submit_all verify e subs) = e_verifyKey e"
  unfolding submit_all_def by (induction subs arbitrary: e) auto

lemma SubmitEnvelope_nonces:
  "\<exists>qs. e_nonces (snd (SubmitEnvelope verify now fin e env)) = nonces.run_checks (e_nonces e) qs \<and>
     snd ` snd ` set qs \<subseteq> {now}"
proof -
  have "e_nonces (snd (SubmitEnvelope verify now fin e env)) = e_nonces e \<or>
    e_nonces (snd (SubmitEnvelope verify now fin e env))
      = snd (nonce_Check (e_nonces e) (env_Nonce env) (sint (env_ExpiresAt env)) now)"
    by (auto simp: SubmitEnvelope_def submit_checked_keeps split: option.splits prod.splits)
  then show ?thesis
  proof
    assume "e_nonces (snd (SubmitEnvelope verify now fin e env)) = e_nonces e"
    then show ?thesis by (intro exI [of _ "[]"]) simp
  next
    assume "e_nonces (snd (SubmitEnvelope verify now fin e env))
      = snd (nonce_Check (e_nonces e) (env_Nonce env) (sint (env_ExpiresAt env)) now)"
    then show ?thesis by (intro exI [of _ "[(env_Nonce env, sint (env_ExpiresAt env), now)]"]) simp
  qed
qed

lemma run_checks_append: "nonces.run_checks c (ps @ qs) = nonces.run_checks (nonces.run_checks c ps) qs"
  by (induction ps arbitrary: c) auto

lemma submit_all_nonces:
  "\<exists>qs. e_nonces (submit_all verify e subs) = nonces.run_checks (e_nonces e) qs \<and>
     snd ` snd ` set qs \<subseteq> fst ` set subs"
proof (induction subs arbitrary: e)
  case Nil
  then show ?case by (intro exI [of _ "[]"]) (simp add: submit_all_def)
next
  case (Cons x subs)
  obtain now fin env where x: "x = (now, fin, env)" by (cases x)
  let ?e = "snd (SubmitEnvelope verify now fin e env)"
  obtain ps where "e_nonces ?e = nonces.run_checks (e_nonces e) ps" "snd ` snd ` set ps \<subseteq> {now}"
    using SubmitEnvelope_nonces by blast
  moreover obtain qs where "e_nonces (submit_all verify ?e subs) = nonces.run_checks (e_nonces ?e) qs"
    "snd ` snd ` set qs \<subseteq> fst ` set subs"
    using Cons by blast
  moreover from calculation have "snd ` snd ` set (ps @ qs) \<subseteq> fst ` set (x # subs)"
    by (simp add: x image_Un) blast
  ultimately show ?case
    by (intro exI [of _ "ps @ qs"]) (simp add: x submit_all_def run_checks_append)
qed

definition refused :: "Result list \<times> 'pub Engine \<Rightarrow> 'pub Engine \<Rightarrow> bool" where
  "refused out e \<longleftrightarrow> map r_Status (fst out) = [''REJECTED_POLICY''] \<and>
     e_queue (snd out) = e_queue e \<and> e_active (snd out) = e_active e"

lemma refused_reject: "refused ([reject env fin r], e\<lparr>e_nonces := c\<rparr>) e"
  by (simp add: refused_def reject_def)

lemma SubmitEnvelope_nonce_refused:
  assumes "e_verifyKey e = Some key" "Verify verify key env = None" "env_Nonce env \<noteq> []"
    and "fst (nonce_Check (e_nonces e) (env_Nonce env) (sint (env_ExpiresAt env)) now) \<noteq> None \<or>
         0 < sint (env_ExpiresAt env) \<and> sint (env_ExpiresAt env) < now"
  shows "refused (SubmitEnvelope verify now fin e env) e"
  using assms refused_reject [where e = e]
  by (auto simp: SubmitEnvelope_def submit_checked_expired split: prod.splits option.splits)

text \<open>
  C4: replay protection. Once a signed envelope with a positive expiry passed the
  nonce check, submitting it again at any later time other than the expiry instant itself is
  refused with \<^verbatim>\<open>REJECTED_POLICY\<close> and leaves the queue as it is, whatever envelopes were
  submitted in between.
\<close>

theorem replayed_envelope_rejected:
  assumes inv: "nonce_inv (e_nonces e)" and key: "e_verifyKey e = Some key"
    and v: "Verify verify key env = None" "env_Nonce env \<noteq> []" and pos: "0 < sint (env_ExpiresAt env)"
    and first: "fst (nonce_Check (e_nonces e) (env_Nonce env) (sint (env_ExpiresAt env)) t1) = None"
    and between: "\<forall>(now, fin, env') \<in> set subs. now \<le> t2"
    and t2: "t2 \<noteq> sint (env_ExpiresAt env)"
  shows "let e2 = submit_all verify (snd (SubmitEnvelope verify t1 f1 e env)) subs
    in refused (SubmitEnvelope verify t2 f2 e2 env) e2"
proof -
  let ?x = "sint (env_ExpiresAt env)"
  let ?e1 = "snd (SubmitEnvelope verify t1 f1 e env)"
  let ?e2 = "submit_all verify ?e1 subs"
  have n1: "nonce_Check (e_nonces e) (env_Nonce env) ?x t1 = (None, e_nonces ?e1)"
    using first key v by (auto simp: SubmitEnvelope_def submit_checked_keeps split: prod.splits)
  have "fst (nonce_Check (e_nonces ?e2) (env_Nonce env) ?x t2) \<noteq> None \<or> 0 < ?x \<and> ?x < t2"
  proof (cases "t2 < ?x")
    case True
    obtain qs where qs: "e_nonces ?e2 = nonces.run_checks (e_nonces ?e1) qs" "snd ` snd ` set qs \<subseteq> fst ` set subs"
      using submit_all_nonces by blast
    have "\<forall>q \<in> set qs. snd (snd q) < ?x" using qs(2) between True by fastforce
    from nonces.replay_refused [OF inv n1 this True] show ?thesis by (simp add: qs(1))
  qed (use t2 pos in auto)
  then have "refused (SubmitEnvelope verify t2 f2 ?e2 env) ?e2"
    using key v by (intro SubmitEnvelope_nonce_refused [of _ key]) auto
  then show ?thesis by (simp add: Let_def)
qed

theorem replayed_envelope_rejected_witness:
  "let e2 = submit_all sample_verify (snd (SubmitEnvelope sample_verify 150 151 sample_engine signed_envelope)) []
   in refused (SubmitEnvelope sample_verify 160 161 e2 signed_envelope) e2"
proof (rule replayed_envelope_rejected [OF _ sample_engine_key sample_verified])
  show "nonce_inv (e_nonces sample_engine)"
    by (simp add: sample_engine_def NewEngine_def engine_Start_def Let_def nonce_inv_new)
  show "fst (nonce_Check (e_nonces sample_engine) (env_Nonce signed_envelope)
      (sint (env_ExpiresAt signed_envelope)) 150) = None"
    by (simp add: nonce_Check_def sample_engine_def NewEngine_def engine_Start_def Let_def NewNonceCache_def)
qed (simp_all add: signed_envelope_def)

text \<open>
  The excluded instant is a gap. At \<^verbatim>\<open>now == ExpiresAt\<close> the envelope does not
  count as expired, but a cache that is at its capacity has just purged the nonce
  (\<^verbatim>\<open>> now\<close>), so the recorded envelope is queued a second time.
\<close>

theorem replay_accepted_at_expiry:
  assumes "nonce_inv (e_nonces e)" "e_verifyKey e = Some key"
    and "Verify verify key env = None" "env_Nonce env \<noteq> []"
    and "nonce_recorded (e_nonces e) (env_Nonce env) = Some (sint (env_ExpiresAt env))"
    and "nc_cap (e_nonces e) \<le> int (length (nc_items (e_nonces e)))"
    and "validate e (command_of env) = None" "queue_accepts e"
  shows "e_queue (snd (SubmitEnvelope verify (sint (env_ExpiresAt env)) fin e env)) = e_queue e @ [command_of env]"
proof -
  let ?x = "sint (env_ExpiresAt env)"
  have "nc_order (e_nonces e) \<noteq> []"
    using assms(1,5) by (auto simp: nonce_inv_def nonce_recorded_def)
  then have "nonce_recorded (nonce_purged (e_nonces e) ?x) (env_Nonce env) = None"
    using assms(1,5,6) by (simp add: nonce_purged_recorded)
  then obtain c where c: "nonce_Check (e_nonces e) (env_Nonce env) ?x ?x = (None, c)"
    by (simp add: nonce_Check_alt)
  have "validate (e\<lparr>e_nonces := c\<rparr>) = validate e" by (rule validate_cong) simp
  with assms c show ?thesis
    by (simp add: SubmitEnvelope_def submit_checked_def Submit_def queue_accepts_def)
qed

theorem replay_accepted_at_expiry_witness:
  "\<exists>e. nc_order (e_nonces e) \<noteq> [] \<and>
     e_queue (snd (SubmitEnvelope sample_verify (sint (env_ExpiresAt signed_envelope)) 201 e signed_envelope))
       = [command_of signed_envelope]"
proof -
  let ?e = "sample_engine\<lparr>e_nonces := \<lparr>nc_cap = 1, nc_items = [(hex_encode [1], 200)], nc_order = [hex_encode [1]]\<rparr>\<rparr>"
  have "nonce_inv (e_nonces ?e)" by (simp add: nonce_inv_def wf_map_def)
  moreover have "e_verifyKey ?e = Some ()" by (simp add: sample_engine_key)
  moreover note sample_verified
  moreover have "env_Nonce signed_envelope \<noteq> []" by (simp add: signed_envelope_def)
  moreover have "nonce_recorded (e_nonces ?e) (env_Nonce signed_envelope) = Some (sint (env_ExpiresAt signed_envelope))"
    by (simp add: nonce_recorded_def signed_envelope_def)
  moreover have "nc_cap (e_nonces ?e) \<le> int (length (nc_items (e_nonces ?e)))" by simp
  moreover have "validate ?e (command_of signed_envelope) = None"
    using sample_valid validate_cong [of ?e sample_engine] by simp
  moreover have "queue_accepts ?e"
    by (simp add: queue_accepts_def sample_engine_def NewEngine_def engine_Start_def Let_def sample_conf_def)
  ultimately have "e_queue (snd (SubmitEnvelope sample_verify (sint (env_ExpiresAt signed_envelope)) 201 ?e signed_envelope))
      = e_queue ?e @ [command_of signed_envelope]"
    by (rule replay_accepted_at_expiry)
  moreover have "e_queue ?e = []"
    by (simp add: sample_engine_def NewEngine_def engine_Start_def Let_def)
  ultimately show ?thesis by (intro exI [of _ ?e]) simp
qed

section \<open>The worker pool\<close>

inductive_simps engine_step_simps: "engine_step verify s s'"

lemma AddActions_shape:
  "\<exists>c. AddActions e acts = e\<lparr>e_catalog := c\<rparr>"
proof (induction e acts rule: AddActions.induct)
  case (1 e)
  then show ?case by (intro exI [of _ "e_catalog e"]) simp
next
  case (2 e a acts)
  then show ?case by auto
qed

lemma engine_boot_ok: "engine_ok (s_engine (engine_boot cfg key h acts)) \<and> conserved (engine_boot cfg key h acts)"
  using AddActions_shape [of "NewEngine cfg key h" acts]
  by (auto simp: engine_boot_def engine_ok_def conserved_def held_ids_def engine_Start_def NewEngine_def
      pool_size_def Let_def)

lemma engine_reach_inv:
  "engine_reach verify s0 s \<Longrightarrow> engine_ok (s_engine s0) \<Longrightarrow> conserved s0 \<Longrightarrow>
   engine_ok (s_engine s) \<and> conserved s"
  by (induction rule: engine_reach.induct) (use engine_step_inv in auto)

lemmas booted_inv = engine_reach_inv [OF _ conjunct1 [OF engine_boot_ok] conjunct2 [OF engine_boot_ok]]

lemma validated_catalogued:
  "validate e cmd = None \<Longrightarrow> \<exists>a. e_catalog e (c_Action cmd) = Some a"
  by (auto simp: validate_def split: option.splits)

lemma worker_finish_total:
  assumes "engine_ok e" "(h, cmd) \<in> set (e_active e)"
  shows "\<exists>res e'. worker_finish e h w = Some (res, e') \<and> r_CmdID res = c_CmdID cmd \<and>
    r_Status res \<in> final_statuses \<and> length (e_active e') < length (e_active e) \<and> e_queue e' = e_queue e"
proof -
  have m: "map_of (e_active e) h = Some cmd" using assms by (simp add: engine_ok_def)
  have "validate e cmd = None" using assms by (force simp: engine_ok_def)
  then obtain a where "e_catalog e (c_Action cmd) = Some a" using validated_catalogued by blast
  from execute_catalogued [OF this] obtain sigs res
    where x: "execute e cmd w = Some (sigs, res)" "r_CmdID res = c_CmdID cmd" "r_Status res \<in> final_statuses"
    by blast
  have "size (mset (e_active e)) = Suc (size (mset (AList.delete h (e_active e))))"
    using map_of_mset_delete [OF _ m] assms(1) by (simp add: engine_ok_def)
  with m x show ?thesis by (simp add: worker_finish_def)
qed

text \<open>
  C11: in every state the executor can reach, the ids of all commands submitted so far
  are exactly, with multiplicity, those of the results handed to the reporter plus those of
  the commands queued or being executed: no command is dropped and none is reported twice.
\<close>

theorem no_command_lost_or_duplicated:
  assumes "engine_reach verify (engine_boot cfg key h acts) s"
  shows "mset (s_submitted s) = mset (map r_CmdID (s_reported s)) +
    mset (map c_CmdID (e_queue (s_engine s))) + mset (map (c_CmdID \<circ> snd) (e_active (s_engine s)))"
  using booted_inv [OF assms] by (simp add: conserved_def held_ids_def)

definition sample_boot :: "unit exec_state" where
  "sample_boot = engine_boot sample_conf (Some ()) sample_hooks []"

lemma sample_boot_engine: "s_engine sample_boot = sample_engine"
  by (simp add: sample_boot_def engine_boot_def sample_engine_def)

lemma sample_queued:
  "\<exists>c. engine_reach sample_verify sample_boot \<lparr>s_engine = sample_engine\<lparr>e_nonces := c,
     e_queue := [command_of signed_envelope]\<rparr>, s_submitted = [''c1''], s_reported = []\<rparr>"
proof -
  obtain c where "SubmitEnvelope sample_verify 150 151 (s_engine sample_boot) signed_envelope =
     ([], sample_engine\<lparr>e_nonces := c, e_queue := [command_of signed_envelope]\<rparr>)"
    using sample_submitted sample_boot_engine by auto
  from reach_step [OF reach_boot step_envelope [OF this]] show ?thesis
    by (auto simp: sample_boot_def engine_boot_def signed_envelope_def)
qed

theorem no_command_lost_or_duplicated_witness:
  "\<exists>s :: unit exec_state. s_submitted s = [''c1''] \<and> s_reported s = [] \<and>
     mset (map c_CmdID (e_queue (s_engine s))) + mset (map (c_CmdID \<circ> snd) (e_active (s_engine s))) = {#''c1''#}"
proof -
  obtain c where r: "engine_reach sample_verify (engine_boot sample_conf (Some ()) sample_hooks [])
      \<lparr>s_engine = sample_engine\<lparr>e_nonces := c, e_queue := [command_of signed_envelope]\<rparr>,
        s_submitted = [''c1''], s_reported = []\<rparr>" (is "engine_reach _ _ ?s")
    using sample_queued by (auto simp: sample_boot_def)
  from no_command_lost_or_duplicated [OF r] show ?thesis by - (rule exI [of _ ?s], simp)
qed

text \<open>
  C33: in every reachable state at most the configured number of executions is under way,
  the buffered queue is within its capacity, and an execution that is under way can always
  finish: its action is in the catalogue (no nil dereference) and it reports exactly one of
  the four final statuses under its own command id.
\<close>

theorem workers_never_panic:
  assumes "engine_reach verify (engine_boot cfg key h acts) s"
  shows "length (e_active (s_engine s)) \<le> pool_size (e_cfg (s_engine s)) \<and>
    snd (engine_Stats (s_engine s)) \<le> x_QueueSize (e_cfg (s_engine s)) \<and>
    (\<forall>(n, cmd) \<in> set (e_active (s_engine s)). \<forall>w. \<exists>res e'.
       worker_finish (s_engine s) n w = Some (res, e') \<and> r_CmdID res = c_CmdID cmd \<and>
       r_Status res \<in> final_statuses)"
proof -
  have ok: "engine_ok (s_engine s)" using booted_inv [OF assms] by blast
  then have "length (e_active (s_engine s)) \<le> pool_size (e_cfg (s_engine s))"
    "snd (engine_Stats (s_engine s)) \<le> x_QueueSize (e_cfg (s_engine s))"
    by (auto simp: engine_ok_def engine_Stats_def)
  with worker_finish_total [OF ok] show ?thesis by (fast dest: worker_finish_total [OF ok])
qed

theorem workers_never_panic_witness:
  "\<exists>s :: unit exec_state. e_active (s_engine s) = [(0, command_of signed_envelope)] \<and>
     (\<exists>res e'. worker_finish (s_engine s) 0 (sample_world (DoneFirst [] [] None) None) = Some (res, e') \<and>
        r_CmdID res = ''c1'')"
proof -
  obtain c where r: "engine_reach sample_verify sample_boot
      \<lparr>s_engine = sample_engine\<lparr>e_nonces := c, e_queue := [command_of signed_envelope]\<rparr>,
        s_submitted = [''c1''], s_reported = []\<rparr>" (is "engine_reach _ _ ?s")
    using sample_queued by blast
  obtain e' where e': "worker_take (s_engine ?s) = Some e'" "e_active e' = [(0, command_of signed_envelope)]"
    by (simp add: worker_take_def sample_engine_def NewEngine_def engine_Start_def Let_def sample_conf_def)
  let ?t = "?s\<lparr>s_engine := e'\<rparr>"
  have "engine_reach sample_verify (engine_boot sample_conf (Some ()) sample_hooks []) ?t"
    using reach_step [OF r step_take [OF e'(1)]] by (simp add: sample_boot_def)
  from workers_never_panic [OF this] e'(2) show ?thesis
    by - (rule exI [of _ ?t], simp add: signed_envelope_def, blast)
qed

lemma drain_from:
  assumes "engine_ok (s_engine s)"
  shows "\<exists>s'. engine_reach verify s s' \<and> e_queue (s_engine s') = [] \<and> e_active (s_engine s') = [] \<and>
    s_submitted s' = s_submitted s"
  using assms
proof (induction "2 * length (e_queue (s_engine s)) + length (e_active (s_engine s))" arbitrary: s rule: less_induct)
  case less
  let ?e = "s_engine s"
  have go: "\<exists>s'. engine_reach verify s s' \<and> e_queue (s_engine s') = [] \<and> e_active (s_engine s') = [] \<and>
      s_submitted s' = s_submitted s"
    if st: "engine_step verify s t" and ok: "engine_ok (s_engine t)" and same: "s_submitted t = s_submitted s"
      and dec: "2 * length (e_queue (s_engine t)) + length (e_active (s_engine t))
        < 2 * length (e_queue ?e) + length (e_active ?e)" for t
  proof -
    from less(1) [OF dec ok] obtain s' where s': "engine_reach verify t s'" "e_queue (s_engine s') = []"
      "e_active (s_engine s') = []" "s_submitted s' = s_submitted t" by blast
    from s'(1) have "engine_reach verify s s'"
      by induction (auto intro: engine_reach.intros reach_step [OF reach_boot st])
    with s' same show ?thesis by auto
  qed
  consider (finished) "e_active ?e = []" "e_queue ?e = []" | (busy) h cmd where "(h, cmd) \<in> set (e_active ?e)"
    | (ready) cmd q where "e_active ?e = []" "e_queue ?e = cmd # q"
    by (cases "e_active ?e"; cases "e_queue ?e") force+
  then show ?case
  proof cases
    case finished
    then show ?thesis by (intro exI [of _ s]) (simp add: reach_boot)
  next
    case busy
    obtain res e' where f: "worker_finish ?e h undefined = Some (res, e')"
      "length (e_active e') < length (e_active ?e)" "e_queue e' = e_queue ?e"
      using worker_finish_total [OF less(2) busy] by blast
    show ?thesis
      using worker_finish_ok [OF less(2) f(1)] f by (intro go [OF step_finish [OF f(1)]]) auto
  next
    case ready
    then have "e_idle ?e \<noteq> 0" using less(2) by (auto simp: engine_ok_def pool_size_def split: if_splits)
    with ready obtain e' where e': "worker_take ?e = Some e'" "e_queue e' = q" "length (e_active e') = 1"
      by (simp add: worker_take_def)
    show ?thesis
      using worker_take_ok [OF less(2) e'(1)] e' ready by (intro go [OF step_take [OF e'(1)]]) auto
  qed
qed



end
