(* ===== verification/Text_Codec.thy ===== *)
theory Text_Codec
  imports Agent_Prelude
begin

text \<open>
  The text formats of the Go standard library that several components parse and print:
  decimal numbers (\<^verbatim>\<open>strconv.Atoi\<close>), \<^verbatim>\<open>strings.Split\<close> on one character, padded base64
  (\<^verbatim>\<open>base64.StdEncoding\<close>) and base32 without padding. Both encodings are instances of one
  scheme: a group of bytes is a number, printed with digits of a power of two.
\<close>

section \<open>Decimal numbers\<close>

definition digit_value :: "char \<Rightarrow> nat option" where
  "digit_value c = (if 48 \<le> (of_char c :: nat) \<and> (of_char c :: nat) \<le> 57 then Some (of_char c - 48) else None)"

fun digits_value :: "nat \<Rightarrow> string \<Rightarrow> nat option" where
  "digits_value a [] = Some a"
| "digits_value a (c # cs) = (case digit_value c of None \<Rightarrow> None | Some d \<Rightarrow> digits_value (a * 10 + d) cs)"

text \<open>\<^verbatim>\<open>strconv.Atoi\<close>: an optional sign, at least one digit, the value within 64 bits.\<close>

definition go_Atoi :: "string \<Rightarrow> int option" where
  "go_Atoi s =
     (let neg = (s \<noteq> [] \<and> hd s = CHR ''-'');
          ds = (if s \<noteq> [] \<and> (hd s = CHR ''-'' \<or> hd s = CHR ''+'') then tl s else s)
      in if ds = [] then None
         else case digits_value 0 ds of
                None \<Rightarrow> None
              | Some v \<Rightarrow> if neg then (if int v \<le> 2 ^ 63 then Some (- int v) else None)
                          else (if int v < 2 ^ 63 then Some (int v) else None))"

lemma digit_value_dec: "n < 10 \<Longrightarrow> digit_value (dec_digit n) = Some n"
  by (simp add: digit_value_def dec_digit_def)

lemma digits_value_append:
  "digits_value a (xs @ ys) = (case digits_value a xs of None \<Rightarrow> None | Some b \<Rightarrow> digits_value b ys)"
  by (induction a xs rule: digits_value.induct) (auto split: option.splits)

lemma digits_value_dec: "digits_value 0 (dec_digits n) = Some n"
proof (induction n rule: dec_digits.induct)
  case (1 n)
  then show ?case
    by (cases "n < 10") (simp_all add: dec_digits.simps [of n] digit_value_dec digits_value_append)
qed

lemma dec_digits_digit: "c \<in> set (dec_digits n) \<Longrightarrow> \<exists>d < 10. c = dec_digit d"
proof (induction n rule: dec_digits.induct)
  case (1 n)
  have "\<exists>d < 10. dec_digit (n mod 10) = dec_digit d" by (intro exI [of _ "n mod 10"]) simp
  with 1 show ?case by (cases "n < 10") (auto simp: dec_digits.simps [of n])
qed

lemma of_char_dec_digit: "d < 10 \<Longrightarrow> (of_char (dec_digit d) :: nat) = d + 48"
  by (simp add: dec_digit_def)

lemma dec_digits_not: "(of_char c :: nat) < 48 \<or> 57 < (of_char c :: nat) \<Longrightarrow> c \<notin> set (dec_digits n)"
  using dec_digits_digit of_char_dec_digit by fastforce

lemma dec_digits_no_sign: "c \<in> set (dec_digits n) \<Longrightarrow> c \<noteq> CHR ''-'' \<and> c \<noteq> CHR ''+''"
  using dec_digits_not [of "CHR ''-''" n] dec_digits_not [of "CHR ''+''" n] by auto

lemma go_Atoi_dec:
  assumes "int n < 2 ^ 63"
  shows "go_Atoi (dec_digits n) = Some (int n)"
proof -
  obtain c cs where d: "dec_digits n = c # cs" using dec_digits_ne [of n] by (cases "dec_digits n") auto
  then have "c \<noteq> CHR ''-''" "c \<noteq> CHR ''+''" using dec_digits_no_sign [of c n] by auto
  with d digits_value_dec [of n] assms show ?thesis by (simp add: go_Atoi_def Let_def)
qed

lemma length_dec_digits: "n < 10 ^ k \<Longrightarrow> 0 < k \<Longrightarrow> length (dec_digits n) \<le> k"
proof (induction n arbitrary: k rule: dec_digits.induct)
  case (1 n)
  show ?case
  proof (cases "n < 10")
    case False
    then obtain j where k: "k = Suc j" "0 < j" using "1.prems" by (cases k) (auto simp: gr0_conv_Suc, cases "k - 1", auto)
    have "n div 10 < 10 ^ j" using "1.prems"(1) k(1) by (simp add: less_mult_imp_div_less mult.commute)
    from "1.IH" [OF False this k(2)] False k(1) show ?thesis by (simp add: dec_digits.simps [of n])
  qed (use "1.prems" in \<open>simp add: dec_digits.simps [of n]\<close>)
qed

section \<open>Splitting\<close>

fun go_Split :: "char \<Rightarrow> string \<Rightarrow> string list" where
  "go_Split c [] = [[]]"
| "go_Split c (x # xs) =
     (if x = c then [] # go_Split c xs
      else case go_Split c xs of [] \<Rightarrow> [[x]] | p # ps \<Rightarrow> (x # p) # ps)"

lemma go_Split_none: "c \<notin> set xs \<Longrightarrow> go_Split c xs = [xs]"
  by (induction xs) auto

lemma go_Split_at: "c \<notin> set xs \<Longrightarrow> go_Split c (xs @ c # ys) = xs # go_Split c ys"
  by (induction xs) auto

section \<open>Digits of a given base\<close>

primrec radix :: "nat \<Rightarrow> nat \<Rightarrow> nat \<Rightarrow> nat list" where
  "radix b 0 x = []"
| "radix b (Suc k) x = radix b k (x div b) @ [x mod b]"

definition radix_value :: "nat \<Rightarrow> nat list \<Rightarrow> nat" where
  "radix_value b ds = foldl (\<lambda>a d. a * b + d) 0 ds"

lemma radix_value_simps [simp]: "radix_value b [] = 0" "radix_value b (ds @ [d]) = radix_value b ds * b + d"
  by (simp_all add: radix_value_def)

lemma length_radix [simp]: "length (radix b k x) = k"
  by (induction k arbitrary: x) auto

lemma radix_value_radix: "x < b ^ k \<Longrightarrow> radix_value b (radix b k x) = x"
proof (induction k arbitrary: x)
  case (Suc k)
  then have "x div b < b ^ k" by (simp add: less_mult_imp_div_less mult.commute)
  then show ?case using Suc.IH by simp
qed simp

lemma radix_less: "0 < b \<Longrightarrow> d \<in> set (radix b k x) \<Longrightarrow> d < b"
  by (induction k arbitrary: x) auto

lemma radix_shift: "0 < b \<Longrightarrow> radix b (k + m) (x * b ^ m) = radix b k x @ replicate m 0"
proof (induction m arbitrary: x)
  case (Suc m)
  have "x * b ^ Suc m div b = x * b ^ m" using Suc.prems by (simp add: mult.assoc [symmetric] mult.commute)
  then show ?case using Suc by (simp add: replicate_append_same)
qed simp

lemma be_value_zeros: "be_value (bs @ replicate m 0) = be_value bs * 256 ^ m"
proof (induction m)
  case (Suc m)
  have "be_value (bs @ replicate (Suc m) 0) = be_value ((bs @ replicate m 0) @ [0])"
    by (simp add: replicate_append_same)
  also have "\<dots> = be_value bs * 256 ^ Suc m" unfolding be_value_snoc using Suc by simp
  finally show ?case .
qed simp

lemma be_value_less: "be_value bs < 256 ^ length bs"
proof (induction bs rule: rev_induct)
  case (snoc b bs)
  have "unat b < 256" using unsigned_less [of b, where 'a = nat] by simp
  with snoc show ?case by (simp add: be_value_snoc)
qed (simp add: be_value_def)

lemma be_bytes_be_value: "be_bytes (length bs) (be_value bs) = bs"
proof (induction bs rule: rev_induct)
  case (snoc b bs)
  have "unat b < 256" using unsigned_less [of b, where 'a = nat] by simp
  with snoc show ?case by (simp add: be_value_snoc)
qed simp

section \<open>Groups\<close>

text \<open>
  A group of up to \<open>m\<close> bytes is filled up with zero bytes, read as a number and printed in base
  \<open>2 ^ l\<close> with \<open>k\<close> digits (\<open>l * k = 8 * m\<close>), of which those that carry bits of the group are kept.
\<close>

definition group_enc :: "nat \<Rightarrow> nat \<Rightarrow> nat \<Rightarrow> bytes \<Rightarrow> nat list" where
  "group_enc l k m bs = take ((8 * length bs + (l - 1)) div l) (radix (2 ^ l) k (be_value (bs @ replicate (m - length bs) 0)))"

definition group_dec :: "nat \<Rightarrow> nat \<Rightarrow> nat \<Rightarrow> nat list \<Rightarrow> bytes" where
  "group_dec l k m ds = take (length ds * l div 8) (be_bytes m (radix_value (2 ^ l) (ds @ replicate (k - length ds) 0)))"

lemma group_dec_enc:
  assumes "l * k = 8 * m" "0 < l" "l \<le> 8" "length bs \<le> m"
  shows "group_dec l k m (group_enc l k m bs) = bs"
proof -
  let ?n = "length bs" and ?v = "be_value (bs @ replicate (m - length bs) 0)" and ?b = "(2 :: nat) ^ l"
  define c where "c = (8 * length bs + (l - 1)) div l"
  have c: "8 * ?n \<le> c * l" "c * l < 8 * ?n + l" "c * l div 8 = ?n"
  proof -
    have "8 * ?n + (l - 1) = c * l + (8 * ?n + (l - 1)) mod l" by (simp add: c_def)
    moreover have "(8 * ?n + (l - 1)) mod l < l" using assms(2) by simp
    ultimately show 1: "8 * ?n \<le> c * l" "c * l < 8 * ?n + l" using assms(2) by linarith+
    with assms(3) show "c * l div 8 = ?n" by linarith
  qed
  have "c * l < (k + 1) * l" using c(2) assms(1,4) by (simp add: mult.commute)
  then have ck: "c \<le> k" using assms(2) by (metis Suc_eq_plus1 less_Suc_eq_le mult_less_cancel2)
  have "l * (k - c) = 8 * m - c * l" using assms(1) by (simp add: diff_mult_distrib2 mult.commute)
  moreover have "c * l \<le> 8 * m" using ck assms(1) by (metis mult.commute mult_le_mono2)
  ultimately have bits: "8 * (m - ?n) = l * (k - c) + (c * l - 8 * ?n)" using c(1) assms(4) by (simp add: diff_mult_distrib2)
  have "(256 :: nat) ^ (m - ?n) = 2 ^ (8 * (m - ?n))" by (simp add: power_mult)
  also have "\<dots> = 2 ^ (c * l - 8 * ?n) * ?b ^ (k - c)" unfolding bits power_add power_mult by (rule mult.commute)
  finally have v: "?v = (be_value bs * 2 ^ (c * l - 8 * ?n)) * ?b ^ (k - c)"
    using be_value_zeros [of bs "m - ?n"] by (simp add: mult.assoc)
  have r: "radix ?b k ?v = radix ?b c (be_value bs * 2 ^ (c * l - 8 * ?n)) @ replicate (k - c) 0"
    using radix_shift [of ?b c "k - c"] ck v by simp
  have g: "group_enc l k m bs = take c (radix ?b k ?v)" by (simp only: group_enc_def c_def)
  have e: "group_enc l k m bs @ replicate (k - c) 0 = radix ?b k ?v" unfolding g r by simp
  have len: "length (group_enc l k m bs) = c" using ck by (simp add: g)
  have "?v < 256 ^ m" using be_value_less [of "bs @ replicate (m - ?n) 0"] assms(4) by simp
  also have "(256 :: nat) ^ m = ?b ^ k" using assms(1) by (simp flip: power_mult) (simp add: power_mult)
  finally have "radix_value ?b (radix ?b k ?v) = ?v" by (rule radix_value_radix)
  then show ?thesis
    using be_bytes_be_value [of "bs @ replicate (m - ?n) 0"] assms(4) c(3) by (simp add: group_dec_def len e)
qed

section \<open>Alphabets\<close>

definition alpha_index :: "string \<Rightarrow> char \<Rightarrow> nat option" where
  "alpha_index a c = (let i = length (takeWhile (\<lambda>d. d \<noteq> c) a) in if i < length a then Some i else None)"

lemma alpha_index_nth: "distinct a \<Longrightarrow> d < length a \<Longrightarrow> alpha_index a (a ! d) = Some d"
proof -
  assume "distinct a" "d < length a"
  then have "takeWhile (\<lambda>x. x \<noteq> a ! d) a = take d a"
    by (intro takeWhile_eq_take_P_nth) (auto simp: nth_eq_iff_index_eq)
  with \<open>d < length a\<close> show ?thesis by (simp add: alpha_index_def)
qed

lemma alpha_index_None: "c \<notin> set a \<Longrightarrow> alpha_index a c = None"
proof -
  assume "c \<notin> set a"
  then have "takeWhile (\<lambda>d. d \<noteq> c) a = a" by (intro takeWhile_eq_all_conv [THEN iffD2]) auto
  then have "length (takeWhile (\<lambda>d. d \<noteq> c) a) = length a" by (rule arg_cong)
  then show ?thesis by (simp only: alpha_index_def Let_def less_irrefl if_False)
qed

lemma those_alpha_index:
  "distinct a \<Longrightarrow> \<forall>d \<in> set ds. d < length a \<Longrightarrow> those (map (alpha_index a) (map ((!) a) ds)) = Some ds"
  by (induction ds) (auto simp: alpha_index_nth)

lemma group_enc_less: "d \<in> set (group_enc l k m bs) \<Longrightarrow> d < 2 ^ l"
  unfolding group_enc_def by (meson in_set_takeD radix_less zero_less_numeral zero_less_power)

lemma length_group_enc: "l * k = 8 * m \<Longrightarrow> 0 < l \<Longrightarrow> length bs \<le> m \<Longrightarrow>
    length (group_enc l k m bs) = (8 * length bs + (l - 1)) div l"
proof -
  assume a: "l * k = 8 * m" "0 < l" "length bs \<le> m"
  then have "(8 * length bs + (l - 1)) div l \<le> (l * k + (l - 1)) div l" by (intro div_le_mono) simp
  also have "\<dots> = k" using a(2) by (simp add: div_mult_self4 del: add_diff_assoc)
  finally show ?thesis by (simp add: group_enc_def)
qed

text \<open>Line ends are skipped by both decoders.\<close>

definition strip_newlines :: "string \<Rightarrow> string" where
  "strip_newlines = filter (\<lambda>c. c \<noteq> CHR 0x0A \<and> c \<noteq> CHR 0x0D)"

section \<open>Base64 with padding\<close>

definition b64_alphabet :: string where
  "b64_alphabet = ''ABCDEFGHIJKLMNOPQRSTUVWXYZabcdefghijklmnopqrstuvwxyz0123456789+/''"

fun base64_encode :: "bytes \<Rightarrow> string" where
  "base64_encode [] = []"
| "base64_encode [a] = map ((!) b64_alphabet) (group_enc 6 4 3 [a]) @ ''==''"
| "base64_encode [a, b] = map ((!) b64_alphabet) (group_enc 6 4 3 [a, b]) @ ''=''"
| "base64_encode (a # b # c # bs) = map ((!) b64_alphabet) (group_enc 6 4 3 [a, b, c]) @ base64_encode bs"

fun base64_groups :: "string \<Rightarrow> bytes option" where
  "base64_groups [] = Some []"
| "base64_groups (w # x # y # z # cs) =
     (case (alpha_index b64_alphabet w, alpha_index b64_alphabet x) of
        (Some i, Some j) \<Rightarrow>
          (case (alpha_index b64_alphabet y, alpha_index b64_alphabet z) of
             (Some k, Some l) \<Rightarrow> map_option ((@) (group_dec 6 4 3 [i, j, k, l])) (base64_groups cs)
           | (Some k, None) \<Rightarrow> if z = CHR ''='' \<and> cs = [] then Some (group_dec 6 4 3 [i, j, k]) else None
           | (None, _) \<Rightarrow> if y = CHR ''='' \<and> z = CHR ''='' \<and> cs = [] then Some (group_dec 6 4 3 [i, j]) else None)
      | _ \<Rightarrow> None)"
| "base64_groups _ = None"

definition base64_decode :: "string \<Rightarrow> bytes option" where
  "base64_decode s = base64_groups (strip_newlines s)"

lemma b64_alphabet [simp]: "distinct b64_alphabet" "length b64_alphabet = 64" "CHR ''='' \<notin> set b64_alphabet"
  by (simp_all add: b64_alphabet_def)

lemma b64_index [simp]: "i < 64 \<Longrightarrow> alpha_index b64_alphabet (b64_alphabet ! i) = Some i"
  "alpha_index b64_alphabet (CHR ''='') = None"
  by (simp_all add: alpha_index_nth alpha_index_None)

lemma b64_group:
  obtains i j k l where "group_enc 6 4 3 [a, b, c] = [i, j, k, l]" "i < 64" "j < 64" "k < 64" "l < 64"
    "group_dec 6 4 3 [i, j, k, l] = [a, b, c]"
proof -
  have "length (group_enc 6 4 3 [a, b, c]) = 4" by (simp add: length_group_enc)
  then obtain i j k l where g: "group_enc 6 4 3 [a, b, c] = [i, j, k, l]"
    by (auto simp: numeral_eq_Suc length_Suc_conv)
  with group_enc_less [of _ 6 4 3 "[a, b, c]"] group_dec_enc [of 6 4 3 "[a, b, c]"] that show ?thesis by simp
qed

lemma b64_group2:
  obtains i j k where "group_enc 6 4 3 [a, b] = [i, j, k]" "i < 64" "j < 64" "k < 64" "group_dec 6 4 3 [i, j, k] = [a, b]"
proof -
  have "length (group_enc 6 4 3 [a, b]) = 3" by (simp add: length_group_enc)
  then obtain i j k where g: "group_enc 6 4 3 [a, b] = [i, j, k]" by (auto simp: numeral_eq_Suc length_Suc_conv)
  with group_enc_less [of _ 6 4 3 "[a, b]"] group_dec_enc [of 6 4 3 "[a, b]"] that show ?thesis by simp
qed

lemma b64_group1:
  obtains i j where "group_enc 6 4 3 [a] = [i, j]" "i < 64" "j < 64" "group_dec 6 4 3 [i, j] = [a]"
proof -
  have "length (group_enc 6 4 3 [a]) = 2" by (simp add: length_group_enc)
  then obtain i j where g: "group_enc 6 4 3 [a] = [i, j]" by (auto simp: numeral_eq_Suc length_Suc_conv)
  with group_enc_less [of _ 6 4 3 "[a]"] group_dec_enc [of 6 4 3 "[a]"] that show ?thesis by simp
qed

lemma base64_groups_encode: "base64_groups (base64_encode bs) = Some bs"
proof (induction bs rule: base64_encode.induct)
  case (4 a b c bs)
  show ?case by (rule b64_group [of a b c]) (use 4 in simp)
next
  case (2 a)
  show ?case by (rule b64_group1 [of a]) (simp add: numeral_2_eq_2)
next
  case (3 a b)
  show ?case by (rule b64_group2 [of a b]) simp
qed simp

lemma base64_encode_chars: "set (base64_encode bs) \<subseteq> insert (CHR ''='') (set b64_alphabet)"
proof (induction bs rule: base64_encode.induct)
  case (4 a b c bs)
  then show ?case using group_enc_less [of _ 6 4 3 "[a, b, c]"] by (auto intro!: nth_mem)
next
  case (2 a)
  show ?case using group_enc_less [of _ 6 4 3 "[a]"] by (auto intro!: nth_mem)
next
  case (3 a b)
  show ?case using group_enc_less [of _ 6 4 3 "[a, b]"] by (auto intro!: nth_mem)
qed simp

lemma strip_newlines_id: "CHR 0x0A \<notin> set s \<Longrightarrow> CHR 0x0D \<notin> set s \<Longrightarrow> strip_newlines s = s"
  unfolding strip_newlines_def by (rule filter_True) auto

lemma base64_encode_not:
  "CHR 0x0A \<notin> set (base64_encode bs)" "CHR 0x0D \<notin> set (base64_encode bs)" "CHR ''$'' \<notin> set (base64_encode bs)"
  using base64_encode_chars [of bs] by (auto simp: b64_alphabet_def)

lemma base64_roundtrip: "base64_decode (base64_encode bs) = Some bs"
  by (simp add: base64_decode_def strip_newlines_id base64_encode_not base64_groups_encode)

section \<open>Base32 without padding\<close>

definition b32_alphabet :: string where
  "b32_alphabet = ''ABCDEFGHIJKLMNOPQRSTUVWXYZ234567''"

function base32_encode :: "bytes \<Rightarrow> string" where
  "base32_encode bs =
     (if bs = [] then [] else map ((!) b32_alphabet) (group_enc 5 8 5 (take 5 bs)) @ base32_encode (drop 5 bs))"
  by pat_completeness auto
termination by (relation "measure length") auto

declare base32_encode.simps [simp del]

text \<open>
  Without padding the last group may be short. A group of one, three or six characters,
  which no encoder produces, gives no bytes and no error.
\<close>

function base32_groups :: "string \<Rightarrow> bytes option" where
  "base32_groups s =
     (if s = [] then Some []
      else case those (map (alpha_index b32_alphabet) (take 8 s)) of
        None \<Rightarrow> None
      | Some ds \<Rightarrow> if length ds \<in> {1, 3, 6} then Some []
                   else map_option ((@) (group_dec 5 8 5 ds)) (base32_groups (drop 8 s)))"
  by pat_completeness auto
termination by (relation "measure length") auto

declare base32_groups.simps [simp del]

definition base32_decode :: "string \<Rightarrow> bytes option" where
  "base32_decode s = base32_groups (strip_newlines s)"

text \<open>\<^verbatim>\<open>strings.ToUpper\<close> on ASCII text.\<close>

definition go_ToUpper :: "string \<Rightarrow> string" where
  "go_ToUpper = map (\<lambda>c. if 97 \<le> (of_char c :: nat) \<and> (of_char c :: nat) \<le> 122 then char_of ((of_char c :: nat) - 32) else c)"

lemma b32_alphabet [simp]: "distinct b32_alphabet" "length b32_alphabet = 32"
  by (simp_all add: b32_alphabet_def)

lemma length_b32_group: "length bs \<le> 5 \<Longrightarrow> length (group_enc 5 8 5 bs) = (8 * length bs + 4) div 5"
  by (simp add: length_group_enc)

lemma base32_groups_encode: "base32_groups (base32_encode bs) = Some bs"
proof (induction bs rule: base32_encode.induct)
  case (1 bs)
  show ?case
  proof (cases "bs = []")
    case False
    let ?g = "group_enc 5 8 5 (take 5 bs)" and ?n = "min (length bs) 5"
    let ?x = "map ((!) b32_alphabet) ?g"
    have e: "base32_encode bs = ?x @ base32_encode (drop 5 bs)" using False by (subst base32_encode.simps) simp
    have "0 < length bs" using False by simp
    then have n: "?n \<in> {1, 2, 3, 4, 5}" by (simp only: insert_iff empty_iff) linarith
    have len: "length ?g = (8 * ?n + 4) div 5" by (simp add: length_b32_group min.commute)
    then have ok: "length ?g \<notin> {1, 3, 6}" "?x \<noteq> []" "length ?g \<le> 8" using n by auto
    have rest: "length ?g = 8 \<or> drop 5 bs = []" using n len by (auto simp: min_def split: if_splits)
    have 8: "take 8 (base32_encode bs) = ?x" "drop 8 (base32_encode bs) = base32_encode (drop 5 bs)"
      using rest e ok(3) by (auto simp: base32_encode.simps [of "[]"])
    have th: "those (map (alpha_index b32_alphabet) ?x) = Some ?g"
      using group_enc_less [of _ 5 8 5 "take 5 bs"] by (intro those_alpha_index) simp_all
    have dec: "group_dec 5 8 5 ?g = take 5 bs" by (rule group_dec_enc) simp_all
    have "base32_encode bs \<noteq> []" using e ok(2) by simp
    then show ?thesis
      using 1 [OF False] th ok(1) by (subst base32_groups.simps) (simp add: 8 dec)
  qed (simp add: base32_encode.simps base32_groups.simps)
qed

lemma base32_encode_chars: "set (base32_encode bs) \<subseteq> set b32_alphabet"
proof (induction bs rule: base32_encode.induct)
  case (1 bs)
  show ?case
  proof (cases "bs = []")
    case False
    have "set (map ((!) b32_alphabet) (group_enc 5 8 5 (take 5 bs))) \<subseteq> set b32_alphabet"
      using group_enc_less [of _ 5 8 5 "take 5 bs"] by (auto intro!: nth_mem)
    with 1 [OF False] False show ?thesis by (subst base32_encode.simps) simp
  qed (simp add: base32_encode.simps)
qed

lemma base32_upper: "go_ToUpper (base32_encode bs) = base32_encode bs"
proof -
  have "\<forall>c \<in> set b32_alphabet. \<not> (97 \<le> (of_char c :: nat))" by (simp add: b32_alphabet_def)
  then show ?thesis using base32_encode_chars [of bs] unfolding go_ToUpper_def by (intro map_idI) auto
qed

lemma base32_roundtrip: "base32_decode (base32_encode bs) = Some bs"
proof -
  have "CHR 0x0A \<notin> set (base32_encode bs)" "CHR 0x0D \<notin> set (base32_encode bs)"
    using base32_encode_chars [of bs] by (auto simp: b32_alphabet_def)
  then show ?thesis by (simp add: base32_decode_def strip_newlines_id base32_groups_encode)
qed

end
