(* ===== verification/Wal.thy ===== *)
theory Wal
  imports Text_Codec "HOL-Library.AList"
begin

unbundle bit_operations_syntax

text \<open>
  \<^verbatim>\<open>internal/reporter/wal.go\<close>: the segmented write-ahead log behind the reliable queues. A
  log directory is an association list from segment number to file content, in the order
  in which \<^verbatim>\<open>os.ReadDir\<close> happens to list it; the cursor file holds a cursor or nothing
  readable. Failing system calls are an argument of the operation that makes them.
\<close>

section \<open>Constants and data\<close>

definition walSegmentMaxBytes :: nat where
  "walSegmentMaxBytes = 32 * 2 ^ 20"

definition walHeaderSize :: nat where
  "walHeaderSize = 8"

definition walMaxEntrySize :: nat where
  "walMaxEntrySize = 4 * 2 ^ 20"

record walCursor =
  cur_Segment :: nat
  cur_Offset :: nat

definition zero_cursor :: walCursor where
  "zero_cursor = \<lparr>cur_Segment = 0, cur_Offset = 0\<rparr>"

record WAL =
  wal_dir :: "(nat \<times> bytes) list"
  wal_maxBytes :: int
  wal_activeSeg :: nat
  wal_activeLen :: nat
  wal_cursor :: "walCursor option"

datatype wal_error = EntryTooLarge nat | OpenFailed | WriteFailed | SyncFailed | RemoveFailed

text \<open>Which system call of an \<^verbatim>\<open>Append\<close> fails, and how much of a write reached the file.\<close>

datatype wal_fault = NoFault | FailOpen | FailHeader nat | FailPayload nat | FailSync | FailRemove nat

section \<open>Segment names\<close>

definition segName :: "nat \<Rightarrow> string" where
  \<comment> \<open>\<^verbatim>\<open>fmt.Sprintf("seg-%06d.log", id)\<close>\<close>
  "segName i = ''seg-'' @ replicate (6 - length (dec_digits i)) (CHR ''0'') @ dec_digits i @ ''.log''"

definition parseSegName :: "string \<Rightarrow> int option" where
  "parseSegName name =
     (if \<not> go_HasPrefix name ''seg-'' \<or> \<not> go_HasSuffix name ''.log'' then None
      else go_Atoi (take (length name - 8) (drop 4 name)))"

section \<open>Checksums and records\<close>

definition crc32_step :: "32 word \<Rightarrow> 32 word" where
  "crc32_step c = (if c AND 1 = 1 then drop_bit 1 c XOR 0xEDB88320 else drop_bit 1 c)"

definition crc32_byte :: "32 word \<Rightarrow> byte \<Rightarrow> 32 word" where
  "crc32_byte c b = (crc32_step ^^ 8) (c XOR ucast b)"

definition crc32 :: "bytes \<Rightarrow> 32 word" where
  \<comment> \<open>\<^verbatim>\<open>crc32.ChecksumIEEE\<close>\<close>
  "crc32 bs = NOT (foldl crc32_byte (NOT 0) bs)"

definition wal_header :: "bytes \<Rightarrow> bytes" where
  "wal_header payload = put_uint32 (word_of_nat (length payload)) @ put_uint32 (crc32 payload)"

section \<open>Opening\<close>

definition segments :: "(nat \<times> bytes) list \<Rightarrow> nat list" where
  "segments dir = sort (map fst dir)"

definition seg_bytes :: "(nat \<times> bytes) list \<Rightarrow> nat \<Rightarrow> bytes" where
  "seg_bytes dir s = (case map_of dir s of None \<Rightarrow> [] | Some b \<Rightarrow> b)"

definition openActive :: "WAL \<Rightarrow> WAL" where
  "openActive w =
     (let s = wal_activeSeg w;
          dir = (if map_of (wal_dir w) s = None then AList.update s [] (wal_dir w) else wal_dir w)
      in w\<lparr>wal_dir := dir, wal_activeLen := length (seg_bytes dir s)\<rparr>)"

definition OpenWAL :: "(nat \<times> bytes) list \<Rightarrow> walCursor option \<Rightarrow> int \<Rightarrow> WAL" where
  "OpenWAL dir cursor maxBytes =
     (let w = \<lparr>wal_dir = dir, wal_maxBytes = maxBytes, wal_activeSeg = 0, wal_activeLen = 0, wal_cursor = cursor\<rparr>;
          segs = segments dir;
          w = (if length segs > 0 then w\<lparr>wal_activeSeg := last segs\<rparr> else w)
      in openActive w)"

section \<open>Appending\<close>

definition append_active :: "WAL \<Rightarrow> bytes \<Rightarrow> WAL" where
  "append_active w bs =
     w\<lparr>wal_dir := AList.update (wal_activeSeg w) (seg_bytes (wal_dir w) (wal_activeSeg w) @ bs) (wal_dir w)\<rparr>"

definition dir_size :: "(nat \<times> bytes) list \<Rightarrow> int" where
  "dir_size dir = (\<Sum>s \<leftarrow> segments dir. int (length (seg_bytes dir s)))"

text \<open>The removal loop of \<^verbatim>\<open>enforceQuotaLocked\<close>; \<open>fault = Some k\<close>: the \<open>k\<close>-th removal fails.\<close>

fun drop_oldest ::
  "int \<Rightarrow> nat \<Rightarrow> nat option \<Rightarrow> nat list \<Rightarrow> int \<Rightarrow> (nat \<times> bytes) list \<Rightarrow> wal_error option \<times> (nat \<times> bytes) list"
where
  "drop_oldest maxB act fault [] tot dir = (None, dir)"
| "drop_oldest maxB act fault (s # ss) tot dir =
     (if tot \<le> maxB \<or> s = act then (None, dir)
      else if fault = Some 0 then (Some RemoveFailed, dir)
      else drop_oldest maxB act (map_option (\<lambda>k. k - 1) fault) ss
             (tot - int (length (seg_bytes dir s))) (AList.delete s dir))"

definition enforceQuota :: "nat option \<Rightarrow> WAL \<Rightarrow> wal_error option \<times> WAL" where
  "enforceQuota fault w =
     (if wal_maxBytes w \<le> 0 then (None, w)
      else (let segs = segments (wal_dir w)
            in if length segs \<le> 1 then (None, w)
               else (let (err, dir) = drop_oldest (wal_maxBytes w) (wal_activeSeg w) fault segs
                                        (dir_size (wal_dir w)) (wal_dir w)
                     in (err, w\<lparr>wal_dir := dir\<rparr>))))"

definition rotate :: "WAL \<Rightarrow> WAL" where
  "rotate w = (if wal_activeLen w \<ge> walSegmentMaxBytes
               then openActive (w\<lparr>wal_activeSeg := Suc (wal_activeSeg w)\<rparr>) else w)"

definition wal_Append :: "wal_fault \<Rightarrow> WAL \<Rightarrow> bytes \<Rightarrow> wal_error option \<times> WAL" where
  "wal_Append fault w payload =
     (if length payload > walMaxEntrySize then (Some (EntryTooLarge (length payload)), w)
      else if wal_activeLen w \<ge> walSegmentMaxBytes \<and> fault = FailOpen
      then (Some OpenFailed, w\<lparr>wal_activeSeg := Suc (wal_activeSeg w)\<rparr>)
      else (let w = rotate w; hdr = wal_header payload
            in case fault of
                 FailHeader k \<Rightarrow> (Some WriteFailed, append_active w (take k hdr))
               | FailPayload k \<Rightarrow> (Some WriteFailed, append_active w (hdr @ take k payload))
               | FailSync \<Rightarrow> (Some SyncFailed, append_active w (hdr @ payload))
               | _ \<Rightarrow>
                   (let w = append_active w (hdr @ payload);
                        w = w\<lparr>wal_activeLen := wal_activeLen w + walHeaderSize + length payload\<rparr>
                    in enforceQuota (case fault of FailRemove k \<Rightarrow> Some k | _ \<Rightarrow> None) w)))"

section \<open>Reading\<close>

text \<open>
  The loop of \<^verbatim>\<open>readSegment\<close> on the bytes behind the offset. A single \<^verbatim>\<open>fd.Read\<close> fills as much
  of the zeroed header as the file has and fails only at its end; \<^verbatim>\<open>readFull\<close> needs all
  bytes of the payload.
\<close>

definition read_header :: "bytes \<Rightarrow> bytes" where
  "read_header rest = take walHeaderSize rest @ replicate (walHeaderSize - length rest) 0"

fun read_entries :: "nat \<Rightarrow> bytes \<Rightarrow> nat \<Rightarrow> bytes list \<times> nat \<times> bool" where
  "read_entries 0 rest off = ([], off, False)"
| "read_entries (Suc m) rest off =
     (if rest = [] then ([], off, False)
      else (let hdr = read_header rest;
                n = unat (get_uint32 (take 4 hdr));
                crc = get_uint32 (drop 4 hdr);
                rest' = drop walHeaderSize rest
            in if n > walMaxEntrySize then ([], off, True)
               else if length rest' < n then ([], off, False)
               else if crc32 (take n rest') \<noteq> crc then ([], off, True)
               else (let (out, off', bad) = read_entries m (drop n rest') (off + walHeaderSize + n)
                     in (take n rest' # out, off', bad))))"

definition readSegment :: "(nat \<times> bytes) list \<Rightarrow> nat \<Rightarrow> nat \<Rightarrow> nat \<Rightarrow> bytes list \<times> nat \<times> bool" where
  "readSegment dir seg off maxN =
     (case map_of dir seg of
        None \<Rightarrow> ([], off, False)
      | Some b \<Rightarrow> read_entries maxN (drop off b) off)"

fun read_loop ::
  "(nat \<times> bytes) list \<Rightarrow> nat \<Rightarrow> nat \<Rightarrow> nat list \<Rightarrow> bytes list \<Rightarrow> walCursor \<Rightarrow> bytes list \<times> walCursor" where
  "read_loop dir newest maxN [] out cur = (out, cur)"
| "read_loop dir newest maxN (seg # segs) out cur =
     (if seg < cur_Segment cur \<or> length out \<ge> maxN then read_loop dir newest maxN segs out cur
      else (let (entries, nextOff, corrupt) = readSegment dir seg (cur_Offset cur) (maxN - length out);
                out = out @ entries;
                cur = (if nextOff > 0 then \<lparr>cur_Segment = seg, cur_Offset = nextOff\<rparr> else cur)
            in if length out \<ge> maxN then (out, cur)
               else read_loop dir newest maxN segs out
                      (if seg < newest then \<lparr>cur_Segment = seg + 1, cur_Offset = 0\<rparr> else cur)))"

definition ReadFrom :: "WAL \<Rightarrow> walCursor \<Rightarrow> nat \<Rightarrow> bytes list \<times> walCursor" where
  "ReadFrom w cur maxN =
     (let segs = segments (wal_dir w)
      in if length segs = 0 then ([], cur)
         else (let cur = (if cur_Segment cur > last segs then zero_cursor else cur)
               in read_loop (wal_dir w) (last segs) maxN segs [] cur))"

definition LoadCursor :: "WAL \<Rightarrow> walCursor" where
  "LoadCursor w = (case wal_cursor w of None \<Rightarrow> zero_cursor | Some c \<Rightarrow> c)"

definition SaveCursor :: "WAL \<Rightarrow> walCursor \<Rightarrow> WAL" where
  "SaveCursor w c = w\<lparr>wal_cursor := Some c\<rparr>"

definition PendingBytes :: "WAL \<Rightarrow> int" where
  "PendingBytes w = dir_size (wal_dir w)"

section \<open>Records read back\<close>

definition encode_entry :: "bytes \<Rightarrow> bytes" where
  "encode_entry p = wal_header p @ p"

definition encode_all :: "bytes list \<Rightarrow> bytes" where
  "encode_all ps = concat (map encode_entry ps)"

definition small :: "bytes \<Rightarrow> bool" where
  "small p \<longleftrightarrow> length p \<le> walMaxEntrySize"

lemma length_wal_header [simp]: "length (wal_header p) = walHeaderSize"
  by (simp add: wal_header_def walHeaderSize_def)

lemma length_encode_entry [simp]: "length (encode_entry p) = walHeaderSize + length p"
  by (simp add: encode_entry_def)

lemma encode_all_simps [simp]:
  "encode_all [] = []" "encode_all (p # ps) = encode_entry p @ encode_all ps"
  "encode_all (ps @ qs) = encode_all ps @ encode_all qs"
  by (simp_all add: encode_all_def)

lemma small_length_word: "small p \<Longrightarrow> unat (word_of_nat (length p) :: 32 word) = length p"
  by (simp add: small_def walMaxEntrySize_def unat_of_nat)

lemma read_header_entry:
  "read_header (encode_entry p @ rest) = put_uint32 (word_of_nat (length p)) @ put_uint32 (crc32 p)"
  by (simp add: read_header_def encode_entry_def wal_header_def walHeaderSize_def)

lemma encode_entry_ne [simp]: "encode_entry p \<noteq> []"
  by (metis length_encode_entry length_0_conv add_is_0 walHeaderSize_def zero_neq_numeral)

lemma read_entries_entry:
  assumes "small p"
  shows "read_entries (Suc m) (encode_entry p @ rest) off =
    (let (out, off', bad) = read_entries m rest (off + walHeaderSize + length p) in (p # out, off', bad))"
proof -
  have "drop walHeaderSize (encode_entry p @ rest) = p @ rest"
    by (simp add: encode_entry_def)
  with assms show ?thesis
    by (simp add: read_header_entry small_length_word small_def Let_def)
qed

lemma read_entries_all:
  "\<forall>p \<in> set ps. small p \<Longrightarrow>
   read_entries m (encode_all ps) off = (take m ps, off + length (encode_all (take m ps)), False)"
proof (induction m arbitrary: ps off)
  case (Suc m)
  then show ?case
  proof (cases ps)
    case (Cons p qs)
    with Suc show ?thesis
      by (simp add: read_entries_entry del: read_entries.simps)
  qed simp
qed simp

text \<open>The records of a segment file, and the files that hold whole records only.\<close>

definition decode :: "bytes \<Rightarrow> bytes list" where
  "decode b = fst (read_entries (length b) b 0)"

definition clean :: "bytes \<Rightarrow> bool" where
  "clean b \<longleftrightarrow> encode_all (decode b) = b \<and> (\<forall>p \<in> set (decode b). small p)"

lemma length_le_encode_all: "length ps \<le> length (encode_all ps)"
  by (induction ps) (auto simp: walHeaderSize_def)

lemma decode_encode_all [simp]: "\<forall>p \<in> set ps. small p \<Longrightarrow> decode (encode_all ps) = ps"
  by (simp add: decode_def read_entries_all length_le_encode_all)

lemma clean_iff: "clean b \<longleftrightarrow> (\<exists>ps. b = encode_all ps \<and> (\<forall>p \<in> set ps. small p))"
  unfolding clean_def using decode_encode_all by metis

lemma clean_Nil [simp]: "clean []" and decode_Nil [simp]: "decode [] = []"
  using decode_encode_all [of "[]"] by (auto simp: clean_def simp del: decode_encode_all)

lemma decode_append_entry:
  assumes "clean b" "small p"
  shows "decode (b @ encode_entry p) = decode b @ [p]" "clean (b @ encode_entry p)"
proof -
  let ?ps = "decode b @ [p]"
  have sm: "\<forall>q \<in> set ?ps. small q" using assms by (simp add: clean_def)
  have "b @ encode_entry p = encode_all ?ps" using assms by (simp add: clean_def)
  with decode_encode_all [OF sm] sm show "decode (b @ encode_entry p) = decode b @ [p]"
    and "clean (b @ encode_entry p)" by (auto simp: clean_def)
qed

text \<open>A byte offset at a record boundary, and what lies behind it.\<close>

definition boundary :: "bytes \<Rightarrow> nat \<Rightarrow> bool" where
  "boundary b off \<longleftrightarrow> (\<exists>k. off = length (encode_all (take k (decode b))))"

lemma boundary_0 [simp]: "boundary b 0"
  unfolding boundary_def by (rule exI [of _ 0]) simp

lemma boundary_drop:
  assumes "clean b" "boundary b off"
  shows "\<exists>k. off = length (encode_all (take k (decode b))) \<and> drop off b = encode_all (drop k (decode b)) \<and>
    decode (drop off b) = drop k (decode b) \<and> k \<le> length (decode b)"
proof -
  from assms(2) obtain j where j: "off = length (encode_all (take j (decode b)))"
    by (auto simp: boundary_def)
  define k where "k = min j (length (decode b))"
  have off: "off = length (encode_all (take k (decode b)))" using j by (simp add: k_def min_def)
  have "b = encode_all (take k (decode b)) @ encode_all (drop k (decode b))"
    using assms(1) by (metis append_take_drop_id clean_def encode_all_simps(3))
  then have d: "drop off b = encode_all (drop k (decode b))"
    by (metis append_eq_conv_conj off)
  have "\<forall>p \<in> set (drop k (decode b)). small p"
    using assms(1) by (meson clean_def in_set_dropD)
  with d off show ?thesis by (intro exI [of _ k]) (simp add: k_def)
qed

lemma boundary_append:
  assumes "clean b" "small p" "boundary b off"
  shows "boundary (b @ encode_entry p) off \<and> drop off (b @ encode_entry p) = drop off b @ encode_entry p"
proof -
  from boundary_drop [OF assms(1,3)] obtain k
    where k: "off = length (encode_all (take k (decode b)))" "k \<le> length (decode b)" by blast
  have "take k (decode (b @ encode_entry p)) = take k (decode b)"
    using k(2) assms by (simp add: decode_append_entry)
  with k(1) have "boundary (b @ encode_entry p) off" unfolding boundary_def by metis
  moreover have "off \<le> length b"
  proof -
    have "encode_all (decode b) = encode_all (take k (decode b)) @ encode_all (drop k (decode b))"
      by (metis append_take_drop_id encode_all_simps(3))
    then have "length b = off + length (encode_all (drop k (decode b)))"
      using assms(1) k(1) by (metis clean_def length_append)
    then show ?thesis by simp
  qed
  ultimately show ?thesis by simp
qed

lemma readSegment_clean:
  assumes "map_of dir seg = Some b" "clean b" "boundary b off"
  shows "\<exists>off'. readSegment dir seg off m = (take m (decode (drop off b)), off', False) \<and>
    boundary b off' \<and> off \<le> off' \<and> decode (drop off' b) = drop m (decode (drop off b))"
proof -
  from boundary_drop [OF assms(2,3)] obtain k
    where k: "off = length (encode_all (take k (decode b)))" "drop off b = encode_all (drop k (decode b))"
      "decode (drop off b) = drop k (decode b)" "k \<le> length (decode b)" by blast
  have sm: "\<forall>p \<in> set (drop k (decode b)). small p" using assms(2) by (meson clean_def in_set_dropD)
  define off' where "off' = off + length (encode_all (take m (drop k (decode b))))"
  have r: "readSegment dir seg off m = (take m (decode (drop off b)), off', False)"
    using assms(1) read_entries_all [OF sm] k(2,3) by (simp add: readSegment_def off'_def)
  have "take (k + m) (decode b) = take k (decode b) @ take m (drop k (decode b))"
    by (rule take_add)
  then have off': "off' = length (encode_all (take (k + m) (decode b)))"
    using k(1) by (simp add: off'_def)
  then have bd: "boundary b off'" unfolding boundary_def by blast
  have "b = encode_all (take (k + m) (decode b)) @ encode_all (drop (k + m) (decode b))"
    using assms(2) by (metis append_take_drop_id clean_def encode_all_simps(3))
  then have "drop off' b = encode_all (drop (k + m) (decode b))" by (metis append_eq_conv_conj off')
  moreover have "\<forall>p \<in> set (drop (k + m) (decode b)). small p" using assms(2) by (meson clean_def in_set_dropD)
  ultimately have "decode (drop off' b) = drop m (decode (drop off b))"
    using k(3) by (simp add: add.commute)
  with r bd show ?thesis by (auto simp: off'_def)
qed

section \<open>What a cursor has not consumed yet\<close>

definition seg_pending :: "(nat \<times> bytes) list \<Rightarrow> walCursor \<Rightarrow> nat \<Rightarrow> bytes list" where
  "seg_pending dir cur s =
     (if s < cur_Segment cur then []
      else if s = cur_Segment cur then decode (drop (cur_Offset cur) (seg_bytes dir s))
      else decode (seg_bytes dir s))"

definition pending_in :: "(nat \<times> bytes) list \<Rightarrow> nat list \<Rightarrow> walCursor \<Rightarrow> bytes list" where
  "pending_in dir segs cur = concat (map (seg_pending dir cur) segs)"

definition pending :: "WAL \<Rightarrow> walCursor \<Rightarrow> bytes list" where
  "pending w cur = pending_in (wal_dir w) (segments (wal_dir w)) cur"

definition cursor_in :: "(nat \<times> bytes) list \<Rightarrow> nat list \<Rightarrow> walCursor \<Rightarrow> bool" where
  "cursor_in dir segs cur \<longleftrightarrow> cur_Offset cur = 0 \<or>
     (cur_Segment cur \<in> set segs \<and> boundary (seg_bytes dir (cur_Segment cur)) (cur_Offset cur))"

definition cursor_ok :: "WAL \<Rightarrow> walCursor \<Rightarrow> bool" where
  "cursor_ok w cur \<longleftrightarrow> cursor_in (wal_dir w) (segments (wal_dir w)) cur \<and>
     cur_Segment cur \<le> last (segments (wal_dir w))"

text \<open>The invariant of a log whose writes all succeeded.\<close>

definition wal_ok :: "WAL \<Rightarrow> bool" where
  "wal_ok w \<longleftrightarrow> wf_map (wal_dir w) \<and> (\<forall>b \<in> snd ` set (wal_dir w). clean b) \<and> wal_dir w \<noteq> [] \<and>
     wal_activeSeg w = last (segments (wal_dir w)) \<and>
     wal_activeLen w = length (seg_bytes (wal_dir w) (wal_activeSeg w))"

lemma pending_in_Cons [simp]: "pending_in dir (s # ss) cur = seg_pending dir cur s @ pending_in dir ss cur"
  and pending_in_Nil [simp]: "pending_in dir [] cur = []"
  by (simp_all add: pending_in_def)

lemma pending_in_past: "\<forall>s \<in> set ss. s < cur_Segment cur \<Longrightarrow> pending_in dir ss cur = []"
  by (induction ss) (auto simp: seg_pending_def)

lemma pending_in_whole:
  "\<forall>s \<in> set ss. cur_Segment cur < s \<or> (cur_Segment cur \<le> s \<and> cur_Offset cur = 0) \<Longrightarrow>
   pending_in dir ss cur = concat (map (\<lambda>s. decode (seg_bytes dir s)) ss)"
  by (induction ss) (auto simp: seg_pending_def)

definition dir_clean :: "(nat \<times> bytes) list \<Rightarrow> nat list \<Rightarrow> bool" where
  "dir_clean dir segs \<longleftrightarrow> (\<forall>s \<in> set segs. \<exists>b. map_of dir s = Some b \<and> clean b)"

text \<open>
  What one pass over the (sorted) segments \<open>segs\<close> returns: the next records in order, and a
  cursor whose pending records are the remaining ones.
\<close>

definition read_spec ::
  "(nat \<times> bytes) list \<Rightarrow> nat list \<Rightarrow> nat \<Rightarrow> bytes list \<Rightarrow> walCursor \<Rightarrow> bytes list \<times> walCursor \<Rightarrow> bool" where
  "read_spec dir segs m out cur r \<longleftrightarrow>
     fst r = out @ take m (pending_in dir segs cur) \<and>
     pending_in dir segs (snd r) = drop m (pending_in dir segs cur) \<and>
     cursor_in dir segs (snd r) \<and> cur_Segment cur \<le> cur_Segment (snd r) \<and>
     (segs \<noteq> [] \<longrightarrow> cur_Segment (snd r) \<le> max (cur_Segment cur) (last segs))"

lemma read_loop_full: "length out \<ge> maxN \<Longrightarrow> read_loop dir newest maxN segs out cur = (out, cur)"
  by (induction segs) auto

lemma cursor_in_Cons: "cursor_in dir segs cur \<Longrightarrow> cursor_in dir (s # segs) cur"
  by (auto simp: cursor_in_def)

text \<open>Where the cursor stands after a segment was read.\<close>

definition after_segment :: "walCursor \<Rightarrow> nat \<Rightarrow> nat \<Rightarrow> walCursor" where
  "after_segment cur s off = (if off > 0 then \<lparr>cur_Segment = s, cur_Offset = off\<rparr> else cur)"

lemma read_one_segment:
  assumes b: "map_of dir s = Some b" "clean b" and cur: "cursor_in dir (s # ss) cur" "cur_Segment cur \<le> s"
    and later: "\<forall>t \<in> set ss. s < t"
  shows "\<exists>o1. readSegment dir s (cur_Offset cur) m = (take m (seg_pending dir cur s), o1, False) \<and>
    seg_pending dir (after_segment cur s o1) s = drop m (seg_pending dir cur s) \<and>
    pending_in dir ss (after_segment cur s o1) = pending_in dir ss cur \<and>
    cursor_in dir (s # ss) (after_segment cur s o1) \<and>
    cur_Segment cur \<le> cur_Segment (after_segment cur s o1) \<and> cur_Segment (after_segment cur s o1) \<le> s"
proof -
  have sb: "seg_bytes dir s = b" using b by (simp add: seg_bytes_def)
  have "cur_Offset cur = 0 \<or> cur_Segment cur = s" and bd: "boundary b (cur_Offset cur)"
    using cur later sb by (auto simp: cursor_in_def)
  then have sp: "seg_pending dir cur s = decode (drop (cur_Offset cur) b)"
    using cur(2) sb by (auto simp: seg_pending_def)
  obtain o1 where o1: "readSegment dir s (cur_Offset cur) m = (take m (decode (drop (cur_Offset cur) b)), o1, False)"
    "boundary b o1" "cur_Offset cur \<le> o1" "decode (drop o1 b) = drop m (decode (drop (cur_Offset cur) b))"
    using readSegment_clean [OF b bd] by blast
  have "pending_in dir ss (after_segment cur s o1) = pending_in dir ss cur"
  proof -
    have "pending_in dir ss (after_segment cur s o1) = concat (map (\<lambda>t. decode (seg_bytes dir t)) ss)"
      using later cur(2) by (intro pending_in_whole) (auto simp: after_segment_def)
    moreover have "pending_in dir ss cur = concat (map (\<lambda>t. decode (seg_bytes dir t)) ss)"
      using later cur(2) by (intro pending_in_whole) auto
    ultimately show ?thesis by simp
  qed
  moreover have "seg_pending dir (after_segment cur s o1) s = drop m (seg_pending dir cur s)"
    using o1(3,4) sp sb by (cases "o1 > 0") (auto simp: after_segment_def seg_pending_def)
  moreover have "cursor_in dir (s # ss) (after_segment cur s o1)"
    using o1(2) cur(1) sb by (auto simp: cursor_in_def after_segment_def)
  ultimately show ?thesis using o1(1) sp cur(2) by (auto simp: after_segment_def)
qed

lemma pending_in_next:
  assumes "\<forall>t \<in> set ss. s < t" "cur_Segment cur \<le> s"
  shows "pending_in dir ss \<lparr>cur_Segment = s + 1, cur_Offset = 0\<rparr> = pending_in dir ss cur"
proof -
  have "pending_in dir ss \<lparr>cur_Segment = s + 1, cur_Offset = 0\<rparr> = concat (map (\<lambda>t. decode (seg_bytes dir t)) ss)"
    using assms by (intro pending_in_whole) auto
  moreover have "pending_in dir ss cur = concat (map (\<lambda>t. decode (seg_bytes dir t)) ss)"
    using assms by (intro pending_in_whole) auto
  ultimately show ?thesis by simp
qed

lemma read_loop_step:
  assumes "length out < maxN" "cur_Segment cur \<le> s"
    and "readSegment dir s (cur_Offset cur) (maxN - length out) = (take (maxN - length out) ps, o1, bad)"
  shows "read_loop dir newest maxN (s # ss) out cur =
    (if maxN - length out \<le> length ps then (out @ take (maxN - length out) ps, after_segment cur s o1)
     else read_loop dir newest maxN ss (out @ ps)
       (if s < newest then \<lparr>cur_Segment = s + 1, cur_Offset = 0\<rparr> else after_segment cur s o1))"
  using assms by (auto simp: after_segment_def Let_def)

lemma last_sorted_ge: "sorted_wrt (<) (s # ss) \<Longrightarrow> s \<le> last (s # ss)" for s :: nat
  using last_in_set [of ss] by (cases ss) (auto simp: less_imp_le)

lemma read_loop_spec:
  assumes "sorted_wrt (<) segs" "dir_clean dir segs" "cursor_in dir segs cur"
    and "segs \<noteq> [] \<Longrightarrow> newest = last segs" "length out \<le> maxN"
  shows "read_spec dir segs (maxN - length out) out cur (read_loop dir newest maxN segs out cur)"
  using assms
proof (induction segs arbitrary: out cur)
  case Nil
  then show ?case by (auto simp: read_spec_def)
next
  case (Cons s ss)
  let ?m = "maxN - length out"
  obtain b where b: "map_of dir s = Some b" "clean b" using Cons.prems(2) by (auto simp: dir_clean_def)
  have later: "\<forall>t \<in> set ss. s < t" and ge: "s \<le> last (s # ss)"
    using Cons.prems(1) last_sorted_ge by auto
  have IHprem: "sorted_wrt (<) ss" "dir_clean dir ss" "ss \<noteq> [] \<Longrightarrow> newest = last ss"
    using Cons.prems by (auto simp: dir_clean_def)
  consider (full) "length out = maxN" | (skip) "length out < maxN" "s < cur_Segment cur"
    | (read) "length out < maxN" "cur_Segment cur \<le> s"
    using Cons.prems(5) by linarith
  then show ?case
  proof cases
    case full
    with Cons.prems(3) show ?thesis by (simp add: read_loop_full read_spec_def)
  next
    case skip
    then have "cursor_in dir ss cur" using Cons.prems(3) by (auto simp: cursor_in_def)
    from Cons.IH [OF IHprem(1,2) this IHprem(3) Cons.prems(5)] skip
    show ?thesis by (cases ss) (auto simp: read_spec_def seg_pending_def cursor_in_def)
  next
    case read
    let ?ps = "seg_pending dir cur s"
    from read_one_segment [OF b Cons.prems(3) read(2) later, of ?m] obtain o1 where
      o1: "readSegment dir s (cur_Offset cur) ?m = (take ?m ?ps, o1, False)" and
      c: "seg_pending dir (after_segment cur s o1) s = drop ?m ?ps"
        "pending_in dir ss (after_segment cur s o1) = pending_in dir ss cur"
        "cursor_in dir (s # ss) (after_segment cur s o1)"
        "cur_Segment cur \<le> cur_Segment (after_segment cur s o1)" "cur_Segment (after_segment cur s o1) \<le> s"
      by blast
    note loop = read_loop_step [OF read o1, of newest ss]
    consider (enough) "?m \<le> length ?ps" | (end_of_log) "length ?ps < ?m" "ss = []"
      | (next_segment) "length ?ps < ?m" "ss \<noteq> []" by linarith
    then show ?thesis
    proof cases
      case enough
      with c ge loop show ?thesis by (simp add: read_spec_def del: last.simps)
    next
      case end_of_log
      with c loop Cons.prems(4) show ?thesis by (simp add: read_spec_def)
    next
      case next_segment
      let ?d = "\<lparr>cur_Segment = s + 1, cur_Offset = 0\<rparr>"
      have "s < newest" using next_segment Cons.prems(4) later by simp
      with next_segment loop
      have loop: "read_loop dir newest maxN (s # ss) out cur = read_loop dir newest maxN ss (out @ ?ps) ?d" by simp
      have "cursor_in dir ss ?d" by (simp add: cursor_in_def)
      from Cons.IH [OF IHprem(1,2) this IHprem(3), of "out @ ?ps"] next_segment
      have IH: "read_spec dir ss (?m - length ?ps) (out @ ?ps) ?d (read_loop dir newest maxN ss (out @ ?ps) ?d)"
        by simp
      have "s + 1 \<le> last ss" using next_segment later by (simp add: Suc_leI)
      with IH next_segment read(2) show ?thesis
        unfolding loop read_spec_def pending_in_next [OF later read(2)]
        by (auto simp: seg_pending_def cursor_in_Cons max_def)
    qed
  qed
qed

section \<open>Reading is exact\<close>

lemma set_segments [simp]: "set (segments dir) = fst ` set dir"
  by (simp add: segments_def)

lemma segments_sorted: "wf_map dir \<Longrightarrow> sorted_wrt (<) (segments dir)"
  by (simp add: segments_def wf_map_def strict_sorted_iff)

lemma segments_Nil [simp]: "segments dir = [] \<longleftrightarrow> dir = []"
  by (metis length_0_conv length_map length_sort segments_def)

lemma wal_ok_clean:
  assumes "wal_ok w"
  shows "dir_clean (wal_dir w) (segments (wal_dir w))"
proof -
  have "\<exists>b. map_of (wal_dir w) s = Some b \<and> clean b" if "s \<in> fst ` set (wal_dir w)" for s
    using that assms by (force simp: wal_ok_def wf_map_def)
  then show ?thesis by (auto simp: dir_clean_def)
qed

lemma ReadFrom_spec:
  assumes "wal_ok w" "cursor_ok w cur"
  shows "fst (ReadFrom w cur m) = take m (pending w cur) \<and>
    pending w (snd (ReadFrom w cur m)) = drop m (pending w cur) \<and> cursor_ok w (snd (ReadFrom w cur m))"
proof -
  let ?segs = "segments (wal_dir w)"
  have "read_spec (wal_dir w) ?segs m [] cur (read_loop (wal_dir w) (last ?segs) m ?segs [] cur)"
    using read_loop_spec [OF segments_sorted wal_ok_clean [OF assms(1)], of cur "last ?segs" "[]" m] assms
    by (simp add: wal_ok_def cursor_ok_def)
  then show ?thesis
    using assms by (simp add: ReadFrom_def wal_ok_def cursor_ok_def read_spec_def pending_def Let_def)
qed

section \<open>Appending extends the log\<close>

text \<open>The log as \<^verbatim>\<open>Append\<close> leaves it before it looks at the quota.\<close>

definition appended :: "WAL \<Rightarrow> bytes \<Rightarrow> WAL" where
  "appended w p = (let w = append_active (rotate w) (encode_entry p)
     in w\<lparr>wal_activeLen := wal_activeLen w + walHeaderSize + length p\<rparr>)"

lemma wal_Append_appended:
  "small p \<Longrightarrow> wal_Append NoFault w p = enforceQuota None (appended w p)"
  by (simp add: wal_Append_def small_def appended_def encode_entry_def Let_def)

lemma segments_update_old: "s \<in> fst ` set dir \<Longrightarrow> segments (AList.update s v dir) = segments dir"
  by (simp add: segments_def update_keys)

lemma seg_bytes_update: "seg_bytes (AList.update s v dir) t = (if t = s then v else seg_bytes dir t)"
  by (simp add: seg_bytes_def update_conv')

lemma active_in_dir: "wal_ok w \<Longrightarrow> wal_activeSeg w \<in> fst ` set (wal_dir w)"
  using last_in_set [of "segments (wal_dir w)"] by (auto simp: wal_ok_def)

lemma map_of_clean: "wal_ok w \<Longrightarrow> clean (seg_bytes (wal_dir w) s)"
  using map_of_SomeD [of "wal_dir w" s] by (force simp: wal_ok_def seg_bytes_def split: option.splits)

lemma update_clean:
  assumes "wal_ok w" "clean v"
  shows "wf_map (AList.update s v (wal_dir w)) \<and> (\<forall>b \<in> snd ` set (AList.update s v (wal_dir w)). clean b)"
proof
  show wf: "wf_map (AList.update s v (wal_dir w))"
    using assms(1) by (simp add: wal_ok_def wf_map_def distinct_update)
  show "\<forall>b \<in> snd ` set (AList.update s v (wal_dir w)). clean b"
  proof
    fix b
    assume "b \<in> snd ` set (AList.update s v (wal_dir w))"
    then obtain t where "map_of (AList.update s v (wal_dir w)) t = Some b"
      using wf by (force simp: wf_map_def)
    then show "clean b"
      using assms map_of_clean [OF assms(1), of t] by (auto simp: update_conv' seg_bytes_def split: if_splits)
  qed
qed

lemma sorted_segs: "wf_map dir \<Longrightarrow> \<forall>s \<in> fst ` set dir. s \<le> last (segments dir)"
proof -
  have "sorted (segments dir)" by (simp add: segments_def)
  then have "\<forall>s \<in> set (segments dir). s \<le> last (segments dir)"
    by (metis in_set_conv_nth last_conv_nth length_pos_if_in_set less_Suc_eq_le Suc_pred sorted_nth_mono
        diff_Suc_1 diff_less zero_less_one length_greater_0_conv)
  then show ?thesis by simp
qed

lemma segments_update_new:
  assumes "wal_ok w"
  shows "segments (AList.update (Suc (wal_activeSeg w)) v (wal_dir w)) = segments (wal_dir w) @ [Suc (wal_activeSeg w)]"
proof -
  let ?n = "Suc (wal_activeSeg w)"
  have le: "\<forall>s \<in> fst ` set (wal_dir w). s \<le> wal_activeSeg w"
    using assms sorted_segs [of "wal_dir w"]
    by (simp add: wal_ok_def)
  then have "?n \<notin> fst ` set (wal_dir w)" by auto
  then have "mset (segments (AList.update ?n v (wal_dir w))) = mset (segments (wal_dir w) @ [?n])"
    by (simp add: segments_def update_keys)
  moreover have "sorted (segments (wal_dir w) @ [?n])"
    using le by (auto simp: sorted_append segments_def intro: le_SucI)
  moreover have "sorted (segments (AList.update ?n v (wal_dir w)))" by (simp add: segments_def)
  ultimately show ?thesis by (metis properties_for_sort)
qed

lemma rotate_ok:
  assumes "wal_ok w"
  shows "wal_ok (rotate w) \<and>
    (\<forall>cur. cursor_ok w cur \<longrightarrow> cursor_ok (rotate w) cur \<and> pending (rotate w) cur = pending w cur)"
proof (cases "wal_activeLen w \<ge> walSegmentMaxBytes")
  case False
  with assms show ?thesis by (simp add: rotate_def)
next
  case True
  let ?n = "Suc (wal_activeSeg w)" and ?dir = "AList.update (Suc (wal_activeSeg w)) [] (wal_dir w)"
  have segs: "segments ?dir = segments (wal_dir w) @ [?n]" using assms by (rule segments_update_new)
  have le: "\<forall>s \<in> fst ` set (wal_dir w). s \<le> wal_activeSeg w"
    using assms sorted_segs by (simp add: wal_ok_def)
  then have new: "map_of (wal_dir w) ?n = None" by (auto simp: map_of_eq_None_iff)
  have rot: "rotate w = w\<lparr>wal_activeSeg := ?n, wal_dir := ?dir, wal_activeLen := 0\<rparr>"
    using True new by (simp add: rotate_def openActive_def Let_def seg_bytes_update)
  have ok: "wal_ok (rotate w)"
    using update_clean [OF assms clean_Nil, of ?n] by (simp add: wal_ok_def rot segs seg_bytes_update)
  have "cursor_ok (rotate w) cur \<and> pending (rotate w) cur = pending w cur" if c: "cursor_ok w cur" for cur
  proof -
    have cs: "cur_Segment cur \<le> wal_activeSeg w" using c assms by (simp add: cursor_ok_def wal_ok_def)
    have same: "seg_bytes ?dir s = seg_bytes (wal_dir w) s" if "s \<le> wal_activeSeg w" for s
      using that by (simp add: seg_bytes_update)
    have "cursor_ok (rotate w) cur"
      using c cs same [OF cs] by (auto simp: cursor_ok_def cursor_in_def rot segs)
    moreover have "concat (map (seg_pending ?dir cur) (segments (wal_dir w)))
        = concat (map (seg_pending (wal_dir w) cur) (segments (wal_dir w)))"
      using le same by (intro arg_cong [where f = concat] map_cong) (auto simp: seg_pending_def)
    moreover have "seg_pending ?dir cur ?n = []" using cs by (simp add: seg_pending_def seg_bytes_update)
    ultimately show ?thesis by (simp add: pending_def pending_in_def rot segs)
  qed
  with ok show ?thesis by blast
qed

lemma pending_append_last:
  assumes "segments (wal_dir w) = ss @ [a]" "segments (wal_dir w') = ss @ [a]"
    and "concat (map (seg_pending (wal_dir w') cur) ss) = concat (map (seg_pending (wal_dir w) cur) ss)"
    and "seg_pending (wal_dir w') cur a = seg_pending (wal_dir w) cur a @ ps"
  shows "pending w' cur = pending w cur @ ps"
  using assms by (simp add: pending_def pending_in_def)

lemma append_active_ok:
  assumes "wal_ok w" "small p"
  defines "w' \<equiv> (append_active w (encode_entry p))\<lparr>wal_activeLen := wal_activeLen w + walHeaderSize + length p\<rparr>"
  shows "wal_ok w' \<and> (\<forall>cur. cursor_ok w cur \<longrightarrow> cursor_ok w' cur \<and> pending w' cur = pending w cur @ [p])"
proof -
  let ?a = "wal_activeSeg w"
  let ?b = "seg_bytes (wal_dir w) ?a"
  let ?dir = "AList.update ?a (?b @ encode_entry p) (wal_dir w)"
  have segs: "segments ?dir = segments (wal_dir w)"
    using active_in_dir [OF assms(1)] by (rule segments_update_old)
  have cl: "clean ?b" using map_of_clean [OF assms(1)] .
  have w': "w' = w\<lparr>wal_dir := ?dir, wal_activeLen := wal_activeLen w + walHeaderSize + length p\<rparr>"
    by (simp add: w'_def append_active_def)
  have "?dir \<noteq> []" using segs assms(1) by (metis segments_Nil wal_ok_def)
  moreover have "wal_activeSeg w = last (segments ?dir)" and "wal_activeLen w = length ?b"
    unfolding segs using assms(1) unfolding wal_ok_def by blast+
  ultimately have ok: "wal_ok w'"
    using update_clean [OF assms(1) decode_append_entry(2) [OF cl assms(2)], of ?a]
    unfolding wal_ok_def w' by (simp add: seg_bytes_update)
  have sne: "segments (wal_dir w) \<noteq> []" using assms(1) by (simp add: wal_ok_def)
  have split: "segments (wal_dir w) = butlast (segments (wal_dir w)) @ [?a]"
    using assms(1) sne by (simp add: wal_ok_def)
  have notin: "?a \<notin> set (butlast (segments (wal_dir w)))"
    using segments_sorted [of "wal_dir w"] assms(1) split
    by (metis append_Nil2 less_irrefl list.set_intros(1) sorted_wrt_append wal_ok_def)
  have "cursor_ok w' cur \<and> pending w' cur = pending w cur @ [p]" if c: "cursor_ok w cur" for cur
  proof -
    have cs: "cur_Segment cur \<le> ?a" using c assms(1) by (simp add: cursor_ok_def wal_ok_def)
    have bd: "boundary ?b (cur_Offset cur)" if "cur_Segment cur = ?a"
      using c that by (auto simp: cursor_ok_def cursor_in_def)
    have "cursor_ok w' cur"
      using c bd boundary_append [OF cl assms(2)] active_in_dir [OF assms(1)]
      by (auto simp: cursor_ok_def cursor_in_def w' segs seg_bytes_update)
    moreover have "seg_pending ?dir cur ?a = seg_pending (wal_dir w) cur ?a @ [p]"
    proof (cases "cur_Segment cur = ?a")
      case True
      have "clean (drop (cur_Offset cur) ?b)"
        using boundary_drop [OF cl bd [OF True]] cl by (metis clean_def clean_iff in_set_dropD)
      with True boundary_append [OF cl assms(2) bd [OF True]] assms(2) show ?thesis
        by (simp add: seg_pending_def seg_bytes_update decode_append_entry)
    next
      case False
      with cs cl assms(2) show ?thesis by (simp add: seg_pending_def seg_bytes_update decode_append_entry)
    qed
    moreover have "concat (map (seg_pending ?dir cur) (butlast (segments (wal_dir w))))
        = concat (map (seg_pending (wal_dir w) cur) (butlast (segments (wal_dir w))))"
      using notin by (intro arg_cong [where f = concat] map_cong) (auto simp: seg_pending_def seg_bytes_update)
    ultimately show ?thesis
      using pending_append_last [OF split, of w' cur "[p]"] split by (simp add: w' segs)
  qed
  with ok show ?thesis by blast
qed

lemma appended_ok:
  assumes "wal_ok w" "small p"
  shows "wal_ok (appended w p) \<and>
    (\<forall>cur. cursor_ok w cur \<longrightarrow> cursor_ok (appended w p) cur \<and> pending (appended w p) cur = pending w cur @ [p])"
  using rotate_ok [OF assms(1)] append_active_ok [OF conjunct1 [OF rotate_ok [OF assms(1)]] assms(2)]
  by (simp add: appended_def Let_def append_active_def)

text \<open>No segment is dropped: there is no quota, or the log with the new record is within it.\<close>

definition within_quota :: "WAL \<Rightarrow> bytes \<Rightarrow> bool" where
  "within_quota w p \<longleftrightarrow> wal_maxBytes w \<le> 0 \<or> dir_size (wal_dir (appended w p)) \<le> wal_maxBytes w"

lemma appended_maxBytes [simp]: "wal_maxBytes (appended w p) = wal_maxBytes w"
  by (simp add: appended_def append_active_def rotate_def openActive_def Let_def)

lemma drop_oldest_within: "tot \<le> maxB \<Longrightarrow> drop_oldest maxB act f segs tot dir = (None, dir)"
  by (cases segs) auto

lemma wal_Append_within:
  assumes "small p" "within_quota w p"
  shows "wal_Append NoFault w p = (None, appended w p)"
  using assms by (auto simp: wal_Append_appended within_quota_def enforceQuota_def drop_oldest_within Let_def)

section \<open>Reopening\<close>

definition reopen :: "WAL \<Rightarrow> WAL" where
  "reopen w = OpenWAL (wal_dir w) (wal_cursor w) (wal_maxBytes w)"

lemma reopen_ok: "wal_ok w \<Longrightarrow> reopen w = w"
  using active_in_dir [of w]
  by (auto simp: reopen_def OpenWAL_def openActive_def Let_def wal_ok_def map_of_eq_None_iff intro!: WAL.equality)

lemma OpenWAL_fresh: "wal_ok (OpenWAL [] None mb) \<and> cursor_ok (OpenWAL [] None mb) zero_cursor \<and>
    pending (OpenWAL [] None mb) zero_cursor = []"
  by (simp add: OpenWAL_def openActive_def Let_def wal_ok_def cursor_ok_def cursor_in_def segments_def wf_map_def
      seg_bytes_def zero_cursor_def pending_def pending_in_def seg_pending_def)

section \<open>A log with a persistent cursor, as its clients see it\<close>

record ('w, 'c, 'e) delivery =
  dl_log :: 'w
  dl_cursor :: 'c
  dl_appended :: "'e list"
  dl_delivered :: "'e list"

text \<open>
  What can happen to a log and its consumer: an append; a batch of at most \<open>m\<close> records read
  and delivered, whose cursor is then saved or not; a batch read whose delivery failed; a
  restart, which reopens the log and loads the saved cursor.
\<close>

datatype 'e log_op = LAppend 'e | LDelivered nat bool | LUndelivered nat | LRestart

locale durable_log =
  fixes ok :: "'w \<Rightarrow> bool" and cok :: "'w \<Rightarrow> 'c \<Rightarrow> bool" and pend :: "'w \<Rightarrow> 'c \<Rightarrow> 'e list"
    and app :: "'w \<Rightarrow> 'e \<Rightarrow> 'w" and fits :: "'w \<Rightarrow> 'e \<Rightarrow> bool"
    and rd :: "'w \<Rightarrow> 'c \<Rightarrow> nat \<Rightarrow> 'e list \<times> 'c"
    and save :: "'w \<Rightarrow> 'c \<Rightarrow> 'w" and load :: "'w \<Rightarrow> 'c" and reop :: "'w \<Rightarrow> 'w"
  assumes app_law: "ok w \<Longrightarrow> fits w e \<Longrightarrow> ok (app w e) \<and> load (app w e) = load w"
    and app_pend: "ok w \<Longrightarrow> fits w e \<Longrightarrow> cok w c \<Longrightarrow> cok (app w e) c \<and> pend (app w e) c = pend w c @ [e]"
    and rd_law: "ok w \<Longrightarrow> cok w c \<Longrightarrow> fst (rd w c m) = take m (pend w c) \<and>
          pend w (snd (rd w c m)) = drop m (pend w c) \<and> cok w (snd (rd w c m))"
    and save_law: "ok w \<Longrightarrow> ok (save w c) \<and> load (save w c) = c"
    and save_pend: "ok w \<Longrightarrow> cok (save w c) d = cok w d \<and> pend (save w c) d = pend w d"
    and reop_law: "ok w \<Longrightarrow> reop w = w"
begin

fun log_step :: "('w, 'c, 'e) delivery \<Rightarrow> 'e log_op \<Rightarrow> ('w, 'c, 'e) delivery" where
  "log_step s (LAppend e) = s\<lparr>dl_log := app (dl_log s) e, dl_appended := dl_appended s @ [e]\<rparr>"
| "log_step s (LDelivered m saved) =
     (let (es, c) = rd (dl_log s) (dl_cursor s) m
      in s\<lparr>dl_log := (if saved then save (dl_log s) c else dl_log s), dl_cursor := c,
           dl_delivered := dl_delivered s @ es\<rparr>)"
| "log_step s (LUndelivered m) = s"
| "log_step s LRestart = s\<lparr>dl_log := reop (dl_log s), dl_cursor := load (reop (dl_log s))\<rparr>"

fun op_fits :: "('w, 'c, 'e) delivery \<Rightarrow> 'e log_op \<Rightarrow> bool" where
  "op_fits s (LAppend e) = fits (dl_log s) e"
| "op_fits s _ = True"

fun all_fit :: "('w, 'c, 'e) delivery \<Rightarrow> 'e log_op list \<Rightarrow> bool" where
  "all_fit s [] = True"
| "all_fit s (q # qs) \<longleftrightarrow> op_fits s q \<and> all_fit (log_step s q) qs"

definition run :: "('w, 'c, 'e) delivery \<Rightarrow> 'e log_op list \<Rightarrow> ('w, 'c, 'e) delivery" where
  "run s qs = foldl log_step s qs"

text \<open>
  The reader stands at record \<open>k\<close>, the saved cursor at an earlier record \<open>j\<close>, and
  everything before \<open>k\<close> was delivered.
\<close>

definition positions :: "('w, 'c, 'e) delivery \<Rightarrow> nat \<Rightarrow> nat \<Rightarrow> bool" where
  "positions s j k \<longleftrightarrow> ok (dl_log s) \<and> cok (dl_log s) (dl_cursor s) \<and> cok (dl_log s) (load (dl_log s)) \<and>
     j \<le> k \<and> k \<le> length (dl_appended s) \<and>
     pend (dl_log s) (dl_cursor s) = drop k (dl_appended s) \<and>
     pend (dl_log s) (load (dl_log s)) = drop j (dl_appended s) \<and>
     set (take k (dl_appended s)) \<subseteq> set (dl_delivered s)"

definition consistent :: "('w, 'c, 'e) delivery \<Rightarrow> bool" where
  "consistent s \<longleftrightarrow> (\<exists>j k. positions s j k)"

lemma positions_append:
  assumes "positions s j k" "fits (dl_log s) e"
  shows "positions (log_step s (LAppend e)) j k"
proof -
  from assms(1) have ok: "ok (dl_log s)" "cok (dl_log s) (dl_cursor s)" "cok (dl_log s) (load (dl_log s))"
    by (auto simp: positions_def)
  from app_law [OF ok(1) assms(2)] app_pend [OF ok(1) assms(2) ok(2)] app_pend [OF ok(1) assms(2) ok(3)] assms(1)
  show ?thesis by (simp add: positions_def)
qed

lemma positions_deliver:
  fixes m :: nat
  assumes "positions s j k"
  defines "k' \<equiv> min (k + m) (length (dl_appended s))"
  shows "positions (log_step s (LDelivered m saved)) (if saved then k' else j) k'"
proof -
  from assms(1) have ok: "ok (dl_log s)" "cok (dl_log s) (dl_cursor s)" by (auto simp: positions_def)
  obtain es c where rd: "rd (dl_log s) (dl_cursor s) m = (es, c)" by (cases "rd (dl_log s) (dl_cursor s) m")
  from rd_law [OF ok, of m] rd assms(1)
  have es: "es = take m (drop k (dl_appended s))" and c: "pend (dl_log s) c = drop m (drop k (dl_appended s))" "cok (dl_log s) c"
    by (auto simp: positions_def)
  have "drop m (drop k (dl_appended s)) = drop k' (dl_appended s)"
    by (cases "k + m \<le> length (dl_appended s)") (simp_all add: k'_def add.commute)
  moreover have "take k' (dl_appended s) = take k (dl_appended s) @ es"
    unfolding es k'_def by (cases "k + m \<le> length (dl_appended s)") (simp_all add: take_add)
  moreover have "j \<le> k'" using assms by (auto simp: k'_def positions_def)
  ultimately show ?thesis
    using assms c rd save_law [OF ok(1), of c] save_pend [OF ok(1), of c]
    by (cases saved) (auto simp: positions_def)
qed

lemma positions_restart:
  assumes "positions s j k"
  shows "positions (log_step s LRestart) j j"
proof -
  have "set (take j (dl_appended s)) \<subseteq> set (dl_delivered s)"
    using assms set_take_subset_set_take [of j k "dl_appended s"] by (auto simp: positions_def)
  with assms show ?thesis by (simp add: positions_def reop_law)
qed

lemma consistent_step: "consistent s \<Longrightarrow> op_fits s q \<Longrightarrow> consistent (log_step s q)"
  unfolding consistent_def
  by (cases q) (auto intro: positions_append positions_deliver positions_restart simp del: log_step.simps(1,2,4))

lemma consistent_run: "consistent s \<Longrightarrow> all_fit s qs \<Longrightarrow> consistent (run s qs)"
  unfolding run_def by (induction qs arbitrary: s) (auto simp: consistent_step)

lemma at_least_once:
  assumes "consistent s" "all_fit s qs"
  shows "set (dl_appended (run s qs)) \<subseteq>
    set (dl_delivered (run s qs)) \<union> set (pend (dl_log (run s qs)) (load (dl_log (run s qs))))"
proof -
  let ?t = "run s qs"
  from consistent_run [OF assms] obtain j k where p: "positions ?t j k" by (auto simp: consistent_def)
  have "set (dl_appended ?t) = set (take k (dl_appended ?t)) \<union> set (drop k (dl_appended ?t))"
    by (metis append_take_drop_id set_append)
  moreover have "set (drop k (dl_appended ?t)) \<subseteq> set (drop j (dl_appended ?t))"
    using p by (intro set_drop_subset_set_drop) (simp add: positions_def)
  ultimately show ?thesis using p unfolding positions_def by (metis (no_types, lifting) Un_mono)
qed

end

definition wal_app :: "WAL \<Rightarrow> bytes \<Rightarrow> WAL" where
  "wal_app w p = snd (wal_Append NoFault w p)"

definition wal_fits :: "WAL \<Rightarrow> bytes \<Rightarrow> bool" where
  "wal_fits w p \<longleftrightarrow> small p \<and> within_quota w p"

lemma appended_cursor [simp]: "wal_cursor (appended w p) = wal_cursor w"
  by (simp add: appended_def append_active_def rotate_def openActive_def Let_def)

lemma SaveCursor_keeps [simp]:
  "wal_ok (SaveCursor w c) = wal_ok w" "cursor_ok (SaveCursor w c) d = cursor_ok w d"
  "pending (SaveCursor w c) d = pending w d" "LoadCursor (SaveCursor w c) = c"
  by (simp_all add: SaveCursor_def wal_ok_def cursor_ok_def pending_def LoadCursor_def)

interpretation walog: durable_log wal_ok cursor_ok pending wal_app wal_fits ReadFrom SaveCursor LoadCursor reopen
proof
  fix w p
  assume "wal_ok w" "wal_fits w p"
  then show "wal_ok (wal_app w p) \<and> LoadCursor (wal_app w p) = LoadCursor w"
    by (auto simp: wal_app_def wal_fits_def wal_Append_within appended_ok LoadCursor_def)
next
  fix w p c
  assume "wal_ok w" "wal_fits w p" "cursor_ok w c"
  then show "cursor_ok (wal_app w p) c \<and> pending (wal_app w p) c = pending w c @ [p]"
    by (auto simp: wal_app_def wal_fits_def wal_Append_within appended_ok)
qed (auto simp: ReadFrom_spec reopen_ok)

section \<open>The quota\<close>

lemma segments_delete:
  assumes "wf_map dir" "segments dir = s # ss"
  shows "segments (AList.delete s dir) = ss"
proof -
  have d: "distinct (s # ss)" "sorted (s # ss)"
    using assms by (metis distinct_sort segments_def wf_map_def, metis assms(2) segments_def sorted_sort)
  have m: "mset (map fst dir) = mset (s # ss)" using assms(2) by (metis mset_sort segments_def)
  have "mset (map fst (AList.delete s dir)) = mset (removeAll s (map fst dir))" by (simp add: delete_keys)
  also have "\<dots> = filter_mset (\<lambda>x. x \<noteq> s) (mset (map fst dir))"
    by (simp add: removeAll_filter_not_eq eq_commute [of s])
  also have "\<dots> = mset (removeAll s (s # ss))"
    unfolding m by (simp only: removeAll_filter_not_eq mset_filter eq_commute [of s])
  also have "\<dots> = mset ss" using d(1) by simp
  finally have "mset (map fst (AList.delete s dir)) = mset ss" .
  then show ?thesis unfolding segments_def using d(2) by (metis properties_for_sort sorted_simps(2) sorted_sort mset_sort)
qed

lemma seg_bytes_delete: "t \<noteq> s \<Longrightarrow> seg_bytes (AList.delete s dir) t = seg_bytes dir t"
  by (simp add: seg_bytes_def delete_conv')

lemma dir_size_delete:
  assumes "wf_map dir" "segments dir = s # ss"
  shows "dir_size (AList.delete s dir) = dir_size dir - int (length (seg_bytes dir s))"
proof -
  have "s \<notin> set ss" using segments_sorted [OF assms(1)] assms(2) by auto
  then have "map (\<lambda>t. int (length (seg_bytes (AList.delete s dir) t))) ss = map (\<lambda>t. int (length (seg_bytes dir t))) ss"
    by (intro map_cong refl) (metis seg_bytes_delete)
  then show ?thesis by (simp add: dir_size_def segments_delete [OF assms] assms(2) del: map_eq_conv)
qed

text \<open>
  What the quota leaves of a directory: its newest segments, unchanged, within the quota
  unless only the active segment is left.
\<close>

definition quota_kept :: "int \<Rightarrow> nat \<Rightarrow> (nat \<times> bytes) list \<Rightarrow> (nat \<times> bytes) list \<Rightarrow> bool" where
  "quota_kept maxB act dir dir' \<longleftrightarrow>
     (\<exists>k. segments dir' = drop k (segments dir)) \<and> wf_map dir' \<and>
     (\<forall>s \<in> set (segments dir'). seg_bytes dir' s = seg_bytes dir s) \<and> act \<in> set (segments dir') \<and>
     (dir_size dir' \<le> maxB \<or> segments dir' = [act])"

lemma drop_oldest_kept:
  assumes "wf_map dir" "segments dir = segs" "segs \<noteq> []" "act = last segs"
  shows "\<exists>dir'. drop_oldest maxB act None segs (dir_size dir) dir = (None, dir') \<and> quota_kept maxB act dir dir'"
  using assms
proof (induction segs arbitrary: dir)
  case (Cons s ss)
  have sorted: "sorted_wrt (<) (s # ss)" using segments_sorted [OF Cons.prems(1)] Cons.prems(2) by simp
  have act: "act \<in> set (s # ss)" using Cons.prems(4) by (metis last_in_set list.distinct(1))
  show ?case
  proof (cases "dir_size dir \<le> maxB \<or> s = act")
    case True
    have "s = act \<Longrightarrow> ss = []" using sorted Cons.prems(4) last_in_set [of ss] by (cases ss) auto
    with True have "quota_kept maxB act dir dir"
      using act Cons.prems(1,2) unfolding quota_kept_def
      by (intro conjI exI [of _ 0]) (auto simp del: set_segments)
    with True show ?thesis by auto
  next
    case False
    let ?d = "AList.delete s dir"
    have ss: "ss \<noteq> []" "act = last ss" using False Cons.prems(4) by auto
    have wf: "wf_map ?d" using Cons.prems(1) by (simp add: wf_map_def distinct_delete)
    have seg: "segments ?d = ss" using segments_delete [OF Cons.prems(1,2)] .
    from Cons.IH [OF wf seg ss] obtain dir' where
      d': "drop_oldest maxB act None ss (dir_size ?d) ?d = (None, dir')" "quota_kept maxB act ?d dir'" by blast
    have "quota_kept maxB act dir dir'"
    proof -
      from d'(2) obtain k where k: "segments dir' = drop k ss" by (auto simp: quota_kept_def seg)
      then have "s \<notin> set (segments dir')" using sorted by (auto dest: in_set_dropD simp del: set_segments)
      then have same: "\<forall>t \<in> set (segments dir'). seg_bytes ?d t = seg_bytes dir t" by (metis seg_bytes_delete)
      have "segments dir' = drop (Suc k) (segments dir)" using k Cons.prems(2) by simp
      then have "\<exists>k. segments dir' = drop k (segments dir)" by blast
      with d'(2) same show ?thesis unfolding quota_kept_def by (simp del: set_segments)
    qed
    with d'(1) False show ?thesis by (simp add: dir_size_delete [OF Cons.prems(1,2)])
  qed
qed simp

section \<open>Properties\<close>


definition two_segments :: WAL where
  "two_segments = \<lparr>wal_dir = [(3, encode_all [[7]]), (1, encode_all [[1], [2, 3]])], wal_maxBytes = 0,
     wal_activeSeg = 3, wal_activeLen = length (encode_all [[7]]), wal_cursor = None\<rparr>"

lemma clean_encode_all: "\<forall>p \<in> set ps. small p \<Longrightarrow> clean (encode_all ps)"
  using clean_iff by blast

lemma two_segments_ok: "wal_ok two_segments"
  using clean_encode_all [of "[[7]]"] clean_encode_all [of "[[1], [2, 3]]"]
  by (simp add: wal_ok_def two_segments_def segments_def wf_map_def seg_bytes_def small_def walMaxEntrySize_def
      del: encode_all_simps)

lemma two_segments_pending: "pending two_segments zero_cursor = [[1], [2, 3], [7]]"
proof -
  have "decode (encode_all [[7]]) = [[7]]" "decode (encode_all [[1], [2, 3]]) = [[1], [2, 3]]"
    by (rule decode_encode_all; simp add: small_def walMaxEntrySize_def)+
  then show ?thesis
    by (simp add: pending_def pending_in_def two_segments_def segments_def seg_pending_def seg_bytes_def zero_cursor_def
        del: encode_all_simps)
qed

lemma two_segments_cursor: "cursor_ok two_segments zero_cursor"
  by (simp add: cursor_ok_def cursor_in_def zero_cursor_def two_segments_def segments_def)


lemma append_all_ok:
  assumes "wal_ok w" "wal_maxBytes w \<le> 0" "\<forall>p \<in> set ps. small p" "cursor_ok w cur"
  shows "wal_ok (foldl wal_app w ps) \<and> cursor_ok (foldl wal_app w ps) cur \<and>
    pending (foldl wal_app w ps) cur = pending w cur @ ps"
  using assms
proof (induction ps arbitrary: w)
  case (Cons p ps)
  then have "small p" "within_quota w p" by (simp_all add: within_quota_def)
  then have "wal_app w p = appended w p" by (simp add: wal_app_def wal_Append_within)
  with Cons appended_ok [OF Cons.prems(1) \<open>small p\<close>] show ?case by simp
qed simp

text \<open>
  Records appended to a fresh log are read back unchanged and in order, also by a
  process that reopens the directory, however many segment files they spread over.
\<close>

theorem wal_append_read_roundtrip:
  assumes "maxBytes \<le> 0" "\<forall>p \<in> set ps. length p \<le> walMaxEntrySize"
  shows "fst (ReadFrom (reopen (foldl wal_app (OpenWAL [] None maxBytes) ps)) zero_cursor (length ps)) = ps"
proof -
  let ?w = "OpenWAL [] None maxBytes"
  have "wal_maxBytes ?w \<le> 0" using assms(1) by (simp add: OpenWAL_def openActive_def Let_def)
  then have "wal_ok (foldl wal_app ?w ps)" "cursor_ok (foldl wal_app ?w ps) zero_cursor"
    "pending (foldl wal_app ?w ps) zero_cursor = ps"
    using append_all_ok [of ?w ps zero_cursor] OpenWAL_fresh [of maxBytes] assms(2) by (auto simp: small_def)
  then show ?thesis using ReadFrom_spec [of "foldl wal_app ?w ps" zero_cursor "length ps"] by (simp add: reopen_ok)
qed

theorem wal_append_read_roundtrip_witness:
  "fst (ReadFrom (reopen (foldl wal_app (OpenWAL [] None 0) [[1, 2], [], [255]])) zero_cursor 3) = [[1, 2], [], [255]]"
  using wal_append_read_roundtrip [of 0 "[[1, 2], [], [255]]"] by (simp add: walMaxEntrySize_def numeral_3_eq_3)

text \<open>
  An append that succeeds leaves the log within its quota or with the active segment
  only; what the quota removes are whole segments, the oldest ones, never the active one, and
  the segments that stay keep their bytes.
\<close>

theorem wal_quota_drops_oldest:
  assumes "wal_ok w" "length p \<le> walMaxEntrySize" "0 < wal_maxBytes w"
  shows "fst (wal_Append NoFault w p) = None \<and>
    quota_kept (wal_maxBytes w) (wal_activeSeg (appended w p)) (wal_dir (appended w p))
      (wal_dir (snd (wal_Append NoFault w p)))"
proof -
  let ?a = "appended w p"
  have sm: "small p" using assms(2) by (simp add: small_def)
  have ok: "wal_ok ?a" using appended_ok [OF assms(1) sm] by blast
  then have wf: "wf_map (wal_dir ?a)" and ne: "segments (wal_dir ?a) \<noteq> []"
    and act: "wal_activeSeg ?a = last (segments (wal_dir ?a))" by (auto simp: wal_ok_def)
  obtain dir' where d: "drop_oldest (wal_maxBytes w) (wal_activeSeg ?a) None (segments (wal_dir ?a))
      (dir_size (wal_dir ?a)) (wal_dir ?a) = (None, dir')" "quota_kept (wal_maxBytes w) (wal_activeSeg ?a) (wal_dir ?a) dir'"
    using drop_oldest_kept [OF wf refl ne act] by blast
  show ?thesis
  proof (cases "length (segments (wal_dir ?a)) \<le> 1")
    case True
    with ne have one: "segments (wal_dir ?a) = [wal_activeSeg ?a]"
      by (cases "segments (wal_dir ?a)") (auto simp: act)
    with wf have "quota_kept (wal_maxBytes w) (wal_activeSeg ?a) (wal_dir ?a) (wal_dir ?a)"
      unfolding quota_kept_def by (intro conjI exI [of _ 0]) (auto simp del: set_segments)
    with True assms(3) show ?thesis by (simp add: wal_Append_appended [OF sm] enforceQuota_def Let_def)
  next
    case False
    with d assms(3) show ?thesis by (simp add: wal_Append_appended [OF sm] enforceQuota_def Let_def)
  qed
qed

theorem wal_quota_drops_oldest_witness:
  "fst (wal_Append NoFault (two_segments\<lparr>wal_maxBytes := 20\<rparr>) [5]) = None"
proof -
  have "wal_ok (two_segments\<lparr>wal_maxBytes := 20\<rparr>)"
    using two_segments_ok by (simp add: wal_ok_def two_segments_def)
  from wal_quota_drops_oldest [OF this, of "[5]"] show ?thesis by (simp add: walMaxEntrySize_def two_segments_def)
qed

section \<open>Segment names round-trip\<close>

lemma digits_value_zeros: "digits_value 0 (replicate k (CHR ''0'')) = Some 0"
  by (induction k) (simp_all add: digit_value_def)

text \<open>
  The name a segment is created under is the name recovery recognises, and it gives the
  segment number back, for six digits and more.
\<close>

theorem segment_name_roundtrip:
  assumes "int n < 2 ^ 63"
  shows "parseSegName (segName n) = Some (int n)"
proof -
  let ?z = "replicate (6 - length (dec_digits n)) (CHR ''0'')"
  let ?d = "?z @ dec_digits n"
  have sub: "take (length (segName n) - 8) (drop 4 (segName n)) = ?d"
    by (simp add: segName_def)
  have "go_HasPrefix (segName n) ''seg-''" by (simp add: segName_def go_HasPrefix_append)
  moreover have "go_HasSuffix (segName n) ''.log''"
    unfolding go_HasSuffix_append segName_def by (metis append_assoc)
  moreover have "digits_value 0 ?d = Some n"
    by (simp add: digits_value_append digits_value_zeros digits_value_dec)
  moreover have "hd ?d \<noteq> CHR ''-''" "hd ?d \<noteq> CHR ''+''" "?d \<noteq> []"
    using dec_digits_no_sign [OF hd_in_set [OF dec_digits_ne [of n]]] by (auto simp: hd_append)
  ultimately show ?thesis
    using assms unfolding parseSegName_def sub by (simp add: go_Atoi_def Let_def)
qed

theorem segment_name_roundtrip_witness: "parseSegName (segName 1234567) = Some 1234567"
  using segment_name_roundtrip [of 1234567] by simp

section \<open>Where the log loses records\<close>

lemma read_entries_append:
  assumes "\<forall>p \<in> set ps. small p" "length ps \<le> m"
  shows "read_entries m (encode_all ps @ rest) off =
    (let (out, off', bad) = read_entries (m - length ps) rest (off + length (encode_all ps)) in (ps @ out, off', bad))"
  using assms
proof (induction ps arbitrary: m off)
  case (Cons p ps)
  then obtain k where m: "m = Suc k" by (cases m) auto
  with Cons show ?case
    by (simp add: read_entries_entry case_prod_unfold Let_def add.assoc del: read_entries.simps)
qed (simp add: case_prod_unfold)

text \<open>
  A record whose payload was cut off by a crash hides every record appended to the
  same segment after the restart: reopening appends behind the torn bytes, so a reader takes
  the following record's bytes for the missing payload and stops there, unless a checksum
  collision occurs.
\<close>

theorem torn_record_hides_later:
  assumes "\<forall>p \<in> set ps. small p" "small q" "j < length q"
    and "length q \<le> j + length later \<Longrightarrow> crc32 (take j q @ take (length q - j) later) \<noteq> crc32 q"
    and "length ps < m"
  shows "fst (read_entries m (encode_all ps @ (wal_header q @ take j q) @ later) off) = ps"
proof -
  obtain k where k: "m - length ps = Suc k" using assms(5) by (metis Suc_diff_Suc)
  let ?rest = "(wal_header q @ take j q) @ later"
  have h: "read_header ?rest = put_uint32 (word_of_nat (length q)) @ put_uint32 (crc32 q)"
    by (simp add: read_header_def wal_header_def walHeaderSize_def)
  have d: "drop walHeaderSize ?rest = take j q @ later" by simp
  have ne: "?rest \<noteq> []" by (metis append_is_Nil_conv length_0_conv length_wal_header walHeaderSize_def zero_neq_numeral)
  have tk: "take (length q) (take j q @ later) = take j q @ take (length q - j) later"
    using assms(3) by simp
  have "fst (read_entries (Suc k) ?rest o') = []" for o'
    using assms(2-4) ne unfolding read_entries.simps h d
    by (auto simp: small_length_word tk Let_def min_def)
  then show ?thesis using assms(1,5) k by (simp add: read_entries_append case_prod_unfold Let_def)
qed

theorem torn_record_hides_later_witness:
  "fst (read_entries 9 (encode_all [[5]] @ (wal_header (replicate 100 1) @ take 1 (replicate 100 1)) @ encode_entry [9]) 0)
     = [[5]]"
  by (rule torn_record_hides_later) (simp_all add: small_def walMaxEntrySize_def walHeaderSize_def)

text \<open>
  A header cut off within its leading zero bytes is not recognised as incomplete. The
  reader pads it with zeros, takes it for an empty record with a valid checksum, and moves
  its cursor behind the end of the file.
\<close>

theorem torn_header_is_phantom:
  assumes "0 < k" "k \<le> walHeaderSize"
  shows "read_entries (Suc m) (replicate k 0) off = ([[]], off + walHeaderSize, False)"
proof -
  have h: "read_header (replicate k 0) = replicate 8 0"
    using assms by (simp add: read_header_def walHeaderSize_def replicate_add [symmetric])
  have z: "get_uint32 (replicate 4 0) = 0" by (simp add: get_uint32_def be_value_def numeral_nat)
  have c: "crc32 [] = 0" by (simp add: crc32_def)
  have "read_entries m [] o' = ([], o', False)" for o' by (cases m) auto
  then show ?thesis using assms by (simp add: h z c Let_def)
qed

theorem torn_header_is_phantom_witness:
  "read_entries 1 (take 1 (wal_header [65])) 0 = ([[]], 8, False)"
proof -
  have "take 1 (wal_header [65]) = replicate 1 0"
    by (simp add: wal_header_def put_uint32_def be_bytes_4)
  with torn_header_is_phantom [of 1 0 0] show ?thesis by (simp add: walHeaderSize_def del: read_entries.simps)
qed

text \<open>
  After the quota removed the segment a cursor points into, the next read applies
  the cursor's byte offset to the following segment. When that segment is no longer than the
  offset, and not the newest, all its records are skipped without being read.
\<close>

theorem dropped_cursor_skips_segment:
  assumes "segments (wal_dir w) = s # ss" "ss \<noteq> []" "s < last ss" "map_of (wal_dir w) s = Some b"
    and "cur_Segment cur < s" "length b \<le> cur_Offset cur" "0 < m"
  shows "ReadFrom w cur m = ReadFrom w \<lparr>cur_Segment = Suc s, cur_Offset = 0\<rparr> m"
proof -
  obtain k where "m = Suc k" using assms(7) by (cases m) auto
  then have "readSegment (wal_dir w) s (cur_Offset cur) m = ([], cur_Offset cur, False)"
    using assms(4,6) by (simp add: readSegment_def)
  with assms show ?thesis by (auto simp: ReadFrom_def Let_def)
qed

theorem dropped_cursor_skips_segment_witness:
  "fst (ReadFrom two_segments \<lparr>cur_Segment = 0, cur_Offset = 100\<rparr> 9) = [[7]]"
proof -
  have len: "length (encode_all [[1], [2, 3]]) = 19" by (simp add: walHeaderSize_def)
  have "ReadFrom two_segments \<lparr>cur_Segment = 0, cur_Offset = 100\<rparr> 9 =
      ReadFrom two_segments \<lparr>cur_Segment = Suc 1, cur_Offset = 0\<rparr> 9"
    by (rule dropped_cursor_skips_segment [of _ 1 "[3]" "encode_all [[1], [2, 3]]"])
      (use len in \<open>simp_all add: two_segments_def segments_def del: encode_all_simps\<close>)
  moreover have "cursor_ok two_segments \<lparr>cur_Segment = Suc 1, cur_Offset = 0\<rparr>"
    by (simp add: cursor_ok_def cursor_in_def two_segments_def segments_def)
  moreover have "decode (encode_all [[7]]) = [[7]]"
    by (rule decode_encode_all) (simp add: small_def walMaxEntrySize_def)
  then have "pending two_segments \<lparr>cur_Segment = Suc 1, cur_Offset = 0\<rparr> = [[7]]"
    by (simp add: pending_def pending_in_def two_segments_def segments_def seg_pending_def seg_bytes_def
        del: encode_all_simps)
  ultimately show ?thesis using ReadFrom_spec [OF two_segments_ok, of _ 9] by simp
qed

end
