(* ===== verification/Reporter.thy ===== *)
theory Reporter
  imports Wal
begin

text \<open>
  \<^verbatim>\<open>internal/reporter/reporter.go\<close>: the bounded metrics buffer with its flush loop, the reliable
  queues on top of the write-ahead logs, and their replay loops. A sample is opaque (\<open>'m\<close>);
  JSON marshalling is a parameter; the answers of the gateway, failing system calls, clocks
  and samples submitted while a batch is under way are inputs of the turn they occur in.
\<close>

section \<open>Data\<close>

datatype QueueKind = QueueMetrics | QueueResults | QueueAudit | QueueInventory

record 'm Batch =
  b_AssetID :: string
  b_SentAt :: int
  b_Sequence :: "64 word"
  b_Samples :: "'m list"

record ReliableItem =
  it_ID :: string
  it_Kind :: QueueKind
  it_CreatedAt :: int
  it_Payload :: bytes

record ReliableBatch =
  rb_AssetID :: string
  rb_Kind :: QueueKind
  rb_SentAt :: int
  rb_Items :: "ReliableItem list"

datatype sink = StdoutSink | HttpSink string | UplinkSink | NilSink

datatype rep_error =
  UplinkAddrRequired | UnknownUplinkMode string | QueueUnavailable QueueKind | MarshalFailed | WalFailed wal_error

record RepConf =
  rc_Mode :: string
  rc_Addr :: string
  rc_AssetID :: string
  rc_BufferSize :: int
  rc_BatchSize :: int
  rc_WalEnabled :: bool
  rc_WalMaxMB :: int
  rc_MetricsFallback :: bool

record 'm Reporter =
  rp_sink :: sink
  rp_assetID :: string
  rp_bufferSize :: int
  rp_batchSize :: int
  rp_buf :: "'m list"
  rp_seq :: "64 word"
  rp_dropped :: "64 word"
  rp_wals :: "QueueKind \<rightharpoonup> WAL"
  rp_metricsWAL :: "WAL option"

section \<open>Construction\<close>

definition rep_sink :: "RepConf \<Rightarrow> rep_error + sink" where
  "rep_sink cfg =
     (if rc_Mode cfg = ''stdout'' \<or> rc_Mode cfg = [] then Inr StdoutSink
      else if rc_Mode cfg = ''http''
      then (if rc_Addr cfg = [] then Inl UplinkAddrRequired else Inr (HttpSink (rc_Addr cfg)))
      else if rc_Mode cfg = ''grpc'' then Inr NilSink
      else Inl (UnknownUplinkMode (rc_Mode cfg)))"

text \<open>\<open>disk\<close> is what the log directories hold when the process starts.\<close>

definition rep_New ::
  "(QueueKind \<Rightarrow> (nat \<times> bytes) list \<times> walCursor option) \<Rightarrow> RepConf \<Rightarrow> rep_error + 'm Reporter" where
  "rep_New disk cfg =
     (case rep_sink cfg of
        Inl err \<Rightarrow> Inl err
      | Inr s \<Rightarrow>
          (let maxBytes = wrap64 (rc_WalMaxMB cfg * 2 ^ 20);
               opened = (\<lambda>k. OpenWAL (fst (disk k)) (snd (disk k)) maxBytes)
           in Inr \<lparr>rp_sink = s, rp_assetID = rc_AssetID cfg, rp_bufferSize = rc_BufferSize cfg,
                rp_batchSize = rc_BatchSize cfg, rp_buf = [], rp_seq = 0, rp_dropped = 0,
                rp_wals = (if rc_WalEnabled cfg
                           then [QueueResults \<mapsto> opened QueueResults, QueueAudit \<mapsto> opened QueueAudit,
                                 QueueInventory \<mapsto> opened QueueInventory]
                           else Map.empty),
                rp_metricsWAL = (if rc_WalEnabled cfg \<and> rc_MetricsFallback cfg
                                 then Some (opened QueueMetrics) else None)\<rparr>))"

section \<open>Producers\<close>

text \<open>\<^verbatim>\<open>Submit\<close>: \<open>None\<close> is the panic of slicing an empty buffer.\<close>

fun rep_Submit :: "'m list \<Rightarrow> 'm Reporter \<Rightarrow> 'm Reporter option" where
  "rep_Submit [] r = Some r"
| "rep_Submit (m # ms) r =
     (if int (length (rp_buf r)) \<ge> rp_bufferSize r
      then (if rp_buf r = [] then None
            else rep_Submit ms (r\<lparr>rp_buf := tl (rp_buf r) @ [m], rp_dropped := rp_dropped r + 1\<rparr>))
      else rep_Submit ms (r\<lparr>rp_buf := rp_buf r @ [m]\<rparr>))"

text \<open>\<open>raw\<close> is the marshalled payload, if it can be marshalled.\<close>

definition SubmitReliable ::
  "(ReliableItem \<Rightarrow> bytes option) \<Rightarrow> wal_fault \<Rightarrow> int \<Rightarrow> 'm Reporter \<Rightarrow> QueueKind \<Rightarrow> string \<Rightarrow> bytes option \<Rightarrow>
   rep_error option \<times> 'm Reporter" where
  "SubmitReliable marshal fault now r kind i raw =
     (case raw of
        None \<Rightarrow> (Some MarshalFailed, r)
      | Some payload \<Rightarrow>
          (case marshal \<lparr>it_ID = i, it_Kind = kind, it_CreatedAt = now, it_Payload = payload\<rparr> of
             None \<Rightarrow> (Some MarshalFailed, r)
           | Some data \<Rightarrow>
               (case rp_wals r kind of
                  None \<Rightarrow> (Some (QueueUnavailable kind), r)
                | Some w \<Rightarrow>
                    (let (err, w') = wal_Append fault w data
                     in (map_option WalFailed err, r\<lparr>rp_wals := (rp_wals r)(kind \<mapsto> w')\<rparr>)))))"

definition SetSink :: "'m Reporter \<Rightarrow> sink \<Rightarrow> 'm Reporter" where
  "SetSink r s = r\<lparr>rp_sink := s\<rparr>"

definition SetAssetID :: "'m Reporter \<Rightarrow> string \<Rightarrow> 'm Reporter" where
  "SetAssetID r i = r\<lparr>rp_assetID := i\<rparr>"

definition rep_Stats :: "'m Reporter \<Rightarrow> 64 word \<times> 64 word" where
  "rep_Stats r = (word_of_nat (length (rp_buf r)), rp_dropped r)"

definition WALPending :: "'m Reporter \<Rightarrow> QueueKind \<rightharpoonup> int" where
  "WALPending r = (\<lambda>k. map_option PendingBytes (rp_wals r k))"

section \<open>Flushing metrics\<close>

text \<open>
  What one iteration of \<^verbatim>\<open>flushMetrics\<close> meets: the clock, the gateway's answer, the samples
  submitted while the lock is released, a failing log write.
\<close>

record 'm flush_turn =
  ft_now :: int
  ft_ok :: bool
  ft_during :: "'m list"
  ft_fault :: wal_fault

definition flush_size :: "'m Reporter \<Rightarrow> int" where
  "flush_size r = (if int (length (rp_buf r)) < rp_batchSize r then int (length (rp_buf r)) else rp_batchSize r)"

text \<open>
  The loop over a finite sequence of turns. The last component says whether it returned;
  \<open>None\<close> is a panic (a negative batch size). Every batch handed to the sink is listed with
  the answer it got.
\<close>

fun flushMetrics ::
  "('m Batch \<Rightarrow> bytes option) \<Rightarrow> 'm flush_turn list \<Rightarrow> 'm Reporter \<Rightarrow>
   (('m Batch \<times> bool) list \<times> 'm Reporter \<times> bool) option" where
  "flushMetrics marshal ts r =
     (if rp_buf r = [] then Some ([], r, True)
      else case ts of
        [] \<Rightarrow> Some ([], r, False)
      | t # ts' \<Rightarrow>
          (let n = flush_size r;
               samples = take (nat n) (rp_buf r);
               r = r\<lparr>rp_seq := rp_seq r + 1\<rparr>;
               b = \<lparr>b_AssetID = rp_assetID r, b_SentAt = ft_now t, b_Sequence = rp_seq r, b_Samples = samples\<rparr>
           in if n < 0 then None
              else case rep_Submit (ft_during t) r of
                None \<Rightarrow> None
              | Some r1 \<Rightarrow>
                  if \<not> ft_ok t
                  then (case rp_metricsWAL r1 of
                          None \<Rightarrow> Some ([(b, False)], r1, True)
                        | Some w \<Rightarrow>
                            (let w' = (case marshal b of None \<Rightarrow> w | Some d \<Rightarrow> snd (wal_Append (ft_fault t) w d))
                             in Some ([(b, False)], r1\<lparr>rp_metricsWAL := Some w', rp_buf := drop (nat n) (rp_buf r1)\<rparr>, True)))
                  else (let r2 = r1\<lparr>rp_buf := drop (nat n) (rp_buf r1)\<rparr>
                        in if n < rp_batchSize r2 then Some ([(b, True)], r2, True)
                           else map_option (\<lambda>(bs, r3, fin). ((b, True) # bs, r3, fin)) (flushMetrics marshal ts' r2))))"

section \<open>Replaying the reliable queues\<close>

definition rep_second :: int where
  "rep_second = 1000000000"

definition next_backoff :: "int \<Rightarrow> int" where
  "next_backoff b = (if b < 60 * rep_second then b * 2 else b)"

text \<open>What one iteration of \<^verbatim>\<open>replayLoop\<close> meets.\<close>

record replay_turn =
  rt_now :: int
  rt_readErr :: bool
  rt_ok :: bool
  rt_saved :: bool

record replayer =
  ry_wal :: WAL
  ry_cursor :: walCursor
  ry_backoff :: int

definition replay_start :: "WAL \<Rightarrow> replayer" where
  "replay_start w = \<lparr>ry_wal = w, ry_cursor = LoadCursor w, ry_backoff = rep_second\<rparr>"

text \<open>
  One turn of \<^verbatim>\<open>replayLoop\<close>: the batch it handed to the sink, if any, and whether the gateway
  accepted it.
\<close>

definition replayLoop ::
  "(bytes \<Rightarrow> ReliableItem option) \<Rightarrow> string \<Rightarrow> QueueKind \<Rightarrow> int \<Rightarrow> replay_turn \<Rightarrow> replayer \<Rightarrow>
   (ReliableBatch \<times> bool) option \<times> replayer" where
  "replayLoop unmarshal asset kind batchSize t y =
     (if rt_readErr t then (None, y)
      else (let (items, nxt) = ReadFrom (ry_wal y) (ry_cursor y) (nat batchSize)
            in if items = [] then (None, y)
               else (let batch = \<lparr>rb_AssetID = asset, rb_Kind = kind, rb_SentAt = rt_now t,
                                  rb_Items = List.map_filter unmarshal items\<rparr>
                     in if \<not> rt_ok t then (Some (batch, False), y\<lparr>ry_backoff := next_backoff (ry_backoff y)\<rparr>)
                        else (Some (batch, True),
                              y\<lparr>ry_backoff := rep_second, ry_cursor := nxt,
                                ry_wal := (if rt_saved t then SaveCursor (ry_wal y) nxt else ry_wal y)\<rparr>))))"

text \<open>
  One turn of \<^verbatim>\<open>replayMetricsWALLoop\<close>: batches are sent one by one until one is refused; the
  cursor moves only when all of them were accepted.
\<close>

fun send_until_refused :: "'m Batch list \<Rightarrow> bool list \<Rightarrow> 'm Batch list \<times> bool" where
  "send_until_refused [] answers = ([], True)"
| "send_until_refused (b # bs) [] = ([], False)"
| "send_until_refused (b # bs) (a # answers) =
     (if a then (let (sent, fin) = send_until_refused bs answers in (b # sent, fin)) else ([], False))"

definition replayMetricsWALLoop ::
  "(bytes \<Rightarrow> 'm Batch option) \<Rightarrow> int \<Rightarrow> replay_turn \<Rightarrow> bool list \<Rightarrow> replayer \<Rightarrow> 'm Batch list \<times> replayer" where
  "replayMetricsWALLoop unmarshal batchSize t answers y =
     (if rt_readErr t then ([], y)
      else (let (items, nxt) = ReadFrom (ry_wal y) (ry_cursor y) (nat batchSize)
            in if items = [] then ([], y)
               else (let (sent, fin) = send_until_refused (List.map_filter unmarshal items) answers
                     in if \<not> fin then (sent, y\<lparr>ry_backoff := next_backoff (ry_backoff y)\<rparr>)
                        else (sent, y\<lparr>ry_backoff := rep_second, ry_cursor := nxt,
                                ry_wal := (if rt_saved t then SaveCursor (ry_wal y) nxt else ry_wal y)\<rparr>))))"

declare flushMetrics.simps [simp del]

section \<open>The metrics buffer\<close>

lemma rep_Submit_fields:
  "rep_Submit ms r = Some r' \<Longrightarrow>
   rp_bufferSize r' = rp_bufferSize r \<and> rp_batchSize r' = rp_batchSize r \<and> rp_metricsWAL r' = rp_metricsWAL r \<and>
   length (rp_buf r) \<le> length (rp_buf r') \<and>
   word_of_nat (length (rp_buf r')) + rp_dropped r' = word_of_nat (length (rp_buf r) + length ms) + rp_dropped r"
proof (induction ms r rule: rep_Submit.induct)
  case (2 m ms r)
  then show ?case by (cases "rp_buf r") (auto simp: algebra_simps split: if_splits)
qed simp

text \<open>
  A buffer within its capacity stays within it; after any submission it holds the
  newest samples in order of arrival, and the drop counter grows by exactly the number of
  samples that no longer fit.
\<close>

theorem metrics_buffer_keeps_newest:
  assumes "0 < rp_bufferSize r" "int (length (rp_buf r)) \<le> rp_bufferSize r"
  shows "let excess = length (rp_buf r) + length ms - nat (rp_bufferSize r)
    in rep_Submit ms r = Some (r\<lparr>rp_buf := drop excess (rp_buf r @ ms), rp_dropped := rp_dropped r + word_of_nat excess\<rparr>)"
  using assms
proof (induction ms r rule: rep_Submit.induct)
  case (2 m ms r)
  show ?case
  proof (cases "int (length (rp_buf r)) \<ge> rp_bufferSize r")
    case True
    with 2 obtain x xs where x: "rp_buf r = x # xs" by (cases "rp_buf r") auto
    with True 2 have N: "nat (rp_bufferSize r) = Suc (length xs)" by simp
    with True 2 x show ?thesis by (simp add: Let_def add.assoc)
  next
    case False
    then have "Suc (length (rp_buf r)) + length ms - nat (rp_bufferSize r)
        = length (rp_buf r) + Suc (length ms) - nat (rp_bufferSize r)" by simp
    with False 2 show ?thesis by (simp add: Let_def)
  qed
qed simp

definition sample_reporter :: "nat Reporter" where
  "sample_reporter = \<lparr>rp_sink = StdoutSink, rp_assetID = ''a'', rp_bufferSize = 3, rp_batchSize = 2,
     rp_buf = [1, 2], rp_seq = 0, rp_dropped = 0, rp_wals = Map.empty, rp_metricsWAL = None\<rparr>"

theorem metrics_buffer_keeps_newest_witness:
  "map_option rp_buf (rep_Submit [3, 4, 5] sample_reporter) = Some [3, 4, 5] \<and>
   map_option rp_dropped (rep_Submit [3, 4, 5] sample_reporter) = Some 2"
  using metrics_buffer_keeps_newest [of sample_reporter "[3, 4, 5]"] by (simp add: sample_reporter_def)

lemma flush_cases:
  assumes "flushMetrics marshal ts r = Some (bs, r', fin)"
  obtains (empty) "rp_buf r = []" "bs = []" "r' = r" "fin"
    | (waiting) "rp_buf r \<noteq> []" "ts = []" "bs = []" "r' = r" "\<not> fin"
    | (turn) t ts' n r1 b where "rp_buf r \<noteq> []" "ts = t # ts'" "int n = min (int (length (rp_buf r))) (rp_batchSize r)"
      "rep_Submit (ft_during t) (r\<lparr>rp_seq := rp_seq r + 1\<rparr>) = Some r1"
      "b = \<lparr>b_AssetID = rp_assetID r, b_SentAt = ft_now t, b_Sequence = rp_seq r + 1, b_Samples = take n (rp_buf r)\<rparr>"
      "if \<not> ft_ok t
       then bs = [(b, False)] \<and> fin \<and> (rp_metricsWAL r1 = None \<longrightarrow> r' = r1)
       else if int n < rp_batchSize r then bs = [(b, True)] \<and> fin \<and> r' = r1\<lparr>rp_buf := drop n (rp_buf r1)\<rparr>
       else \<exists>bs'. bs = (b, True) # bs' \<and>
              flushMetrics marshal ts' (r1\<lparr>rp_buf := drop n (rp_buf r1)\<rparr>) = Some (bs', r', fin)"
proof (cases "rp_buf r = []")
  case True
  have "bs = [] \<and> r' = r \<and> fin" using assms unfolding flushMetrics.simps [of marshal ts r] by (simp add: True)
  with True show ?thesis by (intro empty) auto
next
  case False
  show ?thesis
  proof (cases ts)
    case Nil
    have "bs = [] \<and> r' = r \<and> \<not> fin"
      using assms unfolding flushMetrics.simps [of marshal ts r] by (simp add: Nil False)
    with Nil False show ?thesis by (intro waiting) auto
  next
    case (Cons t ts')
    note eq0 = assms [unfolded flushMetrics.simps [of marshal ts r]]
    note eq = eq0 [unfolded Cons Let_def list.case if_not_P [OF False]]
    have n: "\<not> flush_size r < 0" using eq by (auto split: if_splits)
    obtain r1 where r1: "rep_Submit (ft_during t) (r\<lparr>rp_seq := rp_seq r + 1\<rparr>) = Some r1"
      using eq by (auto split: if_splits option.splits)
    have bsz: "rp_batchSize r1 = rp_batchSize r" using rep_Submit_fields [OF r1] by simp
    have nn: "int (nat (flush_size r)) = min (int (length (rp_buf r))) (rp_batchSize r)"
      using n by (auto simp: flush_size_def min_def split: if_splits)
    show ?thesis
    proof (rule turn [OF False Cons nn r1 refl])
      show "if \<not> ft_ok t
         then bs = [(\<lparr>b_AssetID = rp_assetID r, b_SentAt = ft_now t, b_Sequence = rp_seq r + 1,
             b_Samples = take (nat (flush_size r)) (rp_buf r)\<rparr>, False)] \<and> fin \<and> (rp_metricsWAL r1 = None \<longrightarrow> r' = r1)
         else if int (nat (flush_size r)) < rp_batchSize r
         then bs = [(\<lparr>b_AssetID = rp_assetID r, b_SentAt = ft_now t, b_Sequence = rp_seq r + 1,
             b_Samples = take (nat (flush_size r)) (rp_buf r)\<rparr>, True)] \<and> fin \<and> r' = r1\<lparr>rp_buf := drop (nat (flush_size r)) (rp_buf r1)\<rparr>
         else \<exists>bs'. bs = (\<lparr>b_AssetID = rp_assetID r, b_SentAt = ft_now t, b_Sequence = rp_seq r + 1,
             b_Samples = take (nat (flush_size r)) (rp_buf r)\<rparr>, True) # bs' \<and>
                flushMetrics marshal ts' (r1\<lparr>rp_buf := drop (nat (flush_size r)) (rp_buf r1)\<rparr>) = Some (bs', r', fin)"
        using eq n r1 bsz by (cases "ft_ok t"; cases "rp_metricsWAL r1") (auto split: if_splits)
    qed
  qed
qed

definition acked_samples :: "('m Batch \<times> bool) list \<Rightarrow> 'm list" where
  "acked_samples bs = concat (map (\<lambda>(b, a). if a then b_Samples b else []) bs)"

lemma acked_samples_simps [simp]:
  "acked_samples [] = []"
  "acked_samples ((b, True) # bs) = b_Samples b @ acked_samples bs"
  "acked_samples ((b, False) # bs) = acked_samples bs"
  by (simp_all add: acked_samples_def)



text \<open>
  With a positive batch size and a gateway that accepts, one flush empties the
  buffer: it sends all samples once, in order, in batches of at most the configured size
  with consecutive sequence numbers, and returns after at most as many batches as there
  were samples.
\<close>

theorem flush_delivers_everything:
  assumes "0 < rp_batchSize r" "\<forall>t \<in> set ts. ft_ok t \<and> ft_during t = []" "length (rp_buf r) \<le> length ts"
  shows "\<exists>bs r'. flushMetrics marshal ts r = Some (map (\<lambda>b. (b, True)) bs, r', True) \<and> rp_buf r' = [] \<and>
    concat (map b_Samples bs) = rp_buf r \<and>
    (\<forall>b \<in> set bs. b_Samples b \<noteq> [] \<and> int (length (b_Samples b)) \<le> rp_batchSize r) \<and>
    map b_Sequence bs = map (\<lambda>i. rp_seq r + word_of_nat (Suc i)) [0 ..< length bs]"
  using assms
proof (induction ts arbitrary: r)
  case Nil
  then show ?case by (intro exI [of _ "[]"] exI [of _ r]) (simp add: flushMetrics.simps)
next
  case (Cons t ts)
  show ?case
  proof (cases "rp_buf r = []")
    case True
    then show ?thesis by (intro exI [of _ "[]"] exI [of _ r]) (simp add: flushMetrics.simps)
  next
    case False
    define n where "n = nat (flush_size r)"
    let ?b = "\<lparr>b_AssetID = rp_assetID r, b_SentAt = ft_now t, b_Sequence = rp_seq r + 1, b_Samples = take n (rp_buf r)\<rparr>"
    let ?r = "r\<lparr>rp_seq := rp_seq r + 1, rp_buf := drop n (rp_buf r)\<rparr>"
    have n: "0 < n" "n \<le> length (rp_buf r)" "int n = flush_size r" "int n \<le> rp_batchSize r"
      using False Cons.prems(1) by (auto simp: n_def flush_size_def)
    have step: "flushMetrics marshal (t # ts) r = (if int n < rp_batchSize r then Some ([(?b, True)], ?r, True)
        else map_option (\<lambda>(bs, r3, fin). ((?b, True) # bs, r3, fin)) (flushMetrics marshal ts ?r))"
      using False Cons.prems(2) n(3)
      by (simp add: flushMetrics.simps [of marshal "t # ts" r] Let_def flip: n(3))
    show ?thesis
    proof (cases "int n < rp_batchSize r")
      case True
      then have "n = length (rp_buf r)" using n(3) by (simp add: flush_size_def split: if_splits)
      with True n step False show ?thesis by (intro exI [of _ "[?b]"] exI [of _ ?r]) simp
    next
      case more: False
      have "length (rp_buf ?r) \<le> length ts" using n Cons.prems(3) by simp
      with Cons.IH [of ?r] Cons.prems obtain bs r' where
        IH: "flushMetrics marshal ts ?r = Some (map (\<lambda>b. (b, True)) bs, r', True)" "rp_buf r' = []"
          "concat (map b_Samples bs) = drop n (rp_buf r)"
          "\<forall>b \<in> set bs. b_Samples b \<noteq> [] \<and> int (length (b_Samples b)) \<le> rp_batchSize r"
          "map b_Sequence bs = map (\<lambda>i. rp_seq r + 1 + word_of_nat (Suc i)) [0 ..< length bs]"
        by auto
      have "map b_Sequence (?b # bs) = map (\<lambda>i. rp_seq r + word_of_nat (Suc i)) [0 ..< length (?b # bs)]"
        using IH(5) by (simp add: upt_rec [of 0] map_Suc_upt [symmetric] del: upt_Suc)
      with IH more n step False show ?thesis
        by (intro exI [of _ "?b # bs"] exI [of _ r']) (simp del: upt_Suc)
    qed
  qed
qed

theorem flush_delivers_everything_witness:
  "\<exists>bs r'. flushMetrics (\<lambda>_. None) (replicate 2 \<lparr>ft_now = 0, ft_ok = True, ft_during = [], ft_fault = NoFault\<rparr>)
     sample_reporter = Some (bs, r', True) \<and> rp_buf r' = []"
proof -
  let ?t = "\<lparr>ft_now = 0, ft_ok = True, ft_during = [], ft_fault = NoFault\<rparr>"
  have "\<exists>bs r'. flushMetrics (\<lambda>_. None) (replicate 2 ?t) sample_reporter = Some (map (\<lambda>b. (b, True)) bs, r', True) \<and>
      rp_buf r' = [] \<and> concat (map b_Samples bs) = rp_buf sample_reporter \<and>
      (\<forall>b \<in> set bs. b_Samples b \<noteq> [] \<and> int (length (b_Samples b)) \<le> rp_batchSize sample_reporter) \<and>
      map b_Sequence bs = map (\<lambda>i. rp_seq sample_reporter + word_of_nat (Suc i)) [0 ..< length bs]"
    by (rule flush_delivers_everything) (simp_all add: sample_reporter_def)
  then show ?thesis by blast
qed

text \<open>
  A batch size of zero, which the configuration does not rule out, makes the
  flush loop spin: however often the gateway accepts the empty batch, the loop does not
  return and the buffer stays as it is.
\<close>

theorem zero_batch_size_never_returns:
  assumes "rp_batchSize r = 0" "rp_buf r \<noteq> []" "\<forall>t \<in> set ts. ft_ok t \<and> ft_during t = []"
  shows "\<exists>bs r'. flushMetrics marshal ts r = Some (bs, r', False) \<and> length bs = length ts \<and> rp_buf r' = rp_buf r"
  using assms
proof (induction ts arbitrary: r)
  case Nil
  then show ?case by (simp add: flushMetrics.simps)
next
  case (Cons t ts)
  from Cons.IH [of "r\<lparr>rp_seq := rp_seq r + 1\<rparr>"] Cons.prems obtain bs r' where
    "flushMetrics marshal ts (r\<lparr>rp_seq := rp_seq r + 1\<rparr>) = Some (bs, r', False)" "length bs = length ts" "rp_buf r' = rp_buf r"
    by auto
  with Cons.prems show ?case by (simp add: flushMetrics.simps [of marshal "t # ts" r] flush_size_def Let_def)
qed

theorem zero_batch_size_never_returns_witness:
  "\<exists>bs r'. flushMetrics (\<lambda>_. None) (replicate 5 \<lparr>ft_now = 0, ft_ok = True, ft_during = [], ft_fault = NoFault\<rparr>)
     (sample_reporter\<lparr>rp_batchSize := 0\<rparr>) = Some (bs, r', False) \<and> length bs = 5"
  using zero_batch_size_never_returns [of "sample_reporter\<lparr>rp_batchSize := 0\<rparr>"
      "replicate 5 \<lparr>ft_now = 0, ft_ok = True, ft_during = [], ft_fault = NoFault\<rparr>" "\<lambda>_. None"]
  by (auto simp: sample_reporter_def)

section \<open>Reliable delivery\<close>

text \<open>
  What happens to one reliable queue: an item is offered (\<^verbatim>\<open>SubmitReliable\<close> appends its
  marshalled form), the replay loop takes a turn, the process restarts.
\<close>

datatype rel_op = ROffer ReliableItem | RTurn replay_turn | RRestart

record rel_state =
  re_y :: replayer
  re_offered :: "ReliableItem list"
  re_acked :: "ReliableBatch list"

definition accepted :: "(ReliableBatch \<times> bool) option \<Rightarrow> ReliableBatch list" where
  "accepted out = (case out of Some (b, True) \<Rightarrow> [b] | _ \<Rightarrow> [])"

fun rel_step ::
  "(ReliableItem \<Rightarrow> bytes) \<Rightarrow> (bytes \<Rightarrow> ReliableItem option) \<Rightarrow> string \<Rightarrow> QueueKind \<Rightarrow> int \<Rightarrow>
   rel_state \<Rightarrow> rel_op \<Rightarrow> rel_state" where
  "rel_step marshal unmarshal asset kind n s (ROffer i) =
     s\<lparr>re_y := (re_y s)\<lparr>ry_wal := snd (wal_Append NoFault (ry_wal (re_y s)) (marshal i))\<rparr>,
       re_offered := re_offered s @ [i]\<rparr>"
| "rel_step marshal unmarshal asset kind n s (RTurn t) =
     (let (out, y) = replayLoop unmarshal asset kind n t (re_y s)
      in s\<lparr>re_y := y, re_acked := re_acked s @ accepted out\<rparr>)"
| "rel_step marshal unmarshal asset kind n s RRestart =
     s\<lparr>re_y := replay_start (reopen (ry_wal (re_y s)))\<rparr>"

text \<open>Every offered item fits into the log: no oversized record, no segment dropped.\<close>

fun rel_fits ::
  "(ReliableItem \<Rightarrow> bytes) \<Rightarrow> (bytes \<Rightarrow> ReliableItem option) \<Rightarrow> string \<Rightarrow> QueueKind \<Rightarrow> int \<Rightarrow>
   rel_state \<Rightarrow> rel_op list \<Rightarrow> bool" where
  "rel_fits marshal unmarshal asset kind n s [] = True"
| "rel_fits marshal unmarshal asset kind n s (op # ops) =
     ((case op of ROffer i \<Rightarrow> wal_fits (ry_wal (re_y s)) (marshal i) | _ \<Rightarrow> True) \<and>
      rel_fits marshal unmarshal asset kind n (rel_step marshal unmarshal asset kind n s op) ops)"

definition rel_start :: "int \<Rightarrow> rel_state" where
  "rel_start maxBytes = \<lparr>re_y = replay_start (OpenWAL [] None maxBytes), re_offered = [], re_acked = []\<rparr>"

lemma SubmitReliable_appends:
  assumes "marshal \<lparr>it_ID = i, it_Kind = kind, it_CreatedAt = now, it_Payload = p\<rparr> = Some d" "rp_wals r kind = Some w"
  shows "rp_wals (snd (SubmitReliable marshal fault now r kind i (Some p))) kind = Some (snd (wal_Append fault w d))"
  using assms by (simp add: SubmitReliable_def case_prod_unfold Let_def)

text \<open>The queue seen as a log with a consumer, given the raw records delivered so far.\<close>

definition as_delivery :: "(ReliableItem \<Rightarrow> bytes) \<Rightarrow> rel_state \<Rightarrow> bytes list \<Rightarrow> (WAL, walCursor, bytes) delivery" where
  "as_delivery marshal s del = \<lparr>dl_log = ry_wal (re_y s), dl_cursor = ry_cursor (re_y s),
     dl_appended = map marshal (re_offered s), dl_delivered = del\<rparr>"

definition acked_items :: "rel_state \<Rightarrow> ReliableItem set" where
  "acked_items s = (\<Union>b \<in> set (re_acked s). set (rb_Items b))"

definition rel_inv :: "(ReliableItem \<Rightarrow> bytes) \<Rightarrow> (bytes \<Rightarrow> ReliableItem option) \<Rightarrow> rel_state \<Rightarrow> bool" where
  "rel_inv marshal unmarshal s \<longleftrightarrow>
     (\<exists>del. walog.consistent (as_delivery marshal s del) \<and> set (List.map_filter unmarshal del) \<subseteq> acked_items s)"

lemma rel_invE:
  assumes "rel_inv marshal unmarshal s"
  obtains del where "walog.consistent (as_delivery marshal s del)" "set (List.map_filter unmarshal del) \<subseteq> acked_items s"
  using assms by (auto simp: rel_inv_def)

lemma rel_inv_offer:
  assumes "rel_inv marshal unmarshal s" "wal_fits (ry_wal (re_y s)) (marshal i)"
  shows "rel_inv marshal unmarshal (rel_step marshal unmarshal asset kind n s (ROffer i))"
  using assms(1)
proof (rule rel_invE)
  fix del
  assume c: "walog.consistent (as_delivery marshal s del)" "set (List.map_filter unmarshal del) \<subseteq> acked_items s"
  have "walog.consistent (walog.log_step (as_delivery marshal s del) (LAppend (marshal i)))"
    using assms(2) by (intro walog.consistent_step [OF c(1)]) (simp add: as_delivery_def)
  then show ?thesis
    unfolding rel_inv_def using c(2) by (intro exI [of _ del]) (simp add: as_delivery_def wal_app_def acked_items_def)
qed

lemma rel_inv_turn:
  assumes "rel_inv marshal unmarshal s"
  shows "rel_inv marshal unmarshal (rel_step marshal unmarshal asset kind n s (RTurn t))"
  using assms
proof (rule rel_invE)
  fix del
  assume c: "walog.consistent (as_delivery marshal s del)" "set (List.map_filter unmarshal del) \<subseteq> acked_items s"
  obtain items nxt where rd: "ReadFrom (ry_wal (re_y s)) (ry_cursor (re_y s)) (nat n) = (items, nxt)"
    by (cases "ReadFrom (ry_wal (re_y s)) (ry_cursor (re_y s)) (nat n)")
  show ?thesis
  proof (cases "rt_readErr t \<or> items = [] \<or> \<not> rt_ok t")
    case True
    then have "as_delivery marshal (rel_step marshal unmarshal asset kind n s (RTurn t)) del = as_delivery marshal s del \<and>
        acked_items (rel_step marshal unmarshal asset kind n s (RTurn t)) = acked_items s"
      using rd by (auto simp: as_delivery_def acked_items_def replayLoop_def accepted_def)
    with c show ?thesis unfolding rel_inv_def by (intro exI [of _ del]) simp
  next
    case False
    have "walog.consistent (walog.log_step (as_delivery marshal s del) (LDelivered (nat n) (rt_saved t)))"
      by (intro walog.consistent_step [OF c(1)]) simp
    then show ?thesis
      unfolding rel_inv_def using c(2) False rd
      by (intro exI [of _ "del @ items"])
        (auto simp: as_delivery_def acked_items_def replayLoop_def accepted_def map_filter_def Let_def)
  qed
qed

lemma rel_inv_restart:
  assumes "rel_inv marshal unmarshal s"
  shows "rel_inv marshal unmarshal (rel_step marshal unmarshal asset kind n s RRestart)"
  using assms
proof (rule rel_invE)
  fix del
  assume c: "walog.consistent (as_delivery marshal s del)" "set (List.map_filter unmarshal del) \<subseteq> acked_items s"
  have "walog.consistent (walog.log_step (as_delivery marshal s del) LRestart)"
    by (intro walog.consistent_step [OF c(1)]) simp
  then show ?thesis
    unfolding rel_inv_def using c(2)
    by (intro exI [of _ del]) (simp add: as_delivery_def acked_items_def replay_start_def)
qed

lemma rel_inv_run:
  "rel_inv marshal unmarshal s \<Longrightarrow> rel_fits marshal unmarshal asset kind n s ops \<Longrightarrow>
   rel_inv marshal unmarshal (foldl (rel_step marshal unmarshal asset kind n) s ops)"
proof (induction ops arbitrary: s)
  case (Cons op ops)
  then show ?case
    by (cases op) (auto simp: rel_inv_offer rel_inv_turn rel_inv_restart simp del: rel_step.simps)
qed simp

lemma rel_inv_start: "rel_inv marshal unmarshal (rel_start maxBytes)"
proof -
  have "LoadCursor (OpenWAL [] None maxBytes) = zero_cursor"
    by (simp add: LoadCursor_def OpenWAL_def openActive_def Let_def)
  then have "walog.positions (as_delivery marshal (rel_start maxBytes) []) 0 0"
    using OpenWAL_fresh [of maxBytes]
    by (simp add: walog.positions_def as_delivery_def rel_start_def replay_start_def)
  then show ?thesis unfolding rel_inv_def walog.consistent_def
    by (intro exI [of _ "[]"]) (auto simp: map_filter_def)
qed




definition named_item :: "string \<Rightarrow> ReliableItem" where
  "named_item i = \<lparr>it_ID = i, it_Kind = QueueResults, it_CreatedAt = 0, it_Payload = []\<rparr>"

definition sample_turn :: "bool \<Rightarrow> replay_turn" where
  "sample_turn a = \<lparr>rt_now = 0, rt_readErr = False, rt_ok = a, rt_saved = True\<rparr>"


end
