(* ===== verification/Connector_Session.thy ===== *)
theory Connector_Session
  imports Agent_Prelude "HOL-Library.AList"
begin

text \<open>
  \<^verbatim>\<open>internal/connector/session.go\<close>: the session registry of the connector. Sessions are heap
  objects shared between the registry and the goroutines that serve them, so they live in an
  explicit heap (the list of all sessions ever allocated, a pointer is an index) and their
  fence channels are a list of closed ones. The registry's map is an association list in some
  iteration order.
\<close>

section \<open>Data and operations\<close>

record Session =
  se_AssetID :: string
  se_SessionID :: string
  se_Epoch :: "64 word"
  se_AgentVer :: string
  se_CatalogVer :: string
  se_ConnectedAt :: int
  se_LastSeen :: int

record SessionRegistry =
  sr_heap :: "Session list"
  sr_closed :: "nat list"
  sr_byAsset :: "(string \<times> nat) list"
  sr_epochSeq :: "64 word"

definition NewSessionRegistry :: SessionRegistry where
  "NewSessionRegistry = \<lparr>sr_heap = [], sr_closed = [], sr_byAsset = [], sr_epochSeq = 0\<rparr>"

text \<open>\<^verbatim>\<open>Register\<close>: \<open>None\<close> is the panic of closing a closed channel.\<close>

definition Register ::
  "int \<Rightarrow> int \<Rightarrow> SessionRegistry \<Rightarrow> string \<Rightarrow> string \<Rightarrow> string \<Rightarrow> string \<Rightarrow>
   ((nat \<times> nat option) \<times> SessionRegistry) option" where
  "Register now1 now2 r assetID sessionID agentVer catalogVer =
     (let r = r\<lparr>sr_epochSeq := sr_epochSeq r + 1\<rparr>;
          s = \<lparr>se_AssetID = assetID, se_SessionID = sessionID, se_Epoch = sr_epochSeq r, se_AgentVer = agentVer,
               se_CatalogVer = catalogVer, se_ConnectedAt = now1, se_LastSeen = now2\<rparr>;
          p = length (sr_heap r);
          r = r\<lparr>sr_heap := sr_heap r @ [s]\<rparr>
      in case map_of (sr_byAsset r) assetID of
           None \<Rightarrow> Some ((p, None), r\<lparr>sr_byAsset := AList.update assetID p (sr_byAsset r)\<rparr>)
         | Some old \<Rightarrow>
             if old \<in> set (sr_closed r) then None
             else Some ((p, Some old), r\<lparr>sr_closed := old # sr_closed r,
                                         sr_byAsset := AList.update assetID p (sr_byAsset r)\<rparr>))"

definition Fenced :: "SessionRegistry \<Rightarrow> nat \<Rightarrow> bool" where
  "Fenced r p \<longleftrightarrow> p \<in> set (sr_closed r)"

definition Touch :: "int \<Rightarrow> SessionRegistry \<Rightarrow> string \<Rightarrow> 64 word \<Rightarrow> bool \<times> SessionRegistry" where
  "Touch now r assetID epoch =
     (case map_of (sr_byAsset r) assetID of
        None \<Rightarrow> (False, r)
      | Some p \<Rightarrow>
          if se_Epoch (sr_heap r ! p) \<noteq> epoch then (False, r)
          else (True, r\<lparr>sr_heap := (sr_heap r)[p := (sr_heap r ! p)\<lparr>se_LastSeen := now\<rparr>]\<rparr>))"

definition Unregister :: "SessionRegistry \<Rightarrow> nat \<Rightarrow> SessionRegistry" where
  "Unregister r p =
     (if map_of (sr_byAsset r) (se_AssetID (sr_heap r ! p)) = Some p
      then r\<lparr>sr_byAsset := AList.delete (se_AssetID (sr_heap r ! p)) (sr_byAsset r)\<rparr> else r)"

definition Online :: "SessionRegistry \<Rightarrow> Session list" where
  "Online r = map (\<lambda>(a, p). sr_heap r ! p) (sr_byAsset r)"

definition OfflineSweep :: "int \<Rightarrow> SessionRegistry \<Rightarrow> int \<Rightarrow> Session list" where
  "OfflineSweep now r timeout = filter (\<lambda>s. now - se_LastSeen s > timeout) (map (\<lambda>(a, p). sr_heap r ! p) (sr_byAsset r))"

section \<open>Reachable registries\<close>

text \<open>A pointer handed out by \<^verbatim>\<open>Register\<close> is the only way to reach \<^verbatim>\<open>Unregister\<close>.\<close>

inductive reg_reach :: "SessionRegistry \<Rightarrow> bool" where
  reg_new: "reg_reach NewSessionRegistry"
| reg_register: "reg_reach r \<Longrightarrow> Register n1 n2 r a i v c = Some (out, r') \<Longrightarrow> reg_reach r'"
| reg_touch: "reg_reach r \<Longrightarrow> reg_reach (snd (Touch now r a e))"
| reg_unregister: "reg_reach r \<Longrightarrow> p < length (sr_heap r) \<Longrightarrow> reg_reach (Unregister r p)"

definition reg_ok :: "SessionRegistry \<Rightarrow> bool" where
  "reg_ok r \<longleftrightarrow>
     wf_map (sr_byAsset r) \<and> sr_epochSeq r = word_of_nat (length (sr_heap r)) \<and>
     (\<forall>p < length (sr_heap r). se_Epoch (sr_heap r ! p) = word_of_nat (Suc p)) \<and>
     (\<forall>a p. map_of (sr_byAsset r) a = Some p \<longrightarrow>
        p < length (sr_heap r) \<and> se_AssetID (sr_heap r ! p) = a \<and> p \<notin> set (sr_closed r) \<and>
        (\<forall>q < length (sr_heap r). se_AssetID (sr_heap r ! q) = a \<longrightarrow> q \<le> p)) \<and>
     (\<forall>p \<in> set (sr_closed r). p < length (sr_heap r))"

lemma reg_ok_new: "reg_ok NewSessionRegistry"
  by (simp add: reg_ok_def NewSessionRegistry_def wf_map_def)

lemma Register_total:
  assumes "reg_ok r"
  shows "\<exists>r'. Register n1 n2 r a i v c = Some ((length (sr_heap r), map_of (sr_byAsset r) a), r') \<and>
    sr_heap r' = sr_heap r @ [\<lparr>se_AssetID = a, se_SessionID = i, se_Epoch = sr_epochSeq r + 1, se_AgentVer = v,
        se_CatalogVer = c, se_ConnectedAt = n1, se_LastSeen = n2\<rparr>] \<and>
    sr_epochSeq r' = sr_epochSeq r + 1 \<and>
    sr_byAsset r' = AList.update a (length (sr_heap r)) (sr_byAsset r) \<and>
    set (sr_closed r') = set (sr_closed r) \<union> set_option (map_of (sr_byAsset r) a)"
  using assms by (auto simp: Register_def Let_def reg_ok_def split: option.splits)

lemma Register_ok:
  assumes "reg_ok r" "Register n1 n2 r a i v c = Some (out, r')"
  shows "reg_ok r'"
proof -
  let ?n = "length (sr_heap r)"
  from Register_total [OF assms(1), of n1 n2 a i v c] assms(2)
  have heap: "sr_heap r' = sr_heap r @ [\<lparr>se_AssetID = a, se_SessionID = i, se_Epoch = sr_epochSeq r + 1, se_AgentVer = v,
        se_CatalogVer = c, se_ConnectedAt = n1, se_LastSeen = n2\<rparr>]"
    and seq: "sr_epochSeq r' = sr_epochSeq r + 1" and ba: "sr_byAsset r' = AList.update a ?n (sr_byAsset r)"
    and cl: "set (sr_closed r') = set (sr_closed r) \<union> set_option (map_of (sr_byAsset r) a)" by auto
  have len: "length (sr_heap r') = Suc ?n" by (simp add: heap)
  have ep: "se_Epoch (sr_heap r' ! p) = word_of_nat (Suc p)" if "p < Suc ?n" for p
    using that assms(1) by (auto simp: heap nth_append reg_ok_def less_Suc_eq)
  have cur: "p < Suc ?n \<and> se_AssetID (sr_heap r' ! p) = x \<and> p \<notin> set (sr_closed r') \<and>
      (\<forall>q < Suc ?n. se_AssetID (sr_heap r' ! q) = x \<longrightarrow> q \<le> p)" if m: "map_of (sr_byAsset r') x = Some p" for x p
  proof (cases "x = a")
    case True
    with m have "p = ?n" by (simp add: ba update_conv')
    with True assms(1) show ?thesis by (auto simp: heap nth_append cl reg_ok_def dest: less_imp_neq)
  next
    case False
    with m have x: "map_of (sr_byAsset r) x = Some p" by (simp add: ba update_conv')
    with False assms(1) have "map_of (sr_byAsset r) a \<noteq> Some p" unfolding reg_ok_def by metis
    with False x assms(1) show ?thesis
      by (auto simp: heap nth_append cl reg_ok_def less_Suc_eq)
  qed
  have "wf_map (sr_byAsset r')" using assms(1) by (simp add: ba reg_ok_def wf_map_def distinct_update)
  moreover have "sr_epochSeq r' = word_of_nat (Suc ?n)" using assms(1) by (simp add: seq reg_ok_def)
  moreover have "\<forall>p \<in> set (sr_closed r'). p < Suc ?n"
    using assms(1) by (auto simp: cl reg_ok_def less_SucI)
  ultimately show ?thesis using ep cur by (simp add: reg_ok_def len)
qed

lemma Touch_ok:
  assumes "reg_ok r"
  shows "reg_ok (snd (Touch now r a e))"
proof (cases "map_of (sr_byAsset r) a")
  case (Some p)
  then have "p < length (sr_heap r)" using assms by (simp add: reg_ok_def)
  then have "se_AssetID ((sr_heap r)[p := (sr_heap r ! p)\<lparr>se_LastSeen := now\<rparr>] ! q) = se_AssetID (sr_heap r ! q) \<and>
      se_Epoch ((sr_heap r)[p := (sr_heap r ! p)\<lparr>se_LastSeen := now\<rparr>] ! q) = se_Epoch (sr_heap r ! q)" for q
    by (cases "q = p") auto
  with assms Some show ?thesis by (simp add: Touch_def reg_ok_def)
qed (use assms in \<open>simp add: Touch_def\<close>)

lemma reg_ok_delete:
  assumes "reg_ok r"
  shows "reg_ok (r\<lparr>sr_byAsset := AList.delete a (sr_byAsset r)\<rparr>)"
proof -
  have "map_of (AList.delete a (sr_byAsset r)) x = Some p \<Longrightarrow> map_of (sr_byAsset r) x = Some p" for x p
    by (simp add: delete_conv' split: if_splits)
  moreover have "wf_map (AList.delete a (sr_byAsset r))"
    using assms by (simp add: reg_ok_def wf_map_def distinct_delete)
  ultimately show ?thesis using assms unfolding reg_ok_def by simp blast
qed

lemma Unregister_ok: "reg_ok r \<Longrightarrow> reg_ok (Unregister r p)"
  by (simp add: Unregister_def reg_ok_delete)

lemma reg_reach_ok: "reg_reach r \<Longrightarrow> reg_ok r"
  by (induction rule: reg_reach.induct) (auto simp: reg_ok_new Register_ok Touch_ok Unregister_ok)

lemma epoch_inject:
  assumes "reg_ok r" "length (sr_heap r) < 2 ^ 64 - 1" "p < length (sr_heap r)" "q < length (sr_heap r)"
    and "se_Epoch (sr_heap r ! p) = se_Epoch (sr_heap r ! q)"
  shows "p = q"
proof -
  have "(word_of_nat (Suc p) :: 64 word) = word_of_nat (Suc q)" using assms by (simp add: reg_ok_def)
  then have "unat (word_of_nat (Suc p) :: 64 word) = unat (word_of_nat (Suc q) :: 64 word)" by simp
  with assms(2-4) show ?thesis by (simp add: unat_of_nat del: of_nat_Suc)
qed

section \<open>Properties\<close>

text \<open>
  C13: in every reachable registry an asset has at most one current session; it is the
  latest one registered for that asset and its fence is open. Registering never closes a
  fence twice: it always succeeds, makes the new session current and fences the one it
  replaces.
\<close>

theorem one_live_session_per_asset:
  assumes "reg_reach r"
  shows "(\<forall>a p. map_of (sr_byAsset r) a = Some p \<longrightarrow>
       se_AssetID (sr_heap r ! p) = a \<and> \<not> Fenced r p \<and>
       (\<forall>q < length (sr_heap r). se_AssetID (sr_heap r ! q) = a \<longrightarrow> q \<le> p)) \<and>
    (\<exists>r'. Register n1 n2 r a i v c = Some ((length (sr_heap r), map_of (sr_byAsset r) a), r') \<and>
       map_of (sr_byAsset r') a = Some (length (sr_heap r)) \<and>
       (\<forall>old. map_of (sr_byAsset r) a = Some old \<longrightarrow> Fenced r' old) \<and>
       (\<forall>b. b \<noteq> a \<longrightarrow> map_of (sr_byAsset r') b = map_of (sr_byAsset r) b))"
proof -
  have ok: "reg_ok r" using assms by (rule reg_reach_ok)
  from Register_total [OF ok, of n1 n2 a i v c] ok show ?thesis
    by (auto simp: reg_ok_def Fenced_def update_conv')
qed

definition two_sessions :: SessionRegistry where
  "two_sessions = \<lparr>sr_heap = [\<lparr>se_AssetID = ''h'', se_SessionID = ''s1'', se_Epoch = 1, se_AgentVer = [],
       se_CatalogVer = [], se_ConnectedAt = 1, se_LastSeen = 1\<rparr>, \<lparr>se_AssetID = ''h'', se_SessionID = ''s2'', se_Epoch = 2,
       se_AgentVer = [], se_CatalogVer = [], se_ConnectedAt = 5, se_LastSeen = 5\<rparr>],
     sr_closed = [0], sr_byAsset = [(''h'', 1)], sr_epochSeq = 2\<rparr>"

lemma two_sessions_reach: "reg_reach two_sessions"
proof -
  obtain r1 where 1: "Register 1 1 NewSessionRegistry ''h'' ''s1'' [] [] = Some ((0, None), r1)"
    and r1: "r1 = \<lparr>sr_heap = [\<lparr>se_AssetID = ''h'', se_SessionID = ''s1'', se_Epoch = 1, se_AgentVer = [],
       se_CatalogVer = [], se_ConnectedAt = 1, se_LastSeen = 1\<rparr>], sr_closed = [], sr_byAsset = [(''h'', 0)], sr_epochSeq = 1\<rparr>"
    by (simp add: Register_def NewSessionRegistry_def Let_def)
  have "Register 5 5 r1 ''h'' ''s2'' [] [] = Some ((1, Some 0), two_sessions)"
    by (simp add: Register_def r1 two_sessions_def Let_def)
  with reg_register [OF reg_new 1] show ?thesis by (rule reg_register)
qed

theorem one_live_session_per_asset_witness:
  "\<not> Fenced two_sessions 1 \<and> (\<exists>r'. Register 9 9 two_sessions ''h'' ''s3'' [] [] = Some ((2, Some 1), r') \<and> Fenced r' 1)"
  using one_live_session_per_asset [OF two_sessions_reach, of 9 9 "''h''" "''s3''" "[]" "[]"]
  by (auto simp: two_sessions_def)

text \<open>
  A session that has been replaced is powerless: its heartbeats are refused and
  its deferred clean-up removes nothing, so the session that replaced it stays registered
  with its own liveness. (Epochs are compared modulo the 64-bit counter.)
\<close>

theorem fenced_session_cannot_interfere:
  assumes "reg_reach r" "Fenced r p" "length (sr_heap r) < 2 ^ 64 - 1"
  shows "Touch now r (se_AssetID (sr_heap r ! p)) (se_Epoch (sr_heap r ! p)) = (False, r) \<and> Unregister r p = r"
proof -
  have ok: "reg_ok r" using assms(1) by (rule reg_reach_ok)
  then have p: "p < length (sr_heap r)" using assms(2) by (simp add: reg_ok_def Fenced_def)
  have "map_of (sr_byAsset r) a \<noteq> Some p" for a using ok assms(2) by (auto simp: reg_ok_def Fenced_def)
  moreover have "se_Epoch (sr_heap r ! q) \<noteq> se_Epoch (sr_heap r ! p)"
    if q: "map_of (sr_byAsset r) (se_AssetID (sr_heap r ! p)) = Some q" for q
  proof
    assume "se_Epoch (sr_heap r ! q) = se_Epoch (sr_heap r ! p)"
    moreover have "q < length (sr_heap r)" using ok q by (simp add: reg_ok_def)
    ultimately have "q = p" using epoch_inject [OF ok assms(3)] p by blast
    with q ok assms(2) show False by (auto simp: reg_ok_def Fenced_def)
  qed
  ultimately show ?thesis by (auto simp: Touch_def Unregister_def split: option.splits)
qed

theorem fenced_session_cannot_interfere_witness:
  "Touch 7 two_sessions ''h'' 1 = (False, two_sessions) \<and> Unregister two_sessions 0 = two_sessions"
  using fenced_session_cannot_interfere [OF two_sessions_reach, of 0 7] by (simp add: two_sessions_def Fenced_def)

end
