(* ===== verification/Mailbox.thy ===== *)
theory Mailbox
  imports Agent_Prelude "HOL-Library.Sublist"
begin

text \<open>
  \<^verbatim>\<open>internal/connector/mailbox.go\<close>: the per-asset command mailboxes of the connector. The
  command objects are shared between the two indices of the mailbox; as \<^verbatim>\<open>byID\<close> never
  forgets one, a command is addressed by its id and the FIFO of an asset is a list of ids.
  Absent map entries read as nil, so the per-asset maps are total functions. The one-token
  notification channels are booleans.
\<close>

section \<open>Data\<close>

datatype CommandState = StateQueued | StateDispatched | StateTerminal | StateExpired

record MailboxCommand =
  mc_CmdID :: string
  mc_Action :: string
  mc_Params :: smap
  mc_TimeoutSec :: int
  mc_State :: CommandState
  mc_QueuedAt :: int
  mc_ExpiresAt :: int
  mc_Result :: bytes

datatype mailbox_error = ErrMailboxFull | ErrDupCmdID | NotCancellable string

record Mailbox =
  mb_perAsset :: int
  mb_ttl :: int
  mb_byAsset :: "string \<Rightarrow> string list"
  mb_byID :: "string \<rightharpoonup> MailboxCommand"
  mb_notify :: "string \<rightharpoonup> bool"
  mb_pendingCancels :: "string \<Rightarrow> string list"

definition NewMailbox :: "int \<Rightarrow> int \<Rightarrow> Mailbox" where
  "NewMailbox perAsset ttl = \<lparr>mb_perAsset = perAsset, mb_ttl = ttl, mb_byAsset = (\<lambda>_. []), mb_byID = Map.empty,
     mb_notify = Map.empty, mb_pendingCancels = (\<lambda>_. [])\<rparr>"

section \<open>Operations\<close>

definition signalLocked :: "Mailbox \<Rightarrow> string \<Rightarrow> Mailbox" where
  "signalLocked m a = (if mb_notify m a = None then m else m\<lparr>mb_notify := (mb_notify m)(a \<mapsto> True)\<rparr>)"

definition in_state :: "Mailbox \<Rightarrow> CommandState set \<Rightarrow> string \<Rightarrow> bool" where
  "in_state m S i = (case mb_byID m i of None \<Rightarrow> False | Some c \<Rightarrow> mc_State c \<in> S)"

definition pending_count :: "Mailbox \<Rightarrow> string \<Rightarrow> nat" where
  "pending_count m a = length (filter (in_state m {StateQueued, StateDispatched}) (mb_byAsset m a))"

definition mb_Submit ::
  "int \<Rightarrow> int \<Rightarrow> Mailbox \<Rightarrow> string \<Rightarrow> string \<Rightarrow> string \<Rightarrow> smap \<Rightarrow> int \<Rightarrow> mailbox_error option \<times> Mailbox" where
  "mb_Submit now1 now2 m assetID cmdID action params timeoutSec =
     (if mb_byID m cmdID \<noteq> None then (Some ErrDupCmdID, m)
      else if int (pending_count m assetID) \<ge> mb_perAsset m then (Some ErrMailboxFull, m)
      else (let c = \<lparr>mc_CmdID = cmdID, mc_Action = action, mc_Params = params, mc_TimeoutSec = timeoutSec,
                     mc_State = StateQueued, mc_QueuedAt = now1, mc_ExpiresAt = now2 + mb_ttl m, mc_Result = []\<rparr>;
                m = m\<lparr>mb_byAsset := (mb_byAsset m)(assetID := mb_byAsset m assetID @ [cmdID]),
                      mb_byID := (mb_byID m)(cmdID \<mapsto> c)\<rparr>
            in (None, signalLocked m assetID)))"

definition mb_Cancel :: "Mailbox \<Rightarrow> string \<Rightarrow> string \<Rightarrow> (mailbox_error + bool) \<times> Mailbox" where
  "mb_Cancel m assetID cmdID =
     (case mb_byID m cmdID of
        None \<Rightarrow> (Inl (NotCancellable cmdID), m)
      | Some c \<Rightarrow>
          (case mc_State c of
             StateTerminal \<Rightarrow> (Inl (NotCancellable cmdID), m)
           | StateExpired \<Rightarrow> (Inl (NotCancellable cmdID), m)
           | StateQueued \<Rightarrow> (Inr False, m\<lparr>mb_byID := (mb_byID m)(cmdID \<mapsto> c\<lparr>mc_State := StateExpired\<rparr>)\<rparr>)
           | StateDispatched \<Rightarrow>
               (Inr True, signalLocked (m\<lparr>mb_pendingCancels :=
                  (mb_pendingCancels m)(assetID := mb_pendingCancels m assetID @ [cmdID])\<rparr>) assetID)))"

text \<open>The loop of \<^verbatim>\<open>NextDispatch\<close>: the commands to send, the ids kept in the FIFO, the index.\<close>

fun next_loop ::
  "int \<Rightarrow> (string \<rightharpoonup> MailboxCommand) \<Rightarrow> string list \<Rightarrow>
   MailboxCommand list \<times> string list \<times> (string \<rightharpoonup> MailboxCommand)" where
  "next_loop now ix [] = ([], [], ix)"
| "next_loop now ix (i # is) =
     (case ix i of
        None \<Rightarrow> next_loop now ix is
      | Some c \<Rightarrow>
          (case mc_State c of
             StateQueued \<Rightarrow>
               if now > mc_ExpiresAt c then next_loop now (ix(i \<mapsto> c\<lparr>mc_State := StateExpired\<rparr>)) is
               else (let c' = c\<lparr>mc_State := StateDispatched\<rparr>;
                         (cmds, kept, ix') = next_loop now (ix(i \<mapsto> c')) is
                     in (c' # cmds, i # kept, ix'))
           | StateDispatched \<Rightarrow>
               if now > mc_ExpiresAt c then next_loop now (ix(i \<mapsto> c\<lparr>mc_State := StateExpired\<rparr>)) is
               else (let (cmds, kept, ix') = next_loop now ix is in (cmds, i # kept, ix'))
           | _ \<Rightarrow> (let (cmds, kept, ix') = next_loop now ix is in (cmds, i # kept, ix'))))"

definition NextDispatch :: "int \<Rightarrow> Mailbox \<Rightarrow> string \<Rightarrow> (MailboxCommand list \<times> string list) \<times> Mailbox" where
  "NextDispatch now m assetID =
     (let (cmds, kept, ix) = next_loop now (mb_byID m) (mb_byAsset m assetID);
          cancels = mb_pendingCancels m assetID
      in ((cmds, cancels), m\<lparr>mb_byID := ix, mb_byAsset := (mb_byAsset m)(assetID := kept),
            mb_pendingCancels := (mb_pendingCancels m)(assetID := [])\<rparr>))"

text \<open>
  \<^verbatim>\<open>Wait\<close>: creates the channel on first use and takes a token that is there or arrives before
  the timeout (\<open>arrives\<close>).
\<close>

definition mb_Wait :: "bool \<Rightarrow> Mailbox \<Rightarrow> string \<Rightarrow> bool \<times> Mailbox" where
  "mb_Wait arrives m assetID =
     (let tok = (case mb_notify m assetID of None \<Rightarrow> False | Some t \<Rightarrow> t)
      in (tok \<or> arrives, m\<lparr>mb_notify := (mb_notify m)(assetID \<mapsto> False)\<rparr>))"

definition mb_Complete :: "Mailbox \<Rightarrow> string \<Rightarrow> bytes \<Rightarrow> Mailbox" where
  "mb_Complete m cmdID result =
     (case mb_byID m cmdID of
        None \<Rightarrow> m
      | Some c \<Rightarrow> m\<lparr>mb_byID := (mb_byID m)(cmdID \<mapsto> c\<lparr>mc_State := StateTerminal, mc_Result := result\<rparr>)\<rparr>)"

definition mb_Result :: "Mailbox \<Rightarrow> string \<Rightarrow> MailboxCommand option" where
  "mb_Result m cmdID = mb_byID m cmdID"

section \<open>What one dispatch does\<close>

definition due :: "int \<Rightarrow> (string \<rightharpoonup> MailboxCommand) \<Rightarrow> string \<Rightarrow> bool" where
  "due now ix i = (case ix i of None \<Rightarrow> False | Some c \<Rightarrow> mc_State c = StateQueued \<and> now \<le> mc_ExpiresAt c)"

definition overdue :: "int \<Rightarrow> (string \<rightharpoonup> MailboxCommand) \<Rightarrow> string \<Rightarrow> bool" where
  "overdue now ix i = (case ix i of None \<Rightarrow> True
     | Some c \<Rightarrow> mc_State c \<in> {StateQueued, StateDispatched} \<and> mc_ExpiresAt c < now)"

text \<open>What the pass makes of a command in the FIFO.\<close>

definition dispatched_state :: "int \<Rightarrow> MailboxCommand \<Rightarrow> MailboxCommand" where
  "dispatched_state now c =
     (if mc_State c \<in> {StateQueued, StateDispatched} \<and> mc_ExpiresAt c < now then c\<lparr>mc_State := StateExpired\<rparr>
      else if mc_State c = StateQueued then c\<lparr>mc_State := StateDispatched\<rparr> else c)"

lemma due_other: "j \<noteq> i \<Longrightarrow> due now (ix(i := x)) j = due now ix j"
  and overdue_other: "j \<noteq> i \<Longrightarrow> overdue now (ix(i := x)) j = overdue now ix j"
  by (simp_all add: due_def overdue_def)

lemma next_loop_spec:
  "distinct is \<Longrightarrow> next_loop now ix is =
     (map (\<lambda>i. dispatched_state now (the (ix i))) (filter (due now ix) is),
      filter (\<lambda>i. \<not> overdue now ix i) is,
      \<lambda>i. if i \<in> set is then map_option (dispatched_state now) (ix i) else ix i)"
proof (induction "is" arbitrary: ix)
  case (Cons i "is")
  have i: "i \<notin> set is" and d: "distinct is" using Cons.prems by simp_all
  have due_upd: "filter (due now (ix(i := x))) is = filter (due now ix) is"
    "filter (\<lambda>j. \<not> overdue now (ix(i := x)) j) is = filter (\<lambda>j. \<not> overdue now ix j) is" for x
    by (rule filter_cong [OF refl]; metis i due_other overdue_other)+
  have map_upd: "map (\<lambda>j. dispatched_state now (the ((ix(i := x)) j))) (filter (due now ix) is) =
      map (\<lambda>j. dispatched_state now (the (ix j))) (filter (due now ix) is)" for x
    using i by (intro map_cong) auto
  have ix_upd: "(\<lambda>j. if j \<in> set is then map_option (dispatched_state now) ((ix(i := x)) j) else (ix(i := x)) j) =
      (\<lambda>j. if j \<in> set is then map_option (dispatched_state now) (ix j) else if j = i then x else ix j)" for x
    using i by auto
  note IH = Cons.IH [OF d, of "ix(i := x)" for x, unfolded due_upd map_upd ix_upd]
  have fin: "(\<lambda>j. if j \<in> set is then map_option (dispatched_state now) (ix j) else if j = i then x else ix j) =
      (\<lambda>j. if j \<in> set (i # is) then map_option (dispatched_state now) (ix j) else ix j)"
    if "x = map_option (dispatched_state now) (ix i)" for x
    using i that by auto
  have fin0: "(\<lambda>j. if j \<in> set is then map_option (dispatched_state now) (ix j) else ix j) =
      (\<lambda>j. if j \<in> set (i # is) then map_option (dispatched_state now) (ix j) else ix j)"
    if "map_option (dispatched_state now) (ix i) = ix i"
    using i that by auto
  show ?case
  proof (cases "ix i")
    case None
    then show ?thesis by (simp add: Cons.IH [OF d] due_def [of _ _ i] overdue_def [of _ _ i] fin0)
  next
    case (Some c)
    then show ?thesis
      by (cases "mc_State c"; cases "now > mc_ExpiresAt c")
        (simp_all add: IH Cons.IH [OF d, of ix] fin fin0 due_def [of _ _ i] overdue_def [of _ _ i] dispatched_state_def [of _ c]
          Let_def del: set_simps)
  qed
qed simp

section \<open>Histories\<close>

text \<open>
  Any interleaving of the calls the connector makes, with the accepted submissions and the
  commands handed out for sending, both as (asset, command id) in order.
\<close>

datatype mb_op =
    MSubmit int int string string string smap int
  | MCancel string string
  | MNext int string
  | MWait bool string
  | MComplete string bytes

record mb_run =
  mr_box :: Mailbox
  mr_submitted :: "(string \<times> string) list"
  mr_sent :: "(string \<times> string) list"

fun mb_step :: "mb_run \<Rightarrow> mb_op \<Rightarrow> mb_run" where
  "mb_step s (MSubmit n1 n2 a i act ps t) =
     (let (err, m) = mb_Submit n1 n2 (mr_box s) a i act ps t
      in s\<lparr>mr_box := m, mr_submitted := mr_submitted s @ (if err = None then [(a, i)] else [])\<rparr>)"
| "mb_step s (MCancel a i) = s\<lparr>mr_box := snd (mb_Cancel (mr_box s) a i)\<rparr>"
| "mb_step s (MNext now a) =
     (let ((cmds, cancels), m) = NextDispatch now (mr_box s) a
      in s\<lparr>mr_box := m, mr_sent := mr_sent s @ map (\<lambda>c. (a, mc_CmdID c)) cmds\<rparr>)"
| "mb_step s (MWait arrives a) = s\<lparr>mr_box := snd (mb_Wait arrives (mr_box s) a)\<rparr>"
| "mb_step s (MComplete i r) = s\<lparr>mr_box := mb_Complete (mr_box s) i r\<rparr>"

definition mb_start :: "int \<Rightarrow> int \<Rightarrow> mb_run" where
  "mb_start perAsset ttl = \<lparr>mr_box = NewMailbox perAsset ttl, mr_submitted = [], mr_sent = []\<rparr>"

definition mb_history :: "int \<Rightarrow> int \<Rightarrow> mb_op list \<Rightarrow> mb_run" where
  "mb_history perAsset ttl ops = foldl mb_step (mb_start perAsset ttl) ops"

definition ids_of :: "(string \<times> string) list \<Rightarrow> string \<Rightarrow> string list" where
  "ids_of xs a = map snd (filter (\<lambda>x. fst x = a) xs)"

lemma ids_of_append [simp]: "ids_of (xs @ ys) a = ids_of xs a @ ids_of ys a"
  by (simp add: ids_of_def)

lemma ids_of_tagged: "ids_of (map (Pair b) is) a = (if a = b then is else [])"
  by (induction "is") (auto simp: ids_of_def)

abbreviation queued :: "Mailbox \<Rightarrow> string \<Rightarrow> bool" where
  "queued m \<equiv> in_state m {StateQueued}"

definition mb_ok :: "mb_run \<Rightarrow> bool" where
  "mb_ok s \<longleftrightarrow>
     distinct (map snd (mr_submitted s)) \<and>
     (\<forall>i. mb_byID (mr_box s) i \<noteq> None \<longleftrightarrow> i \<in> snd ` set (mr_submitted s)) \<and>
     (\<forall>i c. mb_byID (mr_box s) i = Some c \<longrightarrow> mc_CmdID c = i) \<and>
     (\<forall>a. distinct (mb_byAsset (mr_box s) a) \<and> Pair a ` set (mb_byAsset (mr_box s) a) \<subseteq> set (mr_submitted s)) \<and>
     distinct (map snd (mr_sent s)) \<and> (\<forall>i \<in> snd ` set (mr_sent s). \<not> queued (mr_box s) i) \<and>
     (\<forall>a. subseq (ids_of (mr_sent s) a @ filter (queued (mr_box s)) (mb_byAsset (mr_box s) a)) (ids_of (mr_submitted s) a)) \<and>
     (\<forall>a. int (pending_count (mr_box s) a) \<le> max 0 (mb_perAsset (mr_box s)))"

lemma subseq_filter_mono: "(\<And>x. x \<in> set xs \<Longrightarrow> P x \<Longrightarrow> Q x) \<Longrightarrow> subseq (filter P xs) (filter Q xs)"
proof -
  assume *: "\<And>x. x \<in> set xs \<Longrightarrow> P x \<Longrightarrow> Q x"
  have "filter P xs = filter P (filter Q xs)" using * by (auto intro: filter_cong)
  then show ?thesis by (metis subseq_filter_left)
qed

text \<open>Steps that only retire commands: the FIFOs stay, no command becomes queued or pending.\<close>

lemma mb_ok_retire:
  assumes ok: "mb_ok s" and fifo: "mb_byAsset m = mb_byAsset (mr_box s)" "mb_perAsset m = mb_perAsset (mr_box s)"
    and ix: "\<And>i. mb_byID m i = None \<longleftrightarrow> mb_byID (mr_box s) i = None" "\<And>i c. mb_byID m i = Some c \<Longrightarrow> mc_CmdID c = i"
    and less: "\<And>i. queued m i \<Longrightarrow> queued (mr_box s) i"
      "\<And>i. in_state m {StateQueued, StateDispatched} i \<Longrightarrow> in_state (mr_box s) {StateQueued, StateDispatched} i"
  shows "mb_ok (s\<lparr>mr_box := m\<rparr>)"
proof -
  have "subseq (ids_of (mr_sent s) a @ filter (queued m) (mb_byAsset m a)) (ids_of (mr_submitted s) a)" for a
  proof -
    have "subseq (filter (queued m) (mb_byAsset m a)) (filter (queued (mr_box s)) (mb_byAsset (mr_box s) a))"
      unfolding fifo using less(1) by (rule subseq_filter_mono)
    then have "subseq (ids_of (mr_sent s) a @ filter (queued m) (mb_byAsset m a))
        (ids_of (mr_sent s) a @ filter (queued (mr_box s)) (mb_byAsset (mr_box s) a))"
      by (intro list_emb_append_mono) simp_all
    with ok show ?thesis by (auto simp: mb_ok_def intro: subseq_order.order_trans)
  qed
  moreover have "pending_count m a \<le> pending_count (mr_box s) a" for a
    unfolding pending_count_def fifo using less(2) by (metis list_emb_length subseq_filter_mono)
  then have "int (pending_count m a) \<le> max 0 (mb_perAsset m)" for a
    using ok unfolding mb_ok_def fifo by (meson order_trans of_nat_le_iff)
  ultimately show ?thesis using ok ix less(1) by (auto simp: mb_ok_def fifo)
qed

lemma signalLocked_keeps [simp]:
  "mb_byAsset (signalLocked m a) = mb_byAsset m" "mb_byID (signalLocked m a) = mb_byID m"
  "mb_perAsset (signalLocked m a) = mb_perAsset m"
  by (simp_all add: signalLocked_def)

lemma mb_Cancel_ok:
  assumes "mb_ok s"
  shows "mb_ok (mb_step s (MCancel a i))"
proof -
  let ?m = "snd (mb_Cancel (mr_box s) a i)"
  have "mb_ok (s\<lparr>mr_box := ?m\<rparr>)"
    by (rule mb_ok_retire [OF assms])
      (use assms in \<open>auto simp: mb_Cancel_def in_state_def mb_ok_def split: option.splits CommandState.splits if_splits\<close>)
  then show ?thesis by simp
qed

lemma mb_Complete_ok:
  assumes "mb_ok s"
  shows "mb_ok (mb_step s (MComplete i r))"
proof -
  have "mb_ok (s\<lparr>mr_box := mb_Complete (mr_box s) i r\<rparr>)"
    by (rule mb_ok_retire [OF assms])
      (use assms in \<open>auto simp: mb_Complete_def in_state_def mb_ok_def split: option.splits if_splits\<close>)
  then show ?thesis by simp
qed

lemma mb_Wait_ok:
  assumes "mb_ok s"
  shows "mb_ok (mb_step s (MWait w a))"
proof -
  have "mb_ok (s\<lparr>mr_box := snd (mb_Wait w (mr_box s) a)\<rparr>)"
    by (rule mb_ok_retire [OF assms]) (use assms in \<open>auto simp: mb_Wait_def in_state_def mb_ok_def Let_def\<close>)
  then show ?thesis by simp
qed

lemma mb_okD:
  assumes "mb_ok s"
  shows "distinct (map snd (mr_submitted s))"
    and "mb_byID (mr_box s) i = None \<longleftrightarrow> i \<notin> snd ` set (mr_submitted s)"
    and "mb_byID (mr_box s) i = Some c \<Longrightarrow> mc_CmdID c = i"
    and "distinct (mb_byAsset (mr_box s) a)" and "j \<in> set (mb_byAsset (mr_box s) a) \<Longrightarrow> (a, j) \<in> set (mr_submitted s)"
    and "distinct (map snd (mr_sent s))" and "i \<in> snd ` set (mr_sent s) \<Longrightarrow> \<not> queued (mr_box s) i"
    and "subseq (ids_of (mr_sent s) a @ filter (queued (mr_box s)) (mb_byAsset (mr_box s) a)) (ids_of (mr_submitted s) a)"
    and "int (pending_count (mr_box s) a) \<le> max 0 (mb_perAsset (mr_box s))"
proof -
  note ok = assms [unfolded mb_ok_def]
  show "distinct (map snd (mr_submitted s))" using ok by simp
  show "mb_byID (mr_box s) i = None \<longleftrightarrow> i \<notin> snd ` set (mr_submitted s)" using ok by metis
  show "mb_byID (mr_box s) i = Some c \<Longrightarrow> mc_CmdID c = i" using ok by metis
  show "distinct (mb_byAsset (mr_box s) a)" using ok by simp
  show "j \<in> set (mb_byAsset (mr_box s) a) \<Longrightarrow> (a, j) \<in> set (mr_submitted s)" using ok by blast
  show "distinct (map snd (mr_sent s))" using ok by simp
  show "i \<in> snd ` set (mr_sent s) \<Longrightarrow> \<not> queued (mr_box s) i" using ok by metis
  show "subseq (ids_of (mr_sent s) a @ filter (queued (mr_box s)) (mb_byAsset (mr_box s) a)) (ids_of (mr_submitted s) a)"
    using ok by metis
  show "int (pending_count (mr_box s) a) \<le> max 0 (mb_perAsset (mr_box s))" using ok by metis
qed

lemma subseq_set: "subseq xs ys \<Longrightarrow> set xs \<subseteq> set ys"
  by (induction rule: list_emb.induct) auto

lemma sent_submitted:
  assumes "mb_ok s" "i \<in> snd ` set (mr_sent s)"
  shows "i \<in> snd ` set (mr_submitted s)"
proof -
  from assms(2) obtain b where "i \<in> set (ids_of (mr_sent s) b)" by (force simp: ids_of_def)
  then have "i \<in> set (ids_of (mr_submitted s) b)"
    using subseq_set [OF mb_okD(8) [OF assms(1), of b]] by auto
  then show ?thesis by (auto simp: ids_of_def)
qed

lemma one_owner:
  assumes "mb_ok s" "j \<in> set (mb_byAsset (mr_box s) a)" "j \<in> set (mb_byAsset (mr_box s) b)"
  shows "a = b"
proof -
  have "(a, j) \<in> set (mr_submitted s)" "(b, j) \<in> set (mr_submitted s)"
    using mb_okD(5) [OF assms(1)] assms(2,3) by blast+
  with mb_okD(1) [OF assms(1)] show ?thesis
    by (metis (no_types, lifting) distinct_map fst_conv inj_onD snd_conv)
qed

lemma mb_Submit_ok:
  assumes ok: "mb_ok s"
  shows "mb_ok (mb_step s (MSubmit n1 n2 a i act ps t))"
proof (cases "mb_byID (mr_box s) i \<noteq> None \<or> int (pending_count (mr_box s) a) \<ge> mb_perAsset (mr_box s)")
  case True
  then have "mb_Submit n1 n2 (mr_box s) a i act ps t = (fst (mb_Submit n1 n2 (mr_box s) a i act ps t), mr_box s) \<and>
      fst (mb_Submit n1 n2 (mr_box s) a i act ps t) \<noteq> None" by (auto simp: mb_Submit_def)
  then have "mb_step s (MSubmit n1 n2 a i act ps t) = s" by (auto simp: case_prod_unfold Let_def)
  with ok show ?thesis by simp
next
  case False
  let ?m = "mr_box s"
  define m where "m = snd (mb_Submit n1 n2 ?m a i act ps t)"
  have fresh: "mb_byID ?m i = None" and room: "int (pending_count ?m a) < mb_perAsset ?m" using False by auto
  have new: "i \<notin> snd ` set (mr_submitted s)" using fresh mb_okD(2) [OF ok] by blast
  then have nin: "i \<notin> set (mb_byAsset ?m b)" for b using mb_okD(5) [OF ok] by force
  have step: "mb_step s (MSubmit n1 n2 a i act ps t) = s\<lparr>mr_box := m, mr_submitted := mr_submitted s @ [(a, i)]\<rparr>"
    using False by (simp add: m_def mb_Submit_def Let_def)
  have fifo: "mb_byAsset m = (mb_byAsset ?m)(a := mb_byAsset ?m a @ [i])" "mb_perAsset m = mb_perAsset ?m"
    using False by (simp_all add: m_def mb_Submit_def Let_def)
  obtain c where ix: "mb_byID m = (mb_byID ?m)(i \<mapsto> c)" "mc_CmdID c = i" "mc_State c = StateQueued"
    using False by (simp add: m_def mb_Submit_def Let_def)
  have st: "in_state m S j = in_state ?m S j" if "j \<noteq> i" for S j using that by (simp add: in_state_def ix)
  have sti: "in_state m S i \<longleftrightarrow> StateQueued \<in> S" for S by (simp add: in_state_def ix)
  have fl: "filter (in_state m S) (mb_byAsset ?m b) = filter (in_state ?m S) (mb_byAsset ?m b)" for S b
    using nin st by (metis filter_cong)
  have sent: "j \<noteq> i" if "j \<in> snd ` set (mr_sent s)" for j
    using that new sent_submitted [OF ok] by blast
  have "subseq (ids_of (mr_sent s) b @ filter (queued m) (mb_byAsset m b)) (ids_of (mr_submitted s @ [(a, i)]) b)" for b
  proof (cases "b = a")
    case True
    have "subseq ((ids_of (mr_sent s) a @ filter (queued ?m) (mb_byAsset ?m a)) @ [i]) (ids_of (mr_submitted s) a @ [i])"
      using mb_okD(8) [OF ok, of a] by (intro list_emb_append_mono) simp_all
    with True show ?thesis by (simp add: fifo fl sti) (simp add: ids_of_def)
  next
    case False
    with mb_okD(8) [OF ok, of b] show ?thesis by (simp add: fifo fl) (simp add: ids_of_def)
  qed
  moreover have "int (pending_count m b) \<le> max 0 (mb_perAsset m)" for b
    using mb_okD(9) [OF ok, of b] room by (simp add: pending_count_def fifo fl sti)
  moreover have "\<forall>j. mb_byID m j \<noteq> None \<longleftrightarrow> j \<in> snd ` set (mr_submitted s @ [(a, i)])"
    using mb_okD(2) [OF ok] by (simp add: ix del: not_None_eq)
  moreover have "\<forall>j d. mb_byID m j = Some d \<longrightarrow> mc_CmdID d = j"
    using mb_okD(3) [OF ok] ix by auto
  moreover have "distinct (mb_byAsset m b) \<and> Pair b ` set (mb_byAsset m b) \<subseteq> set (mr_submitted s @ [(a, i)])" for b
    using mb_okD(4) [OF ok, of b] mb_okD(5) [OF ok] nin by (auto simp: fifo)
  moreover have "\<forall>j \<in> snd ` set (mr_sent s). \<not> queued m j" using mb_okD(7) [OF ok] st sent by blast
  ultimately show ?thesis
    unfolding step mb_ok_def using mb_okD(1,6) [OF ok] new by simp
qed

lemma NextDispatch_eqs:
  fixes a :: string
  assumes "mb_ok s"
  defines "L \<equiv> mb_byAsset (mr_box s) a" and "ix \<equiv> mb_byID (mr_box s)"
  shows "fst (fst (NextDispatch now (mr_box s) a)) = map (\<lambda>i. dispatched_state now (the (ix i))) (filter (due now ix) L)"
    and "mb_byAsset (snd (NextDispatch now (mr_box s) a)) =
           (mb_byAsset (mr_box s))(a := filter (\<lambda>i. \<not> overdue now ix i) L)"
    and "mb_byID (snd (NextDispatch now (mr_box s) a)) = (\<lambda>i. if i \<in> set L then map_option (dispatched_state now) (ix i) else ix i)"
    and "mb_perAsset (snd (NextDispatch now (mr_box s) a)) = mb_perAsset (mr_box s)"
  using next_loop_spec [OF mb_okD(4) [OF assms(1), of a], of now ix]
  by (simp_all add: NextDispatch_def Let_def L_def ix_def)

lemma dispatched_state_keeps [simp]: "mc_CmdID (dispatched_state now c) = mc_CmdID c"
  by (simp add: dispatched_state_def)

lemma dispatched_not_queued: "mc_State (dispatched_state now c) \<noteq> StateQueued"
  by (simp add: dispatched_state_def)

lemma dispatched_pending:
  "mc_State (dispatched_state now c) \<in> {StateQueued, StateDispatched} \<Longrightarrow> mc_State c \<in> {StateQueued, StateDispatched}"
  by (auto simp: dispatched_state_def split: if_splits)

lemma mb_Next_ok:
  assumes ok: "mb_ok s"
  shows "mb_ok (mb_step s (MNext now a))"
proof -
  let ?m = "mr_box s" and ?L = "mb_byAsset (mr_box s) a" and ?ix = "mb_byID (mr_box s)"
  define m where "m = snd (NextDispatch now ?m a)"
  define D where "D = filter (due now ?ix) ?L"
  note eqs = NextDispatch_eqs [OF ok, of now a, folded m_def D_def]
  have ids: "map (\<lambda>c. (a, mc_CmdID c)) (fst (fst (NextDispatch now ?m a))) = map (Pair a) D"
    unfolding eqs(1) using mb_okD(3) [OF ok] by (auto simp: D_def due_def split: option.splits)
  have step: "mb_step s (MNext now a) = s\<lparr>mr_box := m, mr_sent := mr_sent s @ map (Pair a) D\<rparr>"
    using ids by (simp add: case_prod_unfold Let_def m_def)
  have q: "queued m i \<Longrightarrow> i \<notin> set ?L \<and> queued ?m i" for i
    using dispatched_not_queued by (auto simp: in_state_def eqs(3) split: option.splits if_splits)
  have p: "in_state m {StateQueued, StateDispatched} i \<Longrightarrow> in_state ?m {StateQueued, StateDispatched} i" for i
    using dispatched_pending by (fastforce simp: in_state_def eqs(3) split: option.splits if_splits)
  have dq: "queued ?m i" if "due now ?ix i" for i using that by (auto simp: due_def in_state_def split: option.splits)
  have sub: "subseq (ids_of (mr_sent s @ map (Pair a) D) b @ filter (queued m) (mb_byAsset m b)) (ids_of (mr_submitted s) b)" for b
  proof -
    have "subseq (ids_of (map (Pair a) D) b @ filter (queued m) (mb_byAsset m b)) (filter (queued ?m) (mb_byAsset ?m b))"
    proof (cases "b = a")
      case True
      have "filter (queued m) (mb_byAsset m a) = []" using q by (auto simp: eqs(2) filter_empty_conv)
      moreover have "subseq D (filter (queued ?m) ?L)" unfolding D_def by (rule subseq_filter_mono) (rule dq)
      ultimately show ?thesis using True by (simp add: ids_of_tagged)
    next
      case False
      then show ?thesis using q by (auto simp: ids_of_tagged eqs(2) intro!: subseq_filter_mono)
    qed
    then have "subseq (ids_of (mr_sent s) b @ ids_of (map (Pair a) D) b @ filter (queued m) (mb_byAsset m b))
        (ids_of (mr_sent s) b @ filter (queued ?m) (mb_byAsset ?m b))"
      by (intro list_emb_append_mono) simp_all
    with mb_okD(8) [OF ok, of b] show ?thesis by (auto intro: subseq_order.order_trans)
  qed
  have cap: "int (pending_count m b) \<le> max 0 (mb_perAsset m)" for b
  proof -
    have "subseq (mb_byAsset m b) (mb_byAsset ?m b)" by (simp add: eqs(2) subseq_filter_left)
    then have "subseq (filter (in_state m {StateQueued, StateDispatched}) (mb_byAsset m b))
        (filter (in_state m {StateQueued, StateDispatched}) (mb_byAsset ?m b))" by (rule subseq_filter)
    also have "subseq \<dots> (filter (in_state ?m {StateQueued, StateDispatched}) (mb_byAsset ?m b))"
      by (rule subseq_filter_mono) (rule p)
    finally have "pending_count m b \<le> pending_count ?m b" unfolding pending_count_def by (rule list_emb_length)
    with mb_okD(9) [OF ok, of b] show ?thesis by (simp add: eqs(4))
  qed
  have "distinct (map snd (mr_sent s @ map (Pair a) D))"
    using mb_okD(4,6,7) [OF ok] dq by (auto simp: D_def comp_def)
  moreover have "\<forall>i \<in> snd ` set (mr_sent s @ map (Pair a) D). \<not> queued m i"
    using q mb_okD(7) [OF ok] by (auto simp: D_def)
  moreover have "\<forall>i. mb_byID m i \<noteq> None \<longleftrightarrow> i \<in> snd ` set (mr_submitted s)"
    using mb_okD(2) [OF ok] by (simp add: eqs(3) del: not_None_eq)
  moreover have "\<forall>i c. mb_byID m i = Some c \<longrightarrow> mc_CmdID c = i"
    using mb_okD(3) [OF ok] by (auto simp: eqs(3) split: if_splits)
  moreover have "distinct (mb_byAsset m b) \<and> Pair b ` set (mb_byAsset m b) \<subseteq> set (mr_submitted s)" for b
    using mb_okD(4,5) [OF ok] by (auto simp: eqs(2))
  ultimately show ?thesis unfolding step mb_ok_def using mb_okD(1) [OF ok] sub cap by simp
qed

lemma mb_ok_start: "mb_ok (mb_start perAsset ttl)"
  by (simp add: mb_ok_def mb_start_def NewMailbox_def ids_of_def pending_count_def)

lemma mb_step_ok: "mb_ok s \<Longrightarrow> mb_ok (mb_step s op)"
  by (cases op) (auto simp: mb_Submit_ok mb_Cancel_ok mb_Next_ok mb_Wait_ok mb_Complete_ok simp del: mb_step.simps)

lemma mb_run_ok: "mb_ok s \<Longrightarrow> mb_ok (foldl mb_step s ops)"
  by (induction ops arbitrary: s) (auto simp: mb_step_ok)

lemma mb_history_ok: "mb_ok (mb_history perAsset ttl ops)"
  unfolding mb_history_def by (intro mb_run_ok mb_ok_start)

section \<open>Properties\<close>

text \<open>
  C9: whatever the interleaving of submissions, cancellations, dispatches and results,
  no command id is handed out twice, to the same asset or to another one, and each asset
  receives its commands in the order in which they were submitted to it.
\<close>

theorem mailbox_fifo_at_most_once:
  "distinct (map snd (mr_sent (mb_history perAsset ttl ops))) \<and>
   subseq (ids_of (mr_sent (mb_history perAsset ttl ops)) a) (ids_of (mr_submitted (mb_history perAsset ttl ops)) a)"
proof -
  let ?s = "mb_history perAsset ttl ops"
  have ok: "mb_ok ?s" by (rule mb_history_ok)
  have "subseq (ids_of (mr_sent ?s) a) (ids_of (mr_sent ?s) a @ filter (queued (mr_box ?s)) (mb_byAsset (mr_box ?s) a))"
    using subseq_append' [of "ids_of (mr_sent ?s) a" "[]"] by simp
  with mb_okD(6,8) [OF ok] show ?thesis by (blast intro: subseq_order.order_trans)
qed

text \<open>
  At no time does an asset have more commands waiting or in flight than its mailbox
  admits.
\<close>

theorem mailbox_bounded:
  "int (pending_count (mr_box (mb_history perAsset ttl ops)) a) \<le> max 0 perAsset"
proof -
  have "mb_perAsset (mr_box (foldl mb_step s ops)) = mb_perAsset (mr_box s)" for s
  proof (induction ops arbitrary: s)
    case (Cons op ops)
    have "mb_perAsset (mr_box (mb_step s op)) = mb_perAsset (mr_box s)"
      by (cases op) (auto simp: mb_Submit_def mb_Cancel_def NextDispatch_def mb_Wait_def mb_Complete_def Let_def
          case_prod_unfold split: option.splits CommandState.splits)
    with Cons show ?case by simp
  qed simp
  then have "mb_perAsset (mr_box (mb_history perAsset ttl ops)) = perAsset"
    by (simp add: mb_history_def mb_start_def NewMailbox_def)
  then show ?thesis using mb_okD(9) [OF mb_history_ok, of perAsset ttl ops a] by simp
qed

text \<open>
  C10: a dispatch hands out, oldest first, every command of the asset that is queued and
  within its time to live, unchanged but for its state, together with all cancellations
  recorded for the asset. No command of another asset changes state, and what was due or
  overdue is then dispatched or expired.
\<close>

theorem dispatch_hands_out_all_due:
  fixes perAsset ttl :: int and ops :: "mb_op list"
  defines "m \<equiv> mr_box (mb_history perAsset ttl ops)"
  shows "NextDispatch now m a =
    ((map (\<lambda>i. (the (mb_byID m i))\<lparr>mc_State := StateDispatched\<rparr>) (filter (due now (mb_byID m)) (mb_byAsset m a)),
      mb_pendingCancels m a),
     m\<lparr>mb_byAsset := (mb_byAsset m)(a := filter (\<lambda>i. \<not> overdue now (mb_byID m) i) (mb_byAsset m a)),
       mb_byID := (\<lambda>i. if i \<in> set (mb_byAsset m a) then map_option (dispatched_state now) (mb_byID m i) else mb_byID m i),
       mb_pendingCancels := (mb_pendingCancels m)(a := [])\<rparr>)"
proof -
  have d: "distinct (mb_byAsset m a)" unfolding m_def by (rule mb_okD(4) [OF mb_history_ok])
  have "dispatched_state now (the (mb_byID m i)) = (the (mb_byID m i))\<lparr>mc_State := StateDispatched\<rparr>"
    if "due now (mb_byID m) i" for i
    using that by (auto simp: due_def dispatched_state_def split: option.splits)
  then have "map (\<lambda>i. dispatched_state now (the (mb_byID m i))) (filter (due now (mb_byID m)) (mb_byAsset m a)) =
      map (\<lambda>i. (the (mb_byID m i))\<lparr>mc_State := StateDispatched\<rparr>) (filter (due now (mb_byID m)) (mb_byAsset m a))"
    by (intro map_cong) auto
  then show ?thesis by (simp add: NextDispatch_def next_loop_spec [OF d] Let_def)
qed

text \<open>
  Once a known command is cancelled, expired, completed or already handed out, no
  later step hands it out. This is what makes a cancellation before dispatch effective; it
  also means that a command taken by a control stream that breaks before sending it is not
  offered to the next one.
\<close>

theorem retired_command_never_dispatched:
  assumes "mb_byID (mr_box (mb_history perAsset ttl before)) i = Some c" "mc_State c \<noteq> StateQueued"
  shows "count_list (map snd (mr_sent (mb_history perAsset ttl (before @ later)))) i =
    count_list (map snd (mr_sent (mb_history perAsset ttl before))) i"
proof -
  have "count_list (map snd (mr_sent (foldl mb_step s ops))) i = count_list (map snd (mr_sent s)) i"
    if "mb_ok s" "mb_byID (mr_box s) i \<noteq> None" "\<not> queued (mr_box s) i" for s ops
    using that
  proof (induction ops arbitrary: s)
    case (Cons op ops)
    let ?t = "mb_step s op"
    have ok: "mb_ok ?t" using Cons.prems(1) by (rule mb_step_ok)
    have "mb_byID (mr_box ?t) i \<noteq> None \<and> \<not> queued (mr_box ?t) i \<and>
        count_list (map snd (mr_sent ?t)) i = count_list (map snd (mr_sent s)) i"
    proof (cases op)
      case (MNext now a)
      note eqs = NextDispatch_eqs [OF Cons.prems(1), of now a]
      have "\<not> due now (mb_byID (mr_box s)) j \<or> mc_CmdID (the (mb_byID (mr_box s) j)) \<noteq> i" for j
        using Cons.prems mb_okD(3) [OF Cons.prems(1), of j] by (auto simp: due_def in_state_def split: option.splits)
      then have "i \<notin> set (map mc_CmdID (fst (fst (NextDispatch now (mr_box s) a))))" by (auto simp: eqs(1))
      moreover have "mr_sent ?t = mr_sent s @ map (\<lambda>c. (a, mc_CmdID c)) (fst (fst (NextDispatch now (mr_box s) a)))"
        "mr_box ?t = snd (NextDispatch now (mr_box s) a)"
        by (simp_all add: MNext case_prod_unfold Let_def)
      ultimately show ?thesis
        using Cons.prems dispatched_not_queued by (auto simp: eqs(3) in_state_def comp_def count_list_0_iff split: option.splits)
    qed (use Cons.prems in \<open>auto simp: mb_Submit_def mb_Cancel_def mb_Wait_def mb_Complete_def in_state_def Let_def
         case_prod_unfold split: option.splits CommandState.splits\<close>)
    with Cons.IH [OF ok] show ?case by simp
  qed simp
  from this [OF mb_history_ok, of perAsset ttl before later] assms show ?thesis
    by (simp add: mb_history_def in_state_def)
qed

theorem retired_command_never_dispatched_witness:
  "count_list (map snd (mr_sent (mb_history 4 100 ([MSubmit 0 0 ''h'' ''c1'' ''x'' [] 5, MCancel ''h'' ''c1''] @ [MNext 1 ''h''])))) ''c1''
     = 0"
proof -
  let ?s = "mb_history 4 100 [MSubmit 0 0 ''h'' ''c1'' ''x'' [] 5, MCancel ''h'' ''c1'']"
  obtain c where c: "mb_byID (mr_box ?s) ''c1'' = Some c" "mc_State c \<noteq> StateQueued" and n: "mr_sent ?s = []"
    by (simp add: mb_history_def mb_start_def NewMailbox_def mb_Submit_def mb_Cancel_def pending_count_def signalLocked_def Let_def)
  from retired_command_never_dispatched [OF c, of "[MNext 1 ''h'']"] n show ?thesis by simp
qed

end
