(* ===== verification/Platform_Store.thy ===== *)
theory Platform_Store
  imports Agent_Prelude "HOL-Library.Sublist"
begin

text \<open>
  \<^verbatim>\<open>internal/platform/store.go\<close>: the persisted command state machine, its outbox, and the
  enrolment ledger. A table is a map from its primary key or the list of its rows in key
  order. Every method is one transaction or one statement, so it is a function from database
  to database: a database error (\<open>dbok = False\<close>) rolls back and leaves it unchanged. The JSON
  payload of an outbox row is the record its consumer decodes, absent fields zero. Times are
  in seconds.
\<close>

section \<open>Tables\<close>

record command_row =
  cr_asset :: string
  cr_action :: string
  cr_params :: smap
  cr_status :: string
  cr_timeout :: int
  cr_expires :: int
  cr_result :: "bytes option"

record event_row =
  er_cmd :: string
  er_type :: string
  er_from :: "string option"
  er_to :: string
  er_actor :: string

record outbox_payload =
  p_CmdID :: string
  p_AssetID :: string
  p_Action :: string
  p_Params :: smap
  p_TimeoutSec :: int

record outbox_row =
  ob_id :: nat
  ob_cmd :: string
  ob_type :: string
  ob_payload :: outbox_payload
  ob_available :: int
  ob_attempts :: nat
  ob_lockedBy :: "string option"
  ob_lockedUntil :: "int option"
  ob_published :: "int option"
  ob_error :: "string option"

record enrollment_row =
  en_token :: string
  en_pubkey :: string
  en_asset :: string
  en_cert :: "nat option"
  en_status :: string
  en_certDER :: bytes
  en_notAfter :: int

record cert_row =
  ct_id :: nat
  ct_asset :: string
  ct_serial :: string
  ct_fingerprint :: string
  ct_notBefore :: int
  ct_notAfter :: int
  ct_status :: string

record Store =
  st_command :: "string \<rightharpoonup> command_row"
  st_event :: "event_row list"
  st_outbox :: "outbox_row list"
  st_enrollment :: "string \<rightharpoonup> enrollment_row"
  st_cert :: "cert_row list"

datatype store_error = ErrDuplicate | ErrNotFound | DbError | NotInProcessing string

definition empty_store :: Store where
  "empty_store = \<lparr>st_command = Map.empty, st_event = [], st_outbox = [], st_enrollment = Map.empty, st_cert = []\<rparr>"

section \<open>The command state machine\<close>

definition new_outbox :: "int \<Rightarrow> Store \<Rightarrow> string \<Rightarrow> string \<Rightarrow> outbox_payload \<Rightarrow> outbox_row" where
  "new_outbox now st cmdID typ payload = \<lparr>ob_id = length (st_outbox st), ob_cmd = cmdID, ob_type = typ, ob_payload = payload,
     ob_available = now, ob_attempts = 0, ob_lockedBy = None, ob_lockedUntil = None, ob_published = None, ob_error = None\<rparr>"

definition SubmitCommand ::
  "bool \<Rightarrow> int \<Rightarrow> Store \<Rightarrow> string \<Rightarrow> string \<Rightarrow> string \<Rightarrow> smap \<Rightarrow> int \<Rightarrow> int \<Rightarrow> store_error option \<times> Store" where
  "SubmitCommand dbok now st cmdID assetID action params timeoutSec ttl =
     (if \<not> dbok then (Some DbError, st)
      else if st_command st cmdID \<noteq> None then (Some ErrDuplicate, st)
      else (let row = \<lparr>cr_asset = assetID, cr_action = action, cr_params = params, cr_status = ''QUEUED'',
                       cr_timeout = timeoutSec, cr_expires = now + ttl, cr_result = None\<rparr>;
                ev = \<lparr>er_cmd = cmdID, er_type = ''created'', er_from = None, er_to = ''QUEUED'', er_actor = ''admin''\<rparr>;
                payload = \<lparr>p_CmdID = cmdID, p_AssetID = assetID, p_Action = action, p_Params = params,
                           p_TimeoutSec = timeoutSec\<rparr>
            in (None, st\<lparr>st_command := (st_command st)(cmdID \<mapsto> row), st_event := st_event st @ [ev],
                  st_outbox := st_outbox st @ [new_outbox now st cmdID ''DISPATCH_REQUESTED'' payload]\<rparr>)))"

definition Transition ::
  "bool \<Rightarrow> Store \<Rightarrow> string \<Rightarrow> string \<Rightarrow> string \<Rightarrow> string \<Rightarrow> store_error option \<times> Store" where
  "Transition dbok st cmdID eventType toStatus actor =
     (if \<not> dbok then (Some DbError, st)
      else case st_command st cmdID of
        None \<Rightarrow> (Some ErrNotFound, st)
      | Some row \<Rightarrow>
          (None, st\<lparr>st_command := (st_command st)(cmdID \<mapsto> row\<lparr>cr_status := toStatus\<rparr>),
                    st_event := st_event st @ [\<lparr>er_cmd = cmdID, er_type = eventType, er_from = Some (cr_status row),
                                                er_to = toStatus, er_actor = actor\<rparr>]\<rparr>))"

definition CompleteCommand :: "bool \<Rightarrow> Store \<Rightarrow> string \<Rightarrow> string \<Rightarrow> bytes option \<Rightarrow> store_error option \<times> Store" where
  "CompleteCommand dbok st cmdID terminalStatus result =
     (if \<not> dbok then (Some DbError, st)
      else case st_command st cmdID of
        None \<Rightarrow> (Some ErrNotFound, st)
      | Some row \<Rightarrow>
          (None, st\<lparr>st_command := (st_command st)(cmdID \<mapsto> row\<lparr>cr_status := terminalStatus, cr_result := result\<rparr>),
                    st_event := st_event st @ [\<lparr>er_cmd = cmdID, er_type = ''result_received'', er_from = Some (cr_status row),
                                                er_to = terminalStatus, er_actor = ''agent''\<rparr>]\<rparr>))"

definition CancelCommand :: "bool \<Rightarrow> int \<Rightarrow> Store \<Rightarrow> string \<Rightarrow> store_error option \<times> Store" where
  "CancelCommand dbok now st cmdID =
     (if \<not> dbok then (Some DbError, st)
      else (let payload = \<lparr>p_CmdID = cmdID, p_AssetID = [], p_Action = [], p_Params = [], p_TimeoutSec = 0\<rparr>
            in (None, st\<lparr>st_outbox := st_outbox st @ [new_outbox now st cmdID ''CANCEL_REQUESTED'' payload]\<rparr>)))"

section \<open>The outbox\<close>

definition claimable :: "int \<Rightarrow> outbox_row \<Rightarrow> bool" where
  "claimable now r \<longleftrightarrow> ob_published r = None \<and> ob_available r \<le> now \<and>
     (case ob_lockedUntil r of None \<Rightarrow> True | Some t \<Rightarrow> t < now)"

definition claim :: "string \<Rightarrow> int \<Rightarrow> outbox_row \<Rightarrow> outbox_row" where
  "claim worker now r = r\<lparr>ob_lockedBy := Some worker, ob_lockedUntil := Some (now + 30), ob_attempts := Suc (ob_attempts r)\<rparr>"

definition FetchOutbox :: "bool \<Rightarrow> int \<Rightarrow> Store \<Rightarrow> string \<Rightarrow> nat \<Rightarrow> (store_error + outbox_row list) \<times> Store" where
  "FetchOutbox dbok now st worker limit =
     (if \<not> dbok then (Inl DbError, st)
      else (let ids = map ob_id (take limit (filter (claimable now) (st_outbox st)));
                rows = map (\<lambda>r. if ob_id r \<in> set ids then claim worker now r else r) (st_outbox st)
            in (Inr (filter (\<lambda>r. ob_id r \<in> set ids) rows), st\<lparr>st_outbox := rows\<rparr>)))"

definition update_outbox :: "Store \<Rightarrow> nat \<Rightarrow> (outbox_row \<Rightarrow> outbox_row) \<Rightarrow> Store" where
  "update_outbox st i f = st\<lparr>st_outbox := map (\<lambda>r. if ob_id r = i then f r else r) (st_outbox st)\<rparr>"

definition MarkPublished :: "bool \<Rightarrow> int \<Rightarrow> Store \<Rightarrow> nat \<Rightarrow> store_error option \<times> Store" where
  "MarkPublished dbok now st eventID =
     (if \<not> dbok then (Some DbError, st) else (None, update_outbox st eventID (\<lambda>r. r\<lparr>ob_published := Some now\<rparr>)))"

definition MarkOutboxError :: "bool \<Rightarrow> Store \<Rightarrow> nat \<Rightarrow> string \<Rightarrow> store_error option \<times> Store" where
  "MarkOutboxError dbok st eventID errMsg =
     (if \<not> dbok then (Some DbError, st)
      else (None, update_outbox st eventID (\<lambda>r. r\<lparr>ob_lockedBy := None, ob_lockedUntil := None, ob_error := Some errMsg\<rparr>)))"

section \<open>Queries\<close>

record CommandInfo =
  ci_CmdID :: string
  ci_AssetID :: string
  ci_Action :: string
  ci_Status :: string
  ci_Result :: "bytes option"
  ci_Events :: "event_row list"

definition CommandStatus :: "bool \<Rightarrow> Store \<Rightarrow> string \<Rightarrow> store_error + CommandInfo" where
  "CommandStatus dbok st cmdID =
     (if \<not> dbok then Inl DbError
      else case st_command st cmdID of
        None \<Rightarrow> Inl ErrNotFound
      | Some row \<Rightarrow> Inr \<lparr>ci_CmdID = cmdID, ci_AssetID = cr_asset row, ci_Action = cr_action row, ci_Status = cr_status row,
                         ci_Result = cr_result row, ci_Events = filter (\<lambda>e. er_cmd e = cmdID) (st_event st)\<rparr>)"

section \<open>The enrolment ledger\<close>

record EnrollmentRecord =
  er_Status :: string
  er_AssetID :: string
  er_CertDER :: bytes
  er_NotAfter :: int

definition FindEnrollment :: "bool \<Rightarrow> Store \<Rightarrow> string \<Rightarrow> store_error + EnrollmentRecord option" where
  "FindEnrollment dbok st enrollID =
     (if \<not> dbok then Inl DbError
      else case st_enrollment st enrollID of
        None \<Rightarrow> Inr None
      | Some e \<Rightarrow>
          Inr (Some (if en_status e = ''completed'' \<and> en_certDER e \<noteq> []
                     then \<lparr>er_Status = en_status e, er_AssetID = en_asset e, er_CertDER = en_certDER e, er_NotAfter = en_notAfter e\<rparr>
                     else \<lparr>er_Status = en_status e, er_AssetID = en_asset e, er_CertDER = [], er_NotAfter = 0\<rparr>)))"

definition BeginEnrollment :: "bool \<Rightarrow> Store \<Rightarrow> string \<Rightarrow> string \<Rightarrow> string \<Rightarrow> (store_error + bool) \<times> Store" where
  "BeginEnrollment dbok st enrollID tokenHash pubkeyHash =
     (if \<not> dbok then (Inl DbError, st)
      else if st_enrollment st enrollID \<noteq> None then (Inr False, st)
      else (Inr True, st\<lparr>st_enrollment := (st_enrollment st)(enrollID \<mapsto>
              \<lparr>en_token = tokenHash, en_pubkey = pubkeyHash, en_asset = [], en_cert = None, en_status = ''processing'',
               en_certDER = [], en_notAfter = 0\<rparr>)\<rparr>))"

definition FailEnrollment :: "bool \<Rightarrow> Store \<Rightarrow> string \<Rightarrow> store_error option \<times> Store" where
  "FailEnrollment dbok st enrollID =
     (if \<not> dbok then (Some DbError, st)
      else case st_enrollment st enrollID of
        None \<Rightarrow> (None, st)
      | Some e \<Rightarrow> (None, if en_status e = ''processing''
                          then st\<lparr>st_enrollment := (st_enrollment st)(enrollID := None)\<rparr> else st))"

text \<open>The unique constraints of the certificate ledger make a colliding insert an error.\<close>

definition insert_cert :: "Store \<Rightarrow> string \<Rightarrow> string \<Rightarrow> string \<Rightarrow> int \<Rightarrow> int \<Rightarrow> (nat \<times> Store) option" where
  "insert_cert st assetID serial fingerprint notBefore notAfter =
     (if list_ex (\<lambda>c. ct_serial c = serial \<or> ct_fingerprint c = fingerprint) (st_cert st) then None
      else (let i = length (st_cert st)
            in Some (i, st\<lparr>st_cert := st_cert st @ [\<lparr>ct_id = i, ct_asset = assetID, ct_serial = serial,
                 ct_fingerprint = fingerprint, ct_notBefore = notBefore, ct_notAfter = notAfter, ct_status = ''active''\<rparr>]\<rparr>)))"

definition CompleteEnrollment ::
  "bool \<Rightarrow> Store \<Rightarrow> string \<Rightarrow> string \<Rightarrow> string \<Rightarrow> string \<Rightarrow> int \<Rightarrow> int \<Rightarrow> bytes \<Rightarrow> store_error option \<times> Store" where
  "CompleteEnrollment dbok st enrollID assetID serial fingerprint notBefore notAfter certDER =
     (if \<not> dbok then (Some DbError, st)
      else case insert_cert st assetID serial fingerprint notBefore notAfter of
        None \<Rightarrow> (Some DbError, st)
      | Some (certID, st') \<Rightarrow>
          (case st_enrollment st enrollID of
             Some e \<Rightarrow>
               if en_status e = ''processing''
               then (None, st'\<lparr>st_enrollment := (st_enrollment st')(enrollID \<mapsto>
                       e\<lparr>en_asset := assetID, en_cert := Some certID, en_status := ''completed'', en_certDER := certDER,
                         en_notAfter := notAfter\<rparr>)\<rparr>)
               else (Some (NotInProcessing enrollID), st)
           | None \<Rightarrow> (Some (NotInProcessing enrollID), st)))"

definition RotateCertificateTx ::
  "bool \<Rightarrow> Store \<Rightarrow> string \<Rightarrow> string \<Rightarrow> string \<Rightarrow> int \<Rightarrow> int \<Rightarrow> store_error option \<times> Store" where
  "RotateCertificateTx dbok st assetID serial fingerprint notBefore notAfter =
     (if \<not> dbok then (Some DbError, st)
      else (let hit = (\<lambda>c. ct_asset c = assetID \<and> ct_status c = ''active'');
                st1 = st\<lparr>st_cert := map (\<lambda>c. if hit c then c\<lparr>ct_status := ''superseded''\<rparr> else c) (st_cert st)\<rparr>
            in if \<not> list_ex hit (st_cert st) then (Some ErrNotFound, st)
               else case insert_cert st1 assetID serial fingerprint notBefore notAfter of
                 None \<Rightarrow> (Some DbError, st)
               | Some (i, st2) \<Rightarrow> (None, st2)))"

section \<open>Identifiers\<close>

unbundle bit_operations_syntax

text \<open>\<^verbatim>\<open>NewUUID\<close> on the sixteen random bytes it draws.\<close>

definition NewUUID :: "bytes \<Rightarrow> string" where
  "NewUUID rnd =
     (let b = rnd[6 := (rnd ! 6 AND 0x0f) OR 0x40];
          b = b[8 := (b ! 8 AND 0x3f) OR 0x80]
      in hex_encode (take 4 b) @ ''-'' @ hex_encode (take 2 (drop 4 b)) @ ''-'' @ hex_encode (take 2 (drop 6 b)) @ ''-'' @
         hex_encode (take 2 (drop 8 b)) @ ''-'' @ hex_encode (take 6 (drop 10 b)))"

section \<open>Reachable databases\<close>

inductive store_step :: "Store \<Rightarrow> Store \<Rightarrow> bool" where
  "store_step st (snd (SubmitCommand ok now st i a act ps t ttl))"
| "store_step st (snd (Transition ok st i typ to actor))"
| "store_step st (snd (CompleteCommand ok st i to res))"
| "store_step st (snd (CancelCommand ok now st i))"
| "store_step st (snd (FetchOutbox ok now st w lim))"
| "store_step st (snd (MarkPublished ok now st n))"
| "store_step st (snd (MarkOutboxError ok st n msg))"
| "store_step st (snd (BeginEnrollment ok st e tok pk))"
| "store_step st (snd (FailEnrollment ok st e))"
| "store_step st (snd (CompleteEnrollment ok st e a ser fp nb na der))"
| "store_step st (snd (RotateCertificateTx ok st a ser fp nb na))"

inductive_cases store_stepE: "store_step st st'"

inductive store_reach :: "Store \<Rightarrow> bool" where
  store_empty: "store_reach empty_store"
| store_more: "store_reach st \<Longrightarrow> store_step st st' \<Longrightarrow> store_reach st'"

definition events_of :: "Store \<Rightarrow> string \<Rightarrow> event_row list" where
  "events_of st i = filter (\<lambda>e. er_cmd e = i) (st_event st)"

text \<open>A history of transitions: each one starts where the previous one ended.\<close>

fun chain_from :: "string option \<Rightarrow> event_row list \<Rightarrow> bool" where
  "chain_from s [] = True"
| "chain_from s (e # es) \<longleftrightarrow> er_from e = s \<and> chain_from (Some (er_to e)) es"

lemma chain_from_snoc:
  "chain_from s (es @ [e]) \<longleftrightarrow> chain_from s es \<and> er_from e = (if es = [] then s else Some (er_to (last es)))"
  by (induction s es rule: chain_from.induct) auto

definition dispatches :: "Store \<Rightarrow> string \<Rightarrow> outbox_payload list" where
  "dispatches st i = map ob_payload (filter (\<lambda>r. ob_cmd r = i \<and> ob_type r = ''DISPATCH_REQUESTED'') (st_outbox st))"

definition dispatch_payload :: "string \<Rightarrow> command_row \<Rightarrow> outbox_payload" where
  "dispatch_payload i row = \<lparr>p_CmdID = i, p_AssetID = cr_asset row, p_Action = cr_action row, p_Params = cr_params row,
     p_TimeoutSec = cr_timeout row\<rparr>"

definition command_ok :: "Store \<Rightarrow> string \<Rightarrow> bool" where
  "command_ok st i =
     (case st_command st i of
        None \<Rightarrow> events_of st i = [] \<and> dispatches st i = []
      | Some row \<Rightarrow> events_of st i \<noteq> [] \<and> chain_from None (events_of st i) \<and> er_type (hd (events_of st i)) = ''created'' \<and>
          er_to (last (events_of st i)) = cr_status row \<and> dispatches st i = [dispatch_payload i row])"

definition store_ok :: "Store \<Rightarrow> bool" where
  "store_ok st \<longleftrightarrow> (\<forall>i. command_ok st i) \<and> map ob_id (st_outbox st) = [0 ..< length (st_outbox st)]"

lemma command_ok_cong:
  assumes "st_command st' i = st_command st i" "events_of st' i = events_of st i" "dispatches st' i = dispatches st i"
  shows "command_ok st' i = command_ok st i"
  unfolding command_ok_def assms ..

lemma store_ok_cong:
  assumes "store_ok st" "st_command st' = st_command st" "st_event st' = st_event st" "st_outbox st' = st_outbox st"
  shows "store_ok st'"
  using assms command_ok_cong [of st' _ st] by (simp add: store_ok_def events_of_def dispatches_def)

lemma command_ok_fresh: "command_ok st i \<Longrightarrow> st_command st i = None \<Longrightarrow> events_of st i = [] \<and> dispatches st i = []"
  by (simp add: command_ok_def)

lemma SubmitCommand_ok:
  assumes "store_ok st"
  shows "store_ok (snd (SubmitCommand dbok now st i a act ps t ttl))"
proof (cases "dbok \<and> st_command st i = None")
  case True
  let ?st = "snd (SubmitCommand dbok now st i a act ps t ttl)"
  have new: "events_of st i = [] \<and> dispatches st i = []"
    using assms True command_ok_fresh by (simp add: store_ok_def)
  have "command_ok ?st j" for j
  proof (cases "j = i")
    case True
    with new \<open>dbok \<and> st_command st i = None\<close> show ?thesis
      by (simp add: command_ok_def SubmitCommand_def events_of_def dispatches_def new_outbox_def dispatch_payload_def Let_def)
  next
    case False
    then have "command_ok ?st j = command_ok st j"
      using True by (intro command_ok_cong) (simp_all add: SubmitCommand_def events_of_def dispatches_def new_outbox_def Let_def)
    with assms show ?thesis by (simp add: store_ok_def)
  qed
  with assms True show ?thesis by (simp add: store_ok_def SubmitCommand_def new_outbox_def Let_def)
next
  case False
  with assms show ?thesis by (auto simp: SubmitCommand_def)
qed

text \<open>Moving a command to another status with the event that records it.\<close>

lemma status_event_ok:
  assumes "store_ok st" "st_command st i = Some row" "er_cmd ev = i" "er_from ev = Some (cr_status row)"
    "er_to ev = cr_status row'" "dispatch_payload i row' = dispatch_payload i row"
  shows "store_ok (st\<lparr>st_command := (st_command st)(i \<mapsto> row'), st_event := st_event st @ [ev]\<rparr>)"
proof -
  let ?st = "st\<lparr>st_command := (st_command st)(i \<mapsto> row'), st_event := st_event st @ [ev]\<rparr>"
  have "command_ok ?st j" for j
  proof (cases "j = i")
    case True
    have "command_ok st i" using assms(1) by (simp add: store_ok_def)
    with True assms(2-6) show ?thesis
      by (simp add: command_ok_def events_of_def dispatches_def chain_from_snoc hd_append)
  next
    case False
    then have "command_ok ?st j = command_ok st j"
      using assms(3) by (intro command_ok_cong) (simp_all add: events_of_def dispatches_def)
    with assms(1) show ?thesis by (simp add: store_ok_def)
  qed
  with assms(1) show ?thesis by (simp add: store_ok_def)
qed

lemma Transition_ok:
  assumes "store_ok st"
  shows "store_ok (snd (Transition dbok st i typ to actor))"
proof (cases "dbok \<and> st_command st i \<noteq> None")
  case True
  then obtain row where "dbok" "st_command st i = Some row" by auto
  with status_event_ok [OF assms, of i row _ "row\<lparr>cr_status := to\<rparr>"] show ?thesis
    by (simp add: Transition_def dispatch_payload_def)
qed (use assms in \<open>auto simp: Transition_def\<close>)

lemma CompleteCommand_ok:
  assumes "store_ok st"
  shows "store_ok (snd (CompleteCommand dbok st i to res))"
proof (cases "dbok \<and> st_command st i \<noteq> None")
  case True
  then obtain row where "dbok" "st_command st i = Some row" by auto
  with status_event_ok [OF assms, of i row _ "row\<lparr>cr_status := to, cr_result := res\<rparr>"] show ?thesis
    by (simp add: CompleteCommand_def dispatch_payload_def)
qed (use assms in \<open>auto simp: CompleteCommand_def\<close>)

lemma CancelCommand_ok:
  assumes "store_ok st"
  shows "store_ok (snd (CancelCommand dbok now st i))"
proof -
  have "command_ok (snd (CancelCommand dbok now st i)) j = command_ok st j" for j
    by (rule command_ok_cong) (simp_all add: CancelCommand_def events_of_def dispatches_def new_outbox_def Let_def)
  with assms show ?thesis by (auto simp: store_ok_def CancelCommand_def new_outbox_def Let_def)
qed

text \<open>Updates of the delivery columns of outbox rows.\<close>

lemma outbox_update_ok:
  assumes "store_ok st"
    and "\<And>r. ob_id (f r) = ob_id r \<and> ob_cmd (f r) = ob_cmd r \<and> ob_type (f r) = ob_type r \<and> ob_payload (f r) = ob_payload r"
  shows "store_ok (st\<lparr>st_outbox := map f (st_outbox st)\<rparr>)"
proof -
  let ?st = "st\<lparr>st_outbox := map f (st_outbox st)\<rparr>"
  have "command_ok ?st i = command_ok st i" for i
    by (rule command_ok_cong) (simp_all add: events_of_def dispatches_def filter_map comp_def assms(2))
  moreover have "map ob_id (map f (st_outbox st)) = map ob_id (st_outbox st)" by (simp add: assms(2))
  ultimately show ?thesis using assms(1) by (simp add: store_ok_def del: map_map)
qed

lemma FetchOutbox_ok: "store_ok st \<Longrightarrow> store_ok (snd (FetchOutbox dbok now st w lim))"
  by (simp add: FetchOutbox_def Let_def) (rule impI, rule outbox_update_ok, auto simp: claim_def)

lemma Mark_ok:
  "store_ok st \<Longrightarrow> store_ok (snd (MarkPublished dbok now st n))"
  "store_ok st \<Longrightarrow> store_ok (snd (MarkOutboxError dbok st n msg))"
  by (auto simp: MarkPublished_def MarkOutboxError_def update_outbox_def intro!: outbox_update_ok)

lemma ledger_ok:
  "store_ok st \<Longrightarrow> store_ok (snd (BeginEnrollment dbok st e tok pk))"
  "store_ok st \<Longrightarrow> store_ok (snd (FailEnrollment dbok st e))"
  "store_ok st \<Longrightarrow> store_ok (snd (CompleteEnrollment dbok st e a ser fp nb na der))"
  "store_ok st \<Longrightarrow> store_ok (snd (RotateCertificateTx dbok st a ser fp nb na))"
  by (erule store_ok_cong;
      auto simp: BeginEnrollment_def FailEnrollment_def CompleteEnrollment_def RotateCertificateTx_def insert_cert_def Let_def
        split: option.splits)+

lemma store_step_ok: "store_step st st' \<Longrightarrow> store_ok st \<Longrightarrow> store_ok st'"
  by (erule store_stepE) (auto simp: SubmitCommand_ok Transition_ok CompleteCommand_ok CancelCommand_ok FetchOutbox_ok Mark_ok ledger_ok)

lemma store_reach_ok: "store_reach st \<Longrightarrow> store_ok st"
proof (induction rule: store_reach.induct)
  case store_empty
  then show ?case by (simp add: store_ok_def command_ok_def empty_store_def events_of_def dispatches_def)
next
  case (store_more st st')
  then show ?case by (simp add: store_step_ok)
qed

section \<open>Properties\<close>

text \<open>
  C14: in every reachable database the event log of a command is its exact history: it
  begins with the creation, every event starts in the status the previous one ended in, and
  the last one ends in the stored status. The outbox holds exactly one dispatch request for
  the command, with the asset, action, parameters and timeout of its row; a command that
  does not exist has neither events nor a dispatch request.
\<close>

theorem command_ledger_consistent:
  assumes "store_reach st"
  shows "case st_command st i of
      None \<Rightarrow> events_of st i = [] \<and> dispatches st i = []
    | Some row \<Rightarrow>
        chain_from None (events_of st i) \<and> er_type (hd (events_of st i)) = ''created'' \<and>
        er_to (last (events_of st i)) = cr_status row \<and> dispatches st i = [dispatch_payload i row] \<and>
        CommandStatus True st i = Inr \<lparr>ci_CmdID = i, ci_AssetID = cr_asset row, ci_Action = cr_action row,
          ci_Status = er_to (last (events_of st i)), ci_Result = cr_result row, ci_Events = events_of st i\<rparr>"
proof -
  have "command_ok st i" using store_reach_ok [OF assms] by (simp add: store_ok_def)
  then show ?thesis by (cases "st_command st i") (simp_all add: command_ok_def CommandStatus_def events_of_def)
qed

definition sample_store :: Store where
  "sample_store = snd (Transition True (snd (SubmitCommand True 0 empty_store ''c1'' ''h'' ''act'' [] 5 300))
     ''c1'' ''delivered'' ''DELIVERED'' ''connector'')"

lemma sample_store_reach: "store_reach sample_store"
  unfolding sample_store_def
  by (rule store_more [OF store_more [OF store_empty store_step.intros(1)] store_step.intros(2)])

theorem command_ledger_consistent_witness:
  "chain_from None (events_of sample_store ''c1'') \<and> er_to (last (events_of sample_store ''c1'')) = ''DELIVERED''"
proof -
  obtain row where "st_command sample_store ''c1'' = Some row" "cr_status row = ''DELIVERED''"
    by (simp add: sample_store_def SubmitCommand_def Transition_def empty_store_def Let_def)
  with command_ledger_consistent [OF sample_store_reach, of "''c1''"] show ?thesis by simp
qed

lemma store_ok_ids: "store_ok st \<Longrightarrow> distinct (map ob_id (st_outbox st))"
  by (simp add: store_ok_def)

lemma subseq_distinct_filter:
  "subseq xs ys \<Longrightarrow> distinct ys \<Longrightarrow> filter (\<lambda>y. y \<in> set xs) ys = xs"
proof (induction rule: list_emb.induct)
  case (list_emb_Nil ys)
  then show ?case by simp
next
  case (list_emb_Cons xs ys y)
  then have "y \<notin> set xs" by (metis distinct.simps(2) filter_is_subset subsetD)
  with list_emb_Cons show ?case by simp
next
  case (list_emb_Cons2 x y xs ys)
  then have "filter (\<lambda>z. z = x \<or> z \<in> set xs) ys = filter (\<lambda>z. z \<in> set xs) ys"
    by (intro filter_cong) auto
  with list_emb_Cons2 show ?case by simp
qed

lemma map_filter_keys:
  "(\<And>r. g (f r) = g r) \<Longrightarrow> map g (filter (\<lambda>r. g r \<in> S) (map f xs)) = filter (\<lambda>i. i \<in> S) (map g xs)"
  by (induction xs) auto

text \<open>
  Fetching claims exactly the first due rows, up to the limit, and a claimed row
  stays invisible to every other fetch for thirty seconds.
\<close>

theorem outbox_claims_exclusive:
  assumes "store_reach st" "FetchOutbox True now st w lim = (Inr rows, st')"
  shows "map ob_id rows = map ob_id (take lim (filter (claimable now) (st_outbox st))) \<and>
    (\<forall>t w' lim' rows' st''. t \<le> now + 30 \<and> FetchOutbox True t st' w' lim' = (Inr rows', st'') \<longrightarrow>
       ob_id ` set rows' \<inter> ob_id ` set rows = {})"
proof
  let ?C = "take lim (filter (claimable now) (st_outbox st))"
  let ?f = "\<lambda>r. if ob_id r \<in> set (map ob_id ?C) then claim w now r else r"
  have rows: "rows = filter (\<lambda>r. ob_id r \<in> set (map ob_id ?C)) (map ?f (st_outbox st))"
    and st': "st_outbox st' = map ?f (st_outbox st)"
    using assms(2) by (auto simp: FetchOutbox_def Let_def)
  have idf: "ob_id (?f r) = ob_id r" for r by (simp add: claim_def)
  have d: "distinct (map ob_id (st_outbox st))" using store_ok_ids [OF store_reach_ok [OF assms(1)]] .
  have sub: "subseq ?C (st_outbox st)"
    by (meson subseq_filter_left subseq_order.order_trans prefix_imp_subseq take_is_prefix)
  have "filter (\<lambda>i. i \<in> set (map ob_id ?C)) (map ob_id (st_outbox st)) = map ob_id ?C"
    using subseq_map [OF sub, of ob_id] d by (rule subseq_distinct_filter)
  then show "map ob_id rows = map ob_id ?C"
    unfolding rows using map_filter_keys [of ob_id ?f "set (map ob_id ?C)" "st_outbox st", OF idf] by simp
  show "\<forall>t w' lim' rows' st''. t \<le> now + 30 \<and> FetchOutbox True t st' w' lim' = (Inr rows', st'') \<longrightarrow>
       ob_id ` set rows' \<inter> ob_id ` set rows = {}"
  proof (intro allI impI, elim conjE)
    fix t w' lim' rows' st''
    assume t: "t \<le> now + 30" and f: "FetchOutbox True t st' w' lim' = (Inr rows', st'')"
    define K where "K = set (map ob_id ?C)"
    define F where "F = {r \<in> set (st_outbox st'). claimable t r}"
    have "ob_id ` set rows' \<subseteq> set (map ob_id (take lim' (filter (claimable t) (st_outbox st'))))"
      using f by (auto simp: FetchOutbox_def Let_def)
    also have "\<dots> \<subseteq> ob_id ` F" by (auto simp: F_def dest: in_set_takeD)
    finally have 1: "ob_id ` set rows' \<subseteq> ob_id ` F" .
    have 2: "ob_id r \<notin> K" if "r \<in> F" for r
      using that t unfolding F_def st' by (auto simp: K_def claim_def claimable_def split: if_splits)
    have 3: "ob_id ` set rows \<subseteq> K" unfolding rows K_def by auto
    have 4: "ob_id ` F \<inter> K = {}" using 2 by auto
    show "ob_id ` set rows' \<inter> ob_id ` set rows = {}"
    proof (rule equals0I)
      fix i
      assume i: "i \<in> ob_id ` set rows' \<inter> ob_id ` set rows"
      have "i \<in> ob_id ` F" using subsetD [OF 1 IntD1 [OF i]] .
      moreover have "i \<in> K" using subsetD [OF 3 IntD2 [OF i]] .
      ultimately show False using 4 by (metis disjoint_iff)
    qed
  qed
qed

theorem outbox_claims_exclusive_witness:
  "\<exists>rows st'. FetchOutbox True 10 sample_store ''connector-1'' 32 = (Inr rows, st') \<and> map ob_id rows = [0]"
proof -
  obtain rows st' where f: "FetchOutbox True 10 sample_store ''connector-1'' 32 = (Inr rows, st')"
    by (simp add: FetchOutbox_def Let_def)
  have "map ob_id (take 32 (filter (claimable 10) (st_outbox sample_store))) = [0]"
    by (simp add: sample_store_def SubmitCommand_def Transition_def empty_store_def new_outbox_def claimable_def Let_def)
  with outbox_claims_exclusive [OF sample_store_reach f] f show ?thesis by auto
qed

text \<open>
  A completed enrolment is final. Completing stores the issued certificate for
  replay; from then on a further completion, a new begin and the failure compensation all
  leave the database as it is, and the lookup returns that certificate.
\<close>

theorem enrollment_completes_once:
  assumes "CompleteEnrollment True st e a ser fp nb na der = (None, st')" "der \<noteq> []"
  shows "FindEnrollment True st' e = Inr (Some \<lparr>er_Status = ''completed'', er_AssetID = a, er_CertDER = der, er_NotAfter = na\<rparr>) \<and>
    snd (CompleteEnrollment True st' e a' ser' fp' nb' na' der') = st' \<and>
    fst (CompleteEnrollment True st' e a' ser' fp' nb' na' der') \<noteq> None \<and>
    BeginEnrollment True st' e tok pk = (Inr False, st') \<and> FailEnrollment True st' e = (None, st')"
proof -
  obtain row where "st_enrollment st' e = Some row" "en_status row = ''completed''" "en_asset row = a"
    "en_certDER row = der" "en_notAfter row = na"
    using assms(1) by (auto simp: CompleteEnrollment_def split: option.splits if_splits)
  with assms(2) show ?thesis
    by (auto simp: FindEnrollment_def CompleteEnrollment_def BeginEnrollment_def FailEnrollment_def split: option.splits)
qed

theorem enrollment_completes_once_witness:
  "\<exists>st'. CompleteEnrollment True (snd (BeginEnrollment True empty_store ''e1'' ''t'' ''k'')) ''e1'' ''h'' ''s1'' ''f1'' 0 9 [1] = (None, st') \<and>
     FailEnrollment True st' ''e1'' = (None, st')"
proof -
  obtain st' where c: "CompleteEnrollment True (snd (BeginEnrollment True empty_store ''e1'' ''t'' ''k''))
      ''e1'' ''h'' ''s1'' ''f1'' 0 9 [1] = (None, st')"
    by (simp add: CompleteEnrollment_def BeginEnrollment_def empty_store_def insert_cert_def Let_def)
  from enrollment_completes_once [OF c] c show ?thesis by auto
qed

text \<open>
  Rotating leaves the asset with exactly one active certificate, the new one, supersedes the
  others and touches no other asset; it fails without a trace when the asset has none.
\<close>

lemma RotateCertificateTx_spec:
  assumes "RotateCertificateTx ok st a ser fp nb na = (err, st')"
  shows "if err = None
    then filter (\<lambda>c. ct_asset c = a \<and> ct_status c = ''active'') (st_cert st') =
           [\<lparr>ct_id = length (st_cert st), ct_asset = a, ct_serial = ser, ct_fingerprint = fp, ct_notBefore = nb,
             ct_notAfter = na, ct_status = ''active''\<rparr>] \<and>
         filter (\<lambda>c. ct_asset c \<noteq> a) (st_cert st') = filter (\<lambda>c. ct_asset c \<noteq> a) (st_cert st) \<and>
         length (st_cert st') = Suc (length (st_cert st))
    else st' = st"
proof -
  let ?f = "\<lambda>c. if ct_asset c = a \<and> ct_status c = ''active'' then c\<lparr>ct_status := ''superseded''\<rparr> else c"
  have none: "filter (\<lambda>c. ct_asset c = a \<and> ct_status c = ''active'') (map ?f cs) = []" for cs :: "cert_row list"
    by (induction cs) auto
  have rest: "filter (\<lambda>c. ct_asset c \<noteq> a) (map ?f cs) = filter (\<lambda>c. ct_asset c \<noteq> a) cs" for cs :: "cert_row list"
    by (induction cs) auto
  show ?thesis
  proof (cases "err = None")
    case True
    with assms have "st_cert st' = map ?f (st_cert st) @ [\<lparr>ct_id = length (st_cert st), ct_asset = a, ct_serial = ser,
        ct_fingerprint = fp, ct_notBefore = nb, ct_notAfter = na, ct_status = ''active''\<rparr>]"
      by (auto simp: RotateCertificateTx_def insert_cert_def Let_def split: if_splits option.splits)
    with True none rest show ?thesis by simp
  next
    case False
    with assms show ?thesis by (auto simp: RotateCertificateTx_def Let_def split: if_splits option.splits)
  qed
qed

text \<open>
  The store does not guard the documented order of states. A delivery
  notice that arrives after the result replaces the terminal status with \<^verbatim>\<open>DELIVERED\<close>,
  although the result is stored, and nothing later corrects it.
\<close>

theorem late_delivery_overwrites_terminal:
  assumes "st_command st i = Some row"
  shows "let st1 = snd (CompleteCommand True st i ''SUCCEEDED'' (Some res));
             st2 = snd (Transition True st1 i ''delivered'' ''DELIVERED'' ''connector'')
    in map_option cr_status (st_command st1 i) = Some ''SUCCEEDED'' \<and>
       st_command st2 i = Some (row\<lparr>cr_status := ''DELIVERED'', cr_result := Some res\<rparr>)"
  using assms by (simp add: CompleteCommand_def Transition_def Let_def)

theorem late_delivery_overwrites_terminal_witness:
  "\<exists>row st2. st_command sample_store ''c1'' = Some row \<and>
     st2 = snd (Transition True (snd (CompleteCommand True sample_store ''c1'' ''SUCCEEDED'' (Some [1]))) ''c1'' ''delivered''
       ''DELIVERED'' ''connector'') \<and> map_option cr_status (st_command st2 ''c1'') = Some ''DELIVERED''"
proof -
  obtain row where r: "st_command sample_store ''c1'' = Some row"
    by (simp add: sample_store_def SubmitCommand_def Transition_def empty_store_def Let_def)
  from late_delivery_overwrites_terminal [OF r, of "[1]"] r show ?thesis by (simp add: Let_def)
qed

end
