(* ===== verification/Connector.thy ===== *)
theory Connector
  imports Authenv Connector_Session Mailbox Platform_Store
begin

text \<open>
  The connector: \<^verbatim>\<open>internal/connector/server.go\<close> (the control, metrics and report streams) and
  the outbox dispatcher and admin handlers of \<^verbatim>\<open>cmd/connector/main.go\<close>. The three shared
  structures (sessions, mailboxes, database) are components of one server state; what the
  sink was given is recorded. Frames that arrive, sends that fail, random bytes and clock
  readings are inputs of the step that meets them.
\<close>

section \<open>The server\<close>

record 'priv Server =
  sv_sessions :: SessionRegistry
  sv_mailbox :: Mailbox
  sv_store :: "Store option"
  sv_signer :: "'priv option"
  sv_events :: "(string \<times> smap) list"
  sv_reports :: "(string \<times> string \<times> bytes) list"

definition NewServer :: "'priv option \<Rightarrow> 'priv Server" where
  "NewServer signer = \<lparr>sv_sessions = NewSessionRegistry, sv_mailbox = NewMailbox 64 300000, sv_store = None,
     sv_signer = signer, sv_events = [], sv_reports = []\<rparr>"

definition SetStore :: "'priv Server \<Rightarrow> Store \<Rightarrow> 'priv Server" where
  "SetStore s st = s\<lparr>sv_store := Some st\<rparr>"

text \<open>\<^verbatim>\<open>persist\<close>: without a database nothing happens, and errors are only logged.\<close>

definition persist :: "'priv Server \<Rightarrow> (Store \<Rightarrow> store_error option \<times> Store) \<Rightarrow> 'priv Server" where
  "persist s f = (case sv_store s of None \<Rightarrow> s | Some st \<Rightarrow> s\<lparr>sv_store := Some (snd (f st))\<rparr>)"

definition emit :: "'priv Server \<Rightarrow> string \<Rightarrow> smap \<Rightarrow> 'priv Server" where
  "emit s typ attrs = s\<lparr>sv_events := sv_events s @ [(typ, attrs)]\<rparr>"

definition newSessionID :: "nat \<Rightarrow> bytes \<Rightarrow> string" where
  "newSessionID unix rnd = ''s-'' @ dec_digits unix @ ''-'' @ hex_encode rnd"

section \<open>The control stream\<close>

record AgentHello =
  h_AssetId :: string
  h_AgentVersion :: string
  h_CatalogVersion :: string

datatype first_frame = FirstFailed | FirstOther | FirstHello AgentHello

datatype agent_frame = Heartbeat | CommandAck string bool string | OtherFrame

datatype gw_frame =
    WelcomeFrame string "64 word" int int
  | FenceFrame "64 word" string
  | CommandFrame CommandEnvelope
  | CancelFrame string

datatype control_error = RecvFailed | FirstMustBeHello | CertMismatch string string | SendFailed

text \<open>
  Up to the welcome: the certificate's common name, if there is a certificate, must be the
  asset id. \<open>None\<close> is a panic. The result carries the session's pointer.
\<close>

definition control_open ::
  "int \<Rightarrow> int \<Rightarrow> int \<Rightarrow> bool \<Rightarrow> string \<Rightarrow> string option \<Rightarrow> first_frame \<Rightarrow> 'priv Server \<Rightarrow>
   ((control_error + nat \<times> gw_frame) \<times> 'priv Server) option" where
  "control_open n1 n2 n3 sendok sid peerCN first s =
     (case first of
        FirstFailed \<Rightarrow> Some (Inl RecvFailed, s)
      | FirstOther \<Rightarrow> Some (Inl FirstMustBeHello, s)
      | FirstHello h \<Rightarrow>
          if peerCN \<noteq> None \<and> the peerCN \<noteq> h_AssetId h
          then Some (Inl (CertMismatch (the peerCN) (h_AssetId h)),
                     emit s ''security.cert_cn_mismatch'' [(''asset_id'', h_AssetId h), (''cert_cn'', the peerCN)])
          else (case Register n1 n2 (sv_sessions s) (h_AssetId h) sid (h_AgentVersion h) (h_CatalogVersion h) of
                  None \<Rightarrow> None
                | Some ((p, old), reg) \<Rightarrow>
                    (let s = s\<lparr>sv_sessions := reg\<rparr>;
                         s = (case old of
                                None \<Rightarrow> s
                              | Some q \<Rightarrow> emit s ''security.duplicate_connection''
                                  [(''asset_id'', h_AssetId h), (''old_session'', se_SessionID (sr_heap reg ! q)),
                                   (''policy'', ''replace_old'')])
                     in if \<not> sendok then Some (Inl SendFailed, s\<lparr>sv_sessions := Unregister reg p\<rparr>)
                        else Some (Inr (p, WelcomeFrame sid (se_Epoch (sr_heap reg ! p)) n3 15),
                                   emit s ''agent.online'' [(''asset_id'', h_AssetId h),
                                     (''agent_version'', h_AgentVersion h)]))))"

definition control_close :: "'priv Server \<Rightarrow> nat \<Rightarrow> 'priv Server" where
  "control_close s p = s\<lparr>sv_sessions := Unregister (sv_sessions s) p\<rparr>"

text \<open>A frame of the receive goroutine; \<open>epoch\<close> is the epoch of the stream's session.\<close>

definition control_recv ::
  "int \<Rightarrow> bool \<Rightarrow> string \<Rightarrow> 64 word \<Rightarrow> agent_frame \<Rightarrow> 'priv Server \<Rightarrow> 'priv Server" where
  "control_recv now dbok assetID epoch f s =
     (case f of
        Heartbeat \<Rightarrow> s\<lparr>sv_sessions := snd (Touch now (sv_sessions s) assetID epoch)\<rparr>
      | CommandAck cmdID accepted reason \<Rightarrow>
          if accepted then s
          else (let to = (if reason = [] then ''REJECTED'' else reason)
                in persist s (\<lambda>st. CompleteCommand dbok st cmdID to None))
      | OtherFrame \<Rightarrow> s)"

text \<open>The envelope of a dispatched command; a signed one carries sixteen random bytes.\<close>

definition mk_envelope ::
  "('priv \<Rightarrow> bytes \<Rightarrow> bytes) \<Rightarrow> 'priv option \<Rightarrow> MailboxCommand \<Rightarrow> int \<Rightarrow> bytes \<Rightarrow> CommandEnvelope" where
  "mk_envelope sign signer c now rnd =
     (let env = \<lparr>env_CmdId = mc_CmdID c, env_Action = mc_Action c, env_Params = mc_Params c,
                 env_TimeoutSec = word_of_int (mc_TimeoutSec c), env_IssuedAt = word_of_int now,
                 env_ExpiresAt = word_of_int (mc_ExpiresAt c), env_Nonce = [], env_Signature = []\<rparr>
      in case signer of
           None \<Rightarrow> env
         | Some priv \<Rightarrow> Sign sign priv (env\<lparr>env_Nonce := rnd\<rparr>))"

record send_world =
  sw_now :: int
  sw_rnd :: bytes
  sw_sent :: bool
  sw_db :: bool

text \<open>The two send loops of a dispatch round; they stop at the first failing send.\<close>

fun send_commands ::
  "('priv \<Rightarrow> bytes \<Rightarrow> bytes) \<Rightarrow> MailboxCommand list \<Rightarrow> send_world list \<Rightarrow> 'priv Server \<Rightarrow>
   gw_frame list \<times> bool \<times> 'priv Server" where
  "send_commands sign [] ws s = ([], True, s)"
| "send_commands sign (c # cs) [] s = ([], False, s)"
| "send_commands sign (c # cs) (w # ws) s =
     (if \<not> sw_sent w then ([], False, s)
      else (let env = mk_envelope sign (sv_signer s) c (sw_now w) (sw_rnd w);
                s1 = persist s (\<lambda>st. Transition (sw_db w) st (mc_CmdID c) ''delivered'' ''DELIVERED'' ''connector'');
                (fs, ok, s2) = send_commands sign cs ws s1
            in (CommandFrame env # fs, ok, s2)))"

fun send_cancels :: "string list \<Rightarrow> bool list \<Rightarrow> gw_frame list \<times> bool" where
  "send_cancels [] oks = ([], True)"
| "send_cancels (i # is) [] = ([], False)"
| "send_cancels (i # is) (b # bs) =
     (if b then (let (fs, r) = send_cancels is bs in (CancelFrame i # fs, r)) else ([], False))"

datatype loop_select = SelDone | SelFenced | SelRecvEnded | SelDefault

text \<open>
  One iteration of the dispatch loop: the frames sent and whether the loop goes on. \<open>sel\<close> is
  the branch the \<^verbatim>\<open>select\<close> takes; the default one only when no other is ready.
\<close>

definition control_turn ::
  "('priv \<Rightarrow> bytes \<Rightarrow> bytes) \<Rightarrow> int \<Rightarrow> loop_select \<Rightarrow> send_world list \<Rightarrow> bool list \<Rightarrow> bool \<Rightarrow> string \<Rightarrow> nat \<Rightarrow>
   'priv Server \<Rightarrow> gw_frame list \<times> bool \<times> 'priv Server" where
  "control_turn sign now sel ws cs arrives assetID p s =
     (case sel of
        SelDone \<Rightarrow> ([], False, s)
      | SelRecvEnded \<Rightarrow> ([], False, s)
      | SelFenced \<Rightarrow> ([FenceFrame (se_Epoch (sr_heap (sv_sessions s) ! p)) ''replaced_by_new_connection''], False, s)
      | SelDefault \<Rightarrow>
          (let ((cmds, cancels), m) = NextDispatch now (sv_mailbox s) assetID;
               (fs, ok, s1) = send_commands sign cmds ws (s\<lparr>sv_mailbox := m\<rparr>)
           in if \<not> ok then (fs, False, s1)
              else (let (fc, okc) = send_cancels cancels cs
                    in if \<not> okc then (fs @ fc, False, s1)
                       else (fs @ fc, True,
                             if cmds = [] \<and> cancels = []
                             then s1\<lparr>sv_mailbox := snd (mb_Wait arrives (sv_mailbox s1) assetID)\<rparr> else s1))))"

section \<open>The metrics and report streams\<close>

text \<open>One batch of the metrics stream: the acknowledged sequence number, if the sink took it.\<close>

definition metrics_turn :: "bool \<Rightarrow> bool \<Rightarrow> 64 word \<Rightarrow> 64 word option" where
  "metrics_turn sinkok sendok seq = (if \<not> sinkok then None else if \<not> sendok then None else Some seq)"

definition reportKindName :: "ReportKind \<Rightarrow> string" where
  "reportKindName k = (case k of KindResults \<Rightarrow> ''results'' | KindAudit \<Rightarrow> ''audit'' | KindInventory \<Rightarrow> ''inventory''
     | KindOther _ \<Rightarrow> ''unknown'')"

text \<open>\<open>status_of\<close> reads the status field of a JSON payload, \<open>None\<close> if it does not parse.\<close>

definition resultStatus :: "(bytes \<Rightarrow> string option) \<Rightarrow> bytes \<Rightarrow> string" where
  "resultStatus status_of payload =
     (case status_of payload of Some st \<Rightarrow> if st \<noteq> [] then st else ''SUCCEEDED'' | None \<Rightarrow> ''SUCCEEDED'')"

record report_world =
  rw_sink :: bool
  rw_db :: bool

definition report_item ::
  "(bytes \<Rightarrow> string option) \<Rightarrow> ReportKind \<Rightarrow> bool \<Rightarrow> string \<Rightarrow> bytes \<Rightarrow> 'priv Server \<Rightarrow> 'priv Server" where
  "report_item status_of k db i payload s =
     (let s = s\<lparr>sv_reports := sv_reports s @ [(reportKindName k, i, payload)]\<rparr>
      in if k = KindResults
         then persist (s\<lparr>sv_mailbox := mb_Complete (sv_mailbox s) i payload\<rparr>)
                (\<lambda>st. CompleteCommand db st i (resultStatus status_of payload) (Some payload))
         else s)"

fun report_items ::
  "(bytes \<Rightarrow> string option) \<Rightarrow> ReportKind \<Rightarrow> (string \<times> bytes) list \<Rightarrow> report_world list \<Rightarrow> 'priv Server \<Rightarrow>
   string list \<times> bool \<times> 'priv Server" where
  "report_items status_of k [] ws s = ([], True, s)"
| "report_items status_of k (it # its) [] s = ([], False, s)"
| "report_items status_of k (it # its) (w # ws) s =
     (if \<not> rw_sink w then ([], False, s)
      else (let (ids, ok, s2) = report_items status_of k its ws (report_item status_of k (rw_db w) (fst it) (snd it) s)
            in (fst it # ids, ok, s2)))"

text \<open>One report: the acknowledged ids, if everything was taken and the answer could be sent.\<close>

definition reports_turn ::
  "(bytes \<Rightarrow> string option) \<Rightarrow> ReportKind \<Rightarrow> (string \<times> bytes) list \<Rightarrow> report_world list \<Rightarrow> bool \<Rightarrow> 'priv Server \<Rightarrow>
   string list option \<times> 'priv Server" where
  "reports_turn status_of k its ws sendok s =
     (let (ids, ok, s') = report_items status_of k its ws s
      in (if ok \<and> sendok then Some ids else None, s'))"

section \<open>The outbox dispatcher\<close>

datatype dispatch_error = UnknownOutboxEvent string | MailboxRefused mailbox_error | StoreFailed store_error

definition dispatchOutbox ::
  "bool \<Rightarrow> int \<Rightarrow> int \<Rightarrow> Store \<Rightarrow> 'priv Server \<Rightarrow> outbox_row \<Rightarrow> dispatch_error option \<times> Store \<times> 'priv Server" where
  "dispatchOutbox dbok n1 n2 st s e =
     (let p = ob_payload e
      in if ob_type e = ''DISPATCH_REQUESTED''
         then (case mb_Submit n1 n2 (sv_mailbox s) (p_AssetID p) (p_CmdID p) (p_Action p) (p_Params p) (p_TimeoutSec p) of
                 (Some ErrDupCmdID, m) \<Rightarrow> (None, st, s)
               | (Some err, m) \<Rightarrow> (Some (MailboxRefused err), st, s)
               | (None, m) \<Rightarrow>
                   (let (err, st') = Transition dbok st (p_CmdID p) ''dispatching'' ''DISPATCHING'' ''connector''
                    in (map_option StoreFailed err, st', s\<lparr>sv_mailbox := m\<rparr>)))
         else if ob_type e = ''CANCEL_REQUESTED''
         then (None, st, s\<lparr>sv_mailbox := snd (mb_Cancel (sv_mailbox s) (p_AssetID p) (p_CmdID p))\<rparr>)
         else (Some (UnknownOutboxEvent (ob_type e)), st, s))"

record outbox_world =
  ow_db :: bool
  ow_mark :: bool
  ow_n1 :: int
  ow_n2 :: int

text \<open>The entries of one tick of \<^verbatim>\<open>outboxDispatcher\<close>; \<open>msg\<close> prints an error.\<close>

fun outbox_entries ::
  "(dispatch_error \<Rightarrow> string) \<Rightarrow> int \<Rightarrow> outbox_row list \<Rightarrow> outbox_world list \<Rightarrow> Store \<Rightarrow> 'priv Server \<Rightarrow> Store \<times> 'priv Server" where
  "outbox_entries msg now [] ws st s = (st, s)"
| "outbox_entries msg now (e # es) [] st s = (st, s)"
| "outbox_entries msg now (e # es) (w # ws) st s =
     (let (err, st1, s1) = dispatchOutbox (ow_db w) (ow_n1 w) (ow_n2 w) st s e;
          st2 = (case err of
                   Some er \<Rightarrow> snd (MarkOutboxError (ow_mark w) st1 (ob_id e) (msg er))
                 | None \<Rightarrow> snd (MarkPublished (ow_mark w) now st1 (ob_id e)))
      in outbox_entries msg now es ws st2 s1)"

text \<open>A tick works on the server's own database; without one the dispatcher is not started.\<close>

definition outboxDispatcher ::
  "(dispatch_error \<Rightarrow> string) \<Rightarrow> bool \<Rightarrow> int \<Rightarrow> outbox_world list \<Rightarrow> 'priv Server \<Rightarrow> 'priv Server" where
  "outboxDispatcher msg dbok now ws s =
     (case sv_store s of
        None \<Rightarrow> s
      | Some st \<Rightarrow>
          (case FetchOutbox dbok now st ''connector-1'' 32 of
             (Inl _, st') \<Rightarrow> s\<lparr>sv_store := Some st'\<rparr>
           | (Inr es, st') \<Rightarrow>
               (let (st'', s') = outbox_entries msg now es ws st' s in s'\<lparr>sv_store := Some st''\<rparr>)))"

section \<open>The admin interface\<close>

datatype http_status = StatusOK | StatusAccepted | StatusBadRequest | StatusConflict | StatusNotFound | StatusInternalServerError

definition is_hex :: "char \<Rightarrow> bool" where
  "is_hex c \<longleftrightarrow> (CHR ''0'' \<le> c \<and> c \<le> CHR ''9'') \<or> (CHR ''a'' \<le> c \<and> c \<le> CHR ''f'') \<or> (CHR ''A'' \<le> c \<and> c \<le> CHR ''F'')"

definition isUUID :: "string \<Rightarrow> bool" where
  "isUUID s \<longleftrightarrow> length s = 36 \<and>
     list_all (\<lambda>i. if i \<in> {8, 13, 18, 23} then s ! i = CHR ''-'' else is_hex (s ! i)) [0 ..< length s]"

record command_request =
  q_CmdID :: string
  q_Action :: string
  q_Params :: smap
  q_TimeoutSec :: int

text \<open>\<open>req = None\<close>: the body is not valid JSON. The third component is the id in the answer.\<close>

definition admin_command ::
  "bool \<Rightarrow> int \<Rightarrow> int \<Rightarrow> bytes \<Rightarrow> string \<Rightarrow> command_request option \<Rightarrow> 'priv Server \<Rightarrow>
   http_status \<times> string option \<times> 'priv Server" where
  "admin_command dbok n1 n2 rnd assetID req s =
     (case req of
        None \<Rightarrow> (StatusBadRequest, None, s)
      | Some q \<Rightarrow>
          if assetID = [] \<or> q_Action q = [] then (StatusBadRequest, None, s)
          else (let t = (if q_TimeoutSec q \<le> 0 then 60 else q_TimeoutSec q)
                in case sv_store s of
                     Some st \<Rightarrow>
                       (let cmdID = (if isUUID (q_CmdID q) then q_CmdID q else NewUUID rnd)
                        in case SubmitCommand dbok n1 st cmdID assetID (q_Action q) (q_Params q) t 300 of
                             (Some ErrDuplicate, st') \<Rightarrow> (StatusConflict, None, s)
                           | (Some err, st') \<Rightarrow> (StatusInternalServerError, None, s)
                           | (None, st') \<Rightarrow> (StatusAccepted, Some cmdID, s\<lparr>sv_store := Some st'\<rparr>))
                   | None \<Rightarrow>
                       if q_CmdID q = [] then (StatusBadRequest, None, s)
                       else (case mb_Submit n1 n2 (sv_mailbox s) assetID (q_CmdID q) (q_Action q) (q_Params q) t of
                               (Some err, m) \<Rightarrow> (StatusConflict, None, s)
                             | (None, m) \<Rightarrow> (StatusAccepted, None, s\<lparr>sv_mailbox := m\<rparr>))))"

definition admin_cancel :: "bool \<Rightarrow> int \<Rightarrow> string \<Rightarrow> string \<Rightarrow> 'priv Server \<Rightarrow> http_status \<times> 'priv Server" where
  "admin_cancel dbok now assetID cmdID s =
     (case sv_store s of
        Some st \<Rightarrow>
          (case CancelCommand dbok now st cmdID of
             (Some err, st') \<Rightarrow> (StatusInternalServerError, s)
           | (None, st') \<Rightarrow> (StatusAccepted, s\<lparr>sv_store := Some st',
                                sv_mailbox := snd (mb_Cancel (sv_mailbox s) assetID cmdID)\<rparr>))
      | None \<Rightarrow>
          (case mb_Cancel (sv_mailbox s) assetID cmdID of
             (Inl err, m) \<Rightarrow> (StatusNotFound, s)
           | (Inr _, m) \<Rightarrow> (StatusAccepted, s\<lparr>sv_mailbox := m\<rparr>)))"

datatype result_view = ViewStore CommandInfo | ViewMailbox bytes

definition admin_result :: "bool \<Rightarrow> string \<Rightarrow> 'priv Server \<Rightarrow> http_status \<times> result_view option" where
  "admin_result dbok cmdID s =
     (case (case sv_store s of None \<Rightarrow> Inl ErrNotFound | Some st \<Rightarrow> CommandStatus dbok st cmdID) of
        Inr ci \<Rightarrow> (StatusOK, Some (ViewStore ci))
      | Inl _ \<Rightarrow>
          (case mb_Result (sv_mailbox s) cmdID of
             None \<Rightarrow> (StatusNotFound, None)
           | Some c \<Rightarrow> if mc_State c \<noteq> StateTerminal then (StatusNotFound, None)
                        else (StatusOK, Some (ViewMailbox (mc_Result c)))))"

section \<open>Reports are acknowledged only when stored\<close>

definition report_rows :: "ReportKind \<Rightarrow> (string \<times> bytes) list \<Rightarrow> (string \<times> string \<times> bytes) list" where
  "report_rows k its = map (\<lambda>(i, p). (reportKindName k, i, p)) its"

lemma persist_keeps [simp]:
  "sv_reports (persist s f) = sv_reports s" "sv_mailbox (persist s f) = sv_mailbox s"
  "sv_sessions (persist s f) = sv_sessions s" "sv_signer (persist s f) = sv_signer s"
  by (simp_all add: persist_def split: option.splits)

lemma report_item_reports [simp]:
  "sv_reports (report_item status_of k db i p s) = sv_reports s @ [(reportKindName k, i, p)]"
  by (simp add: report_item_def Let_def)

lemma report_item_mailbox:
  "sv_mailbox (report_item status_of k db i p s) =
     (if k = KindResults then mb_Complete (sv_mailbox s) i p else sv_mailbox s)"
  by (simp add: report_item_def Let_def)

lemma Complete_terminal:
  "in_state m {StateTerminal} j \<Longrightarrow> in_state (mb_Complete m i r) {StateTerminal} j"
  "mb_byID m i \<noteq> None \<Longrightarrow> in_state (mb_Complete m i r) {StateTerminal} i"
  "mb_byID (mb_Complete m i r) j = None \<longleftrightarrow> mb_byID m j = None"
  by (auto simp: in_state_def mb_Complete_def split: option.splits if_splits)

lemma report_items_spec:
  assumes "report_items status_of k its ws s = (ids, ok, s')"
  shows "(\<exists>n \<le> length its. ids = map fst (take n its) \<and> sv_reports s' = sv_reports s @ report_rows k (take n its) \<and>
      (ok \<longrightarrow> n = length its)) \<and>
    (\<forall>j. in_state (sv_mailbox s) {StateTerminal} j \<longrightarrow> in_state (sv_mailbox s') {StateTerminal} j) \<and>
    (k = KindResults \<longrightarrow> (\<forall>j \<in> set ids. mb_byID (sv_mailbox s) j \<noteq> None \<longrightarrow> in_state (sv_mailbox s') {StateTerminal} j))"
  using assms
proof (induction status_of k its ws s arbitrary: ids rule: report_items.induct)
  case (3 status_of k it its w ws s)
  show ?case
  proof (cases "rw_sink w")
    case False
    with "3.prems" show ?thesis by (auto intro!: exI [of _ 0] simp: report_rows_def)
  next
    case True
    let ?s = "report_item status_of k (rw_db w) (fst it) (snd it) s"
    obtain ids' where r: "report_items status_of k its ws ?s = (ids', ok, s')" and ids: "ids = fst it # ids'"
      using "3.prems" True by (auto simp: Let_def split: prod.splits)
    from "3.IH" [OF _ r] True obtain n where n: "n \<le> length its" "ids' = map fst (take n its)"
      "sv_reports s' = sv_reports ?s @ report_rows k (take n its)" "ok \<longrightarrow> n = length its" by auto
    have 1: "\<exists>n \<le> length (it # its). ids = map fst (take n (it # its)) \<and>
        sv_reports s' = sv_reports s @ report_rows k (take n (it # its)) \<and> (ok \<longrightarrow> n = length (it # its))"
      using n ids by (intro exI [of _ "Suc n"]) (simp add: report_rows_def case_prod_unfold)
    from "3.IH" [OF _ r] True
    have 2: "\<forall>j. in_state (sv_mailbox ?s) {StateTerminal} j \<longrightarrow> in_state (sv_mailbox s') {StateTerminal} j"
      and 3: "k = KindResults \<longrightarrow> (\<forall>j \<in> set ids'. mb_byID (sv_mailbox ?s) j \<noteq> None \<longrightarrow> in_state (sv_mailbox s') {StateTerminal} j)"
      by auto
    have 4: "\<forall>j. in_state (sv_mailbox s) {StateTerminal} j \<longrightarrow> in_state (sv_mailbox s') {StateTerminal} j"
      using 2 Complete_terminal(1) by (auto simp: report_item_mailbox split: if_splits)
    have 5: "k = KindResults \<longrightarrow> (\<forall>j \<in> set ids. mb_byID (sv_mailbox s) j \<noteq> None \<longrightarrow> in_state (sv_mailbox s') {StateTerminal} j)"
      using 2 3 Complete_terminal(2,3) by (auto simp: ids report_item_mailbox)
    from 1 4 5 show ?thesis by blast
  qed
qed (auto simp: report_rows_def)



section \<open>Sessions belong to the certificate's owner\<close>

text \<open>
  C34: a control stream gets a session only when its certificate, if any, names
  the asset it claims; the session is then the asset's current one and the welcome carries
  its epoch. A mismatch leaves the registry as it was and is recorded as a security event.
\<close>

theorem session_needs_matching_certificate:
  assumes "reg_reach (sv_sessions s)" "control_open n1 n2 n3 sendok sid peerCN (FirstHello h) s = Some (r, s')"
  shows "case r of
      Inr (p, f) \<Rightarrow> (peerCN = None \<or> peerCN = Some (h_AssetId h)) \<and>
        map_of (sr_byAsset (sv_sessions s')) (h_AssetId h) = Some p \<and> reg_reach (sv_sessions s') \<and>
        f = WelcomeFrame sid (sr_epochSeq (sv_sessions s) + 1) n3 15
    | Inl (CertMismatch cn a) \<Rightarrow> sv_sessions s' = sv_sessions s \<and> cn \<noteq> a \<and> peerCN = Some cn \<and> a = h_AssetId h \<and>
        sv_events s' = sv_events s @ [(''security.cert_cn_mismatch'', [(''asset_id'', a), (''cert_cn'', cn)])]
    | Inl e \<Rightarrow> e = SendFailed"
proof (cases "peerCN \<noteq> None \<and> the peerCN \<noteq> h_AssetId h")
  case True
  with assms(2) show ?thesis by (auto simp: control_open_def emit_def)
next
  case False
  obtain reg where reg: "Register n1 n2 (sv_sessions s) (h_AssetId h) sid (h_AgentVersion h) (h_CatalogVersion h) =
      Some ((length (sr_heap (sv_sessions s)), map_of (sr_byAsset (sv_sessions s)) (h_AssetId h)), reg)"
    and heap: "se_Epoch (sr_heap reg ! length (sr_heap (sv_sessions s))) = sr_epochSeq (sv_sessions s) + 1"
    and cur: "map_of (sr_byAsset reg) (h_AssetId h) = Some (length (sr_heap (sv_sessions s)))"
    using Register_total [OF reg_reach_ok [OF assms(1)], of n1 n2 "h_AssetId h" sid "h_AgentVersion h" "h_CatalogVersion h"]
    by (auto simp: update_conv')
  have "reg_reach reg" using assms(1) reg by (rule reg_register)
  moreover have "peerCN = None \<or> peerCN = Some (h_AssetId h)" using False by (cases peerCN) auto
  ultimately show ?thesis
    using assms(2) reg heap cur
    by (cases sendok) (auto simp: control_open_def emit_def Let_def split: option.splits)
qed

theorem session_needs_matching_certificate_witness:
  "\<exists>s'. control_open 1 2 3 True ''s-1'' (Some ''other'') (FirstHello \<lparr>h_AssetId = ''h'', h_AgentVersion = [], h_CatalogVersion = []\<rparr>)
       (NewServer (None :: unit option)) = Some (Inl (CertMismatch ''other'' ''h''), s') \<and> sv_sessions s' = NewSessionRegistry"
proof -
  let ?h = "\<lparr>h_AssetId = ''h'', h_AgentVersion = [], h_CatalogVersion = []\<rparr>"
  obtain s' where c: "control_open 1 2 3 True ''s-1'' (Some ''other'') (FirstHello ?h) (NewServer (None :: unit option))
      = Some (Inl (CertMismatch ''other'' ''h''), s')"
    by (simp add: control_open_def)
  have "reg_reach (sv_sessions (NewServer (None :: unit option)))" by (simp add: NewServer_def reg_new)
  from session_needs_matching_certificate [OF this c] c show ?thesis by (simp add: NewServer_def)
qed

section \<open>Dispatched envelopes\<close>

lemma Sign_verifies:
  assumes "verify pub (CanonicalBytes env) (sign priv (CanonicalBytes env))" "length (sign priv (CanonicalBytes env)) = SignatureSize"
  shows "Verify verify pub (Sign sign priv env) = None"
proof -
  have "CanonicalBytes (Sign sign priv env) = CanonicalBytes env"
    by (simp add: CanonicalBytes_def Sign_def)
  with assms show ?thesis by (simp add: Verify_def) (simp add: Sign_def)
qed

definition carries :: "CommandEnvelope \<Rightarrow> MailboxCommand \<Rightarrow> bool" where
  "carries env c \<longleftrightarrow> env_CmdId env = mc_CmdID c \<and> env_Action env = mc_Action c \<and> env_Params env = mc_Params c \<and>
     env_TimeoutSec env = word_of_int (mc_TimeoutSec c) \<and> env_ExpiresAt env = word_of_int (mc_ExpiresAt c)"

lemma mk_envelope_carries: "carries (mk_envelope sign signer c now rnd) c"
  by (simp add: carries_def mk_envelope_def Sign_def Let_def split: option.splits)

lemma mk_envelope_verifies:
  assumes "\<forall>m. verify pub m (sign priv m) \<and> length (sign priv m) = SignatureSize"
  shows "Verify verify pub (mk_envelope sign (Some priv) c now rnd) = None \<and>
    env_Nonce (mk_envelope sign (Some priv) c now rnd) = rnd"
  using assms Sign_verifies [of verify pub _ sign priv] by (simp add: mk_envelope_def Let_def) (simp add: Sign_def)

lemma send_commands_spec:
  assumes "\<forall>m. verify pub m (sign priv m) \<and> length (sign priv m) = SignatureSize"
    and "sv_signer s = Some priv" "send_commands sign cmds ws s = (fs, ok, s')"
  shows "\<exists>n \<le> length cmds. (ok \<longrightarrow> n = length cmds) \<and> sv_mailbox s' = sv_mailbox s \<and>
    list_all2 (\<lambda>f c. \<exists>env. f = CommandFrame env \<and> carries env c \<and> Verify verify pub env = None \<and>
      env_Nonce env \<in> sw_rnd ` set ws) fs (take n cmds)"
  using assms
proof (induction sign cmds ws s arbitrary: fs rule: send_commands.induct)
  case (3 sign c cs w ws s)
  show ?case
  proof (cases "sw_sent w")
    case False
    with "3.prems" show ?thesis by (auto intro!: exI [of _ 0])
  next
    case True
    let ?s = "persist s (\<lambda>st. Transition (sw_db w) st (mc_CmdID c) ''delivered'' ''DELIVERED'' ''connector'')"
    let ?P = "\<lambda>ws f c. \<exists>env. f = CommandFrame env \<and> carries env c \<and> Verify verify pub env = None \<and> env_Nonce env \<in> sw_rnd ` set ws"
    obtain fs' where fs: "fs = CommandFrame (mk_envelope sign (sv_signer s) c (sw_now w) (sw_rnd w)) # fs'"
      and r: "send_commands sign cs ws ?s = (fs', ok, s')"
      using "3.prems" True by (auto simp: Let_def split: prod.splits)
    have "\<exists>n \<le> length cs. (ok \<longrightarrow> n = length cs) \<and> sv_mailbox s' = sv_mailbox ?s \<and> list_all2 (?P ws) fs' (take n cs)"
      using "3.IH" [OF _ refl refl "3.prems"(1), of fs'] True "3.prems"(2) r by simp
    then obtain n where n: "n \<le> length cs" "ok \<longrightarrow> n = length cs" "sv_mailbox s' = sv_mailbox ?s"
      "list_all2 (?P ws) fs' (take n cs)" by blast
    have "list_all2 (?P (w # ws)) fs' (take n cs)"
      using n(4) by (rule list_all2_mono) auto
    moreover have "?P (w # ws) (CommandFrame (mk_envelope sign (sv_signer s) c (sw_now w) (sw_rnd w))) c"
      using mk_envelope_verifies [where verify = verify and pub = pub and sign = sign and priv = priv, OF "3.prems"(1)]
        mk_envelope_carries "3.prems"(2) by simp
    ultimately show ?thesis using n fs by (intro exI [of _ "Suc n"]) auto
  qed
qed auto

text \<open>
  With a signing key, every command frame a dispatch round sends carries the
  mailbox command it was made for, in FIFO order, and passes the agent's signature check.
  When a send fails, the commands after it are not sent. The hypothesis is the documented
  behaviour of Ed25519: a signature made with the private key verifies and has 64 bytes.
\<close>

theorem dispatched_envelopes_verify:
  assumes "\<forall>m. verify pub m (sign priv m) \<and> length (sign priv m) = SignatureSize"
    and "sv_signer s = Some priv" "send_commands sign cmds ws s = (fs, ok, s')"
  shows "\<exists>n \<le> length cmds. (ok \<longrightarrow> n = length cmds) \<and> sv_mailbox s' = sv_mailbox s \<and>
    list_all2 (\<lambda>f c. \<exists>env. f = CommandFrame env \<and> carries env c \<and> Verify verify pub env = None) fs (take n cmds)"
  using send_commands_spec [where verify = verify and pub = pub and sign = sign and priv = priv, OF assms]
  by (blast intro: list_all2_mono)

definition sample_sign :: "unit \<Rightarrow> bytes \<Rightarrow> bytes" where
  "sample_sign k m = replicate SignatureSize 0"

definition sample_check :: "unit \<Rightarrow> bytes \<Rightarrow> bytes \<Rightarrow> bool" where
  "sample_check k m g \<longleftrightarrow> g = replicate SignatureSize 0"

definition sample_command :: MailboxCommand where
  "sample_command = \<lparr>mc_CmdID = ''c1'', mc_Action = ''uptime'', mc_Params = [], mc_TimeoutSec = 5, mc_State = StateDispatched,
     mc_QueuedAt = 0, mc_ExpiresAt = 300, mc_Result = []\<rparr>"

lemma sample_key_ok: "\<forall>m. sample_check () m (sample_sign () m) \<and> length (sample_sign () m) = SignatureSize"
  by (simp add: sample_check_def sample_sign_def)

theorem dispatched_envelopes_verify_witness:
  "\<exists>fs s' env. send_commands sample_sign [sample_command]
      [\<lparr>sw_now = 7, sw_rnd = replicate 16 1, sw_sent = True, sw_db = True\<rparr>] (NewServer (Some ())) = (fs, True, s') \<and>
     fs = [CommandFrame env] \<and> env_CmdId env = ''c1'' \<and> Verify sample_check () env = None"
proof -
  let ?r = "send_commands sample_sign [sample_command]
      [\<lparr>sw_now = 7, sw_rnd = replicate 16 1, sw_sent = True, sw_db = True\<rparr>] (NewServer (Some ()))"
  have "fst (snd ?r)" by (simp add: Let_def)
  then have r: "?r = (fst ?r, True, snd (snd ?r))" by (metis (full_types) prod.collapse)
  have "sv_signer (NewServer (Some ())) = Some ()" by (simp add: NewServer_def)
  from dispatched_envelopes_verify [where verify = sample_check and pub = "()" and sign = sample_sign and priv = "()",
      OF sample_key_ok this r]
  have "list_all2 (\<lambda>f c. \<exists>env. f = CommandFrame env \<and> carries env c \<and> Verify sample_check () env = None) (fst ?r) [sample_command]"
    by (auto simp del: send_commands.simps)
  then obtain env where "fst ?r = [CommandFrame env]" "carries env sample_command" "Verify sample_check () env = None"
    by (auto simp: list_all2_Cons2 simp del: send_commands.simps)
  moreover from this(2) have "env_CmdId env = ''c1''" by (simp add: carries_def sample_command_def)
  ultimately show ?thesis using r by blast
qed

section \<open>The outbox\<close>

lemma Submit_stored:
  "mb_Submit n1 n2 m a i act ps t = (None, m') \<Longrightarrow> mb_byID m' i \<noteq> None"
  by (auto simp: mb_Submit_def Let_def split: if_splits)

text \<open>
  An outbox entry that asks for a dispatch may be processed again (a crash before it
  is marked published, an expired lock). Unless the mailbox refused it, the second time
  changes neither the mailbox nor the database and succeeds, even when the database failed
  the first time; a refused entry leaves both untouched and stays to be retried.
\<close>

theorem outbox_redelivery_idempotent:
  assumes "ob_type e = ''DISPATCH_REQUESTED''" "dispatchOutbox dbok n1 n2 st s e = (err, st', s')"
  shows "if \<exists>r. err = Some (MailboxRefused r) then st' = st \<and> s' = s
    else mb_byID (sv_mailbox s') (p_CmdID (ob_payload e)) \<noteq> None \<and>
      dispatchOutbox dbok' m1 m2 st'' s' e = (None, st'', s')"
proof (cases "mb_Submit n1 n2 (sv_mailbox s) (p_AssetID (ob_payload e)) (p_CmdID (ob_payload e)) (p_Action (ob_payload e))
    (p_Params (ob_payload e)) (p_TimeoutSec (ob_payload e))")
  case (Pair x m)
  have dup: "dispatchOutbox dbok' m1 m2 st'' u e = (None, st'', u)" if "mb_byID (sv_mailbox u) (p_CmdID (ob_payload e)) \<noteq> None" for u
    using that assms(1) by (auto simp: dispatchOutbox_def Let_def mb_Submit_def)
  show ?thesis
  proof (cases x)
    case None
    with Pair assms have "sv_mailbox s' = m" "\<nexists>r. err = Some (MailboxRefused r)"
      by (auto simp: dispatchOutbox_def Let_def split: prod.splits)
    moreover have "mb_byID m (p_CmdID (ob_payload e)) \<noteq> None" using Pair None Submit_stored by blast
    ultimately show ?thesis using dup [of s'] by simp
  next
    case (Some r)
    show ?thesis
    proof (cases "r = ErrDupCmdID")
      case True
      have "mb_byID (sv_mailbox s) (p_CmdID (ob_payload e)) \<noteq> None"
        using Pair Some True by (auto simp: mb_Submit_def Let_def split: if_splits)
      with dup [of s] assms Pair Some True show ?thesis by (auto simp: dispatchOutbox_def Let_def)
    next
      case False
      with Pair Some assms show ?thesis by (cases r) (auto simp: dispatchOutbox_def Let_def)
    qed
  qed
qed

theorem outbox_redelivery_idempotent_witness:
  "\<exists>st' s'. dispatchOutbox True 0 0 empty_store (NewServer (None :: unit option))
       (new_outbox 0 empty_store ''c1'' ''DISPATCH_REQUESTED''
         \<lparr>p_CmdID = ''c1'', p_AssetID = ''h'', p_Action = ''uptime'', p_Params = [], p_TimeoutSec = 5\<rparr>) =
       (Some (StoreFailed ErrNotFound), st', s') \<and> mb_byID (sv_mailbox s') ''c1'' \<noteq> None"
proof -
  let ?e = "new_outbox 0 empty_store ''c1'' ''DISPATCH_REQUESTED''
         \<lparr>p_CmdID = ''c1'', p_AssetID = ''h'', p_Action = ''uptime'', p_Params = [], p_TimeoutSec = 5\<rparr>"
  let ?d = "dispatchOutbox True 0 0 empty_store (NewServer (None :: unit option)) ?e"
  have t: "ob_type ?e = ''DISPATCH_REQUESTED''" "ob_payload ?e =
      \<lparr>p_CmdID = ''c1'', p_AssetID = ''h'', p_Action = ''uptime'', p_Params = [], p_TimeoutSec = 5\<rparr>"
    by (simp_all add: new_outbox_def)
  have "fst ?d = Some (StoreFailed ErrNotFound)"
    unfolding dispatchOutbox_def t
    by (simp add: NewServer_def NewMailbox_def mb_Submit_def pending_count_def Transition_def
      empty_store_def Let_def)
  then have d: "?d = (Some (StoreFailed ErrNotFound), fst (snd ?d), snd (snd ?d))" by (metis prod.collapse)
  from outbox_redelivery_idempotent [OF t(1) d, of True 0 0 empty_store]
  have "mb_byID (sv_mailbox (snd (snd ?d))) ''c1'' \<noteq> None" by (simp add: t(2))
  with d show ?thesis by blast
qed

text \<open>
  The cancel entries the database writes carry no asset id, so processing one for a
  command that is already with its agent puts the cancellation into the mailbox of the asset
  with the empty name: no control stream of the command's asset ever sends it.
\<close>

theorem cancel_row_misses_asset:
  assumes "CancelCommand True now st i = (None, st1)" "mb_byID (sv_mailbox s) i = Some c" "mc_State c = StateDispatched"
    and "a \<noteq> []"
  shows "\<exists>e s'. st_outbox st1 = st_outbox st @ [e] \<and> dispatchOutbox dbok n1 n2 st2 s e = (None, st2, s') \<and>
    mb_pendingCancels (sv_mailbox s') a = mb_pendingCancels (sv_mailbox s) a \<and>
    mb_pendingCancels (sv_mailbox s') [] = mb_pendingCancels (sv_mailbox s) [] @ [i]"
proof -
  let ?e = "new_outbox now st i ''CANCEL_REQUESTED'' \<lparr>p_CmdID = i, p_AssetID = [], p_Action = [], p_Params = [], p_TimeoutSec = 0\<rparr>"
  have "st_outbox st1 = st_outbox st @ [?e]" using assms(1) by (auto simp: CancelCommand_def)
  moreover have "ob_type ?e = ''CANCEL_REQUESTED''" "p_AssetID (ob_payload ?e) = []" "p_CmdID (ob_payload ?e) = i"
    by (simp_all add: new_outbox_def)
  ultimately show ?thesis using assms(2-4)
    by (intro exI [of _ ?e]) (simp add: dispatchOutbox_def mb_Cancel_def signalLocked_def)
qed

theorem cancel_row_misses_asset_witness:
  "\<exists>e (s :: unit Server) s'. dispatchOutbox True 0 0 empty_store s e = (None, empty_store, s') \<and>
     mb_pendingCancels (sv_mailbox s') ''h'' = [] \<and> mb_pendingCancels (sv_mailbox s') [] = [''c1'']"
proof -
  let ?s = "(NewServer (None :: unit option))\<lparr>sv_mailbox := (NewMailbox 64 300000)\<lparr>mb_byID := [''c1'' \<mapsto> sample_command]\<rparr>\<rparr>"
  have "CancelCommand True 0 empty_store ''c1'' = (None, snd (CancelCommand True 0 empty_store ''c1''))"
    by (simp add: CancelCommand_def)
  then obtain e s' where "dispatchOutbox True 0 0 empty_store ?s e = (None, empty_store, s')"
      "mb_pendingCancels (sv_mailbox s') ''h'' = mb_pendingCancels (sv_mailbox ?s) ''h''"
      "mb_pendingCancels (sv_mailbox s') [] = mb_pendingCancels (sv_mailbox ?s) [] @ [''c1'']"
    using cancel_row_misses_asset [where s = ?s and c = sample_command and a = "''h''" and dbok = True
      and ?n1.0 = 0 and ?n2.0 = 0 and ?st2.0 = empty_store and i = "''c1''"]
    by (fastforce simp: sample_command_def)
  then show ?thesis by (intro exI [of _ e] exI [of _ ?s] exI [of _ s']) (simp add: NewMailbox_def)
qed

section \<open>Command ids\<close>

lemma less_char_code: "c \<le> d \<longleftrightarrow> (of_char c :: nat) \<le> of_char d"
  by (simp add: less_eq_char_def)

lemma hex_digit_hex: "n < 16 \<Longrightarrow> is_hex (hex_digit n)"
  by (simp add: is_hex_def hex_digit_def less_char_code)

lemma hex_encode_hex: "i < 2 * length bs \<Longrightarrow> is_hex (hex_encode bs ! i)"
proof (induction bs arbitrary: i)
  case (Cons b bs)
  have "unat b < 256" using unsigned_less [of b, where ?'a = nat] by simp
  then have "is_hex (hex_digit (unat b div 16))" "is_hex (hex_digit (unat b mod 16))" by (simp_all add: hex_digit_hex)
  with Cons show ?case by (auto simp: nth_Cons split: nat.splits)
qed simp

lemma isUUID_join:
  assumes "length h1 = 8" "length h2 = 4" "length h3 = 4" "length h4 = 4" "length h5 = 12"
    and "\<And>h i. h \<in> {h1, h2, h3, h4, h5} \<Longrightarrow> i < length h \<Longrightarrow> is_hex (h ! i)"
  shows "isUUID (h1 @ ''-'' @ h2 @ ''-'' @ h3 @ ''-'' @ h4 @ ''-'' @ h5)"
proof -
  have "(if i \<in> {8, 13, 18, 23} then s ! i = CHR ''-'' else is_hex (s ! i))"
    if "i < 36" "s = h1 @ ''-'' @ h2 @ ''-'' @ h3 @ ''-'' @ h4 @ ''-'' @ h5" for i s
    using that assms by (auto simp: nth_append nth_Cons')
  then show ?thesis using assms(1-5) by (simp add: isUUID_def list_all_iff)
qed

lemma NewUUID_isUUID: "length rnd = 16 \<Longrightarrow> isUUID (NewUUID rnd)"
  unfolding NewUUID_def Let_def by (rule isUUID_join) (auto simp: hex_encode_hex)

text \<open>
  A request the admin interface accepts is answered with a valid UUID (a generated one
  when the request has none), under which the ledger then has the requested command in
  state QUEUED with its one dispatch entry in the outbox; a request that is not accepted
  leaves the server as it was.
\<close>

theorem accepted_command_is_recorded:
  assumes "sv_store s = Some st" "store_reach st" "length rnd = 16" "admin_command dbok n1 n2 rnd a (Some q) s = (code, i, s')"
  shows "if code = StatusAccepted
    then \<exists>j st' row. i = Some j \<and> isUUID j \<and> sv_store s' = Some st' \<and> store_reach st' \<and> st_command st j = None \<and>
      st_command st' j = Some row \<and> cr_asset row = a \<and> cr_action row = q_Action q \<and> cr_params row = q_Params q \<and>
      cr_status row = ''QUEUED'' \<and> cr_timeout row = (if q_TimeoutSec q \<le> 0 then 60 else q_TimeoutSec q) \<and>
      dispatches st' j = [dispatch_payload j row] \<and> s' = s\<lparr>sv_store := Some st'\<rparr>
    else i = None \<and> s' = s"
proof (cases "a = [] \<or> q_Action q = []")
  case True
  with assms show ?thesis by (auto simp: admin_command_def)
next
  case False
  let ?j = "if isUUID (q_CmdID q) then q_CmdID q else NewUUID rnd"
  let ?t = "if q_TimeoutSec q \<le> 0 then 60 else q_TimeoutSec q"
  obtain err st' where c: "SubmitCommand dbok n1 st ?j a (q_Action q) (q_Params q) ?t 300 = (err, st')" by (meson surj_pair)
  have reach: "store_reach st'"
    using store_more [OF assms(2) store_step.intros(1)] c by (metis snd_conv)
  show ?thesis
  proof (cases err)
    case (Some e)
    with False c assms show ?thesis by (cases e) (auto simp: admin_command_def Let_def)
  next
    case None
    have s': "code = StatusAccepted" "i = Some ?j" "s' = s\<lparr>sv_store := Some st'\<rparr>"
      using False c assms(1,4) None by (auto simp: admin_command_def Let_def)
    obtain row where row: "st_command st ?j = None" "st_command st' ?j = Some row" "cr_asset row = a" "cr_action row = q_Action q"
      "cr_params row = q_Params q" "cr_status row = ''QUEUED''" "cr_timeout row = ?t"
      using c None by (auto simp: SubmitCommand_def Let_def split: if_splits)
    have "command_ok st' ?j" using store_reach_ok [OF reach] by (simp add: store_ok_def)
    then have "dispatches st' ?j = [dispatch_payload ?j row]" using row(2) by (simp add: command_ok_def)
    with s' row reach NewUUID_isUUID [OF assms(3)] show ?thesis by simp
  qed
qed

theorem accepted_command_is_recorded_witness:
  "\<exists>j s'. admin_command True 0 0 (replicate 16 0) ''h'' (Some \<lparr>q_CmdID = [], q_Action = ''uptime'', q_Params = [], q_TimeoutSec = 0\<rparr>)
     (SetStore (NewServer (None :: unit option)) empty_store) = (StatusAccepted, Some j, s') \<and> isUUID j"
proof -
  let ?s = "SetStore (NewServer (None :: unit option)) empty_store"
  let ?r = "admin_command True 0 0 (replicate 16 0) ''h'' (Some \<lparr>q_CmdID = [], q_Action = ''uptime'', q_Params = [], q_TimeoutSec = 0\<rparr>) ?s"
  have s: "sv_store ?s = Some empty_store" by (simp add: SetStore_def)
  have "fst ?r = StatusAccepted"
    by (simp add: admin_command_def SetStore_def SubmitCommand_def empty_store_def Let_def)
  then have r: "?r = (StatusAccepted, fst (snd ?r), snd (snd ?r))" by (metis prod.collapse)
  from accepted_command_is_recorded [OF s store_empty _ r] obtain j where "fst (snd ?r) = Some j" "isUUID j" by auto
  with r show ?thesis by metis
qed

end
