(* ===== verification/Uplink.thy ===== *)
theory Uplink
  imports Reporter
begin

text \<open>
  \<^verbatim>\<open>internal/uplink/grpc.go\<close>: the agent's gRPC uplink. The two send queues, the table of metric
  acknowledgements, the list of report waiters and the gate that opens with the handshake
  are one state; the answer channels have room for one value each, and a send into a full
  one blocks (\<open>None\<close>). The goroutines of a session are steps on this state, the callers of
  \<^verbatim>\<open>SendMetrics\<close> and \<^verbatim>\<open>SendReliable\<close> go through the phases of \<^verbatim>\<open>waitReady\<close>.
\<close>

section \<open>Data\<close>

datatype uplink_error =
    StreamError | ControlClosed | ReconnectHinted | MetricsQueueFull | ReportsQueueFull
  | HandshakeTimeout | AckTimeout | CtxDone

text \<open>What an answer channel carries: \<open>None\<close> is the nil error.\<close>

type_synonym answer = "uplink_error option"

record 'm metricSend =
  ms_batch :: "'m Batch"
  ms_ack :: nat

record reportSend =
  rs_kind :: ReportKind
  rs_batch :: ReliableBatch
  rs_ack :: nat

record reportWaiter =
  wt_kind :: ReportKind
  wt_ids :: "string list"
  wt_ch :: nat

record 'm GRPCUplink =
  up_metricOut :: "'m metricSend list"
  up_reportOut :: "reportSend list"
  up_metricAcks :: "(64 word \<times> nat) list"
  up_reportWait :: "reportWaiter list"
  up_ready :: nat
  up_closed :: "nat list"
  up_chan :: "nat \<Rightarrow> answer option"
  up_next :: nat

definition out_cap :: nat where
  "out_cap = 64"

definition NewGRPC :: "'m GRPCUplink" where
  "NewGRPC = \<lparr>up_metricOut = [], up_reportOut = [], up_metricAcks = [], up_reportWait = [], up_ready = 0, up_closed = [],
     up_chan = (\<lambda>_. None), up_next = 1\<rparr>"

definition reportKindOf :: "QueueKind \<Rightarrow> ReportKind" where
  "reportKindOf k = (case k of QueueResults \<Rightarrow> KindResults | QueueAudit \<Rightarrow> KindAudit | QueueInventory \<Rightarrow> KindInventory
     | QueueMetrics \<Rightarrow> KindOther 0)"

definition bootID :: "bytes \<Rightarrow> string" where
  "bootID rnd = hex_encode rnd"

section \<open>Transport credentials\<close>

record UplinkConf =
  uc_Addr :: string
  uc_Insecure :: bool
  uc_CAFile :: string
  uc_CertFile :: string
  uc_KeyFile :: string
  uc_ServerName :: string

datatype ('ca, 'cert) credentials = InsecureCredentials | MutualTLS 'ca 'cert string

datatype dial_error = PlaintextNotAllowed | CAUnreadable | CAInvalid string | KeyPairInvalid | AddrInvalid

text \<open>
  The file system and the certificate parsers are parameters: \<open>read\<close> a file, \<open>pool\<close> the
  certificates of a PEM file, \<open>pair\<close> the key pair of two files, \<open>split\<close> the host of an address.
\<close>

definition dialOption ::
  "(string \<Rightarrow> bytes option) \<Rightarrow> (bytes \<Rightarrow> 'ca option) \<Rightarrow> (string \<Rightarrow> string \<Rightarrow> 'cert option) \<Rightarrow> (string \<Rightarrow> string option) \<Rightarrow>
   UplinkConf \<Rightarrow> dial_error + ('ca, 'cert) credentials" where
  "dialOption read pool pair split cfg =
     (if uc_CAFile cfg = [] \<and> uc_CertFile cfg = [] \<and> uc_KeyFile cfg = []
      then (if \<not> uc_Insecure cfg then Inl PlaintextNotAllowed else Inr InsecureCredentials)
      else case read (uc_CAFile cfg) of
        None \<Rightarrow> Inl CAUnreadable
      | Some pem \<Rightarrow>
          (case pool pem of
             None \<Rightarrow> Inl (CAInvalid (uc_CAFile cfg))
           | Some ca \<Rightarrow>
               (case pair (uc_CertFile cfg) (uc_KeyFile cfg) of
                  None \<Rightarrow> Inl KeyPairInvalid
                | Some cert \<Rightarrow>
                    if uc_ServerName cfg = []
                    then (case split (uc_Addr cfg) of
                            None \<Rightarrow> Inl AddrInvalid
                          | Some host \<Rightarrow> Inr (MutualTLS ca cert host))
                    else Inr (MutualTLS ca cert (uc_ServerName cfg)))))"

section \<open>Channels\<close>

definition chan_send :: "nat \<Rightarrow> answer \<Rightarrow> 'm GRPCUplink \<Rightarrow> 'm GRPCUplink option" where
  "chan_send h a u = (if up_chan u h \<noteq> None then None else Some (u\<lparr>up_chan := (up_chan u)(h \<mapsto> a)\<rparr>))"

text \<open>The non-blocking send of a \<^verbatim>\<open>select\<close> with a default branch.\<close>

definition chan_offer :: "nat \<Rightarrow> answer \<Rightarrow> 'm GRPCUplink \<Rightarrow> 'm GRPCUplink" where
  "chan_offer h a u = (if up_chan u h \<noteq> None then u else u\<lparr>up_chan := (up_chan u)(h \<mapsto> a)\<rparr>)"

section \<open>The session\<close>

text \<open>A new session makes a new gate.\<close>

definition session_open :: "'m GRPCUplink \<Rightarrow> 'm GRPCUplink" where
  "session_open u = u\<lparr>up_ready := up_next u, up_next := Suc (up_next u)\<rparr>"

definition up_second :: int where
  "up_second = 1000000000"

definition supervise_backoff :: "int \<Rightarrow> int" where
  "supervise_backoff b = (if b < 30 * up_second then b * 2 else b)"

datatype control_frame =
    FWelcome | FCommand string | FCancel string | FReconnectHint | FOther

datatype handled = HandledSubmit string | HandledCancel string | HandledNothing

text \<open>
  A frame of the control stream. \<open>enabled\<close>: there is an executor. The result: what the
  executor is called with and, if the session ends, the error; \<open>None\<close> is the panic of closing
  a closed channel.
\<close>

definition controlRecv ::
  "bool \<Rightarrow> control_frame option \<Rightarrow> 'm GRPCUplink \<Rightarrow> (handled \<times> uplink_error option \<times> 'm GRPCUplink) option" where
  "controlRecv enabled f u =
     (case f of
        None \<Rightarrow> Some (HandledNothing, Some ControlClosed, u)
      | Some FWelcome \<Rightarrow>
          if up_ready u \<in> set (up_closed u) then None
          else Some (HandledNothing, None, u\<lparr>up_closed := up_ready u # up_closed u\<rparr>)
      | Some (FCommand i) \<Rightarrow> Some (if enabled then HandledSubmit i else HandledNothing, None, u)
      | Some (FCancel i) \<Rightarrow> Some (if enabled then HandledCancel i else HandledNothing, None, u)
      | Some FReconnectHint \<Rightarrow> Some (HandledNothing, Some ReconnectHinted, u)
      | Some FOther \<Rightarrow> Some (HandledNothing, None, u))"

subsection \<open>The metrics stream\<close>

text \<open>The send loops take the head of their queue; the flag says whether the session goes on.\<close>

definition metricsSendLoop :: "bool \<Rightarrow> 'm GRPCUplink \<Rightarrow> ('m Batch \<times> bool \<times> 'm GRPCUplink) option" where
  "metricsSendLoop ok u =
     (case up_metricOut u of
        [] \<Rightarrow> None
      | m # ms \<Rightarrow>
          (let seq = b_Sequence (ms_batch m);
               u = u\<lparr>up_metricOut := ms, up_metricAcks := AList.update seq (ms_ack m) (up_metricAcks u)\<rparr>
           in if ok then Some (ms_batch m, True, u)
              else map_option (\<lambda>u. (ms_batch m, False, u))
                     (chan_send (ms_ack m) (Some StreamError) (u\<lparr>up_metricAcks := AList.delete seq (up_metricAcks u)\<rparr>))))"

fun ack_metrics :: "64 word \<Rightarrow> (64 word \<times> nat) list \<Rightarrow> 'm GRPCUplink \<Rightarrow> 'm GRPCUplink option" where
  "ack_metrics n [] u = Some u"
| "ack_metrics n ((k, h) # ks) u =
     (if k \<le> n
      then (case chan_send h None u of
              None \<Rightarrow> None
            | Some u' \<Rightarrow> ack_metrics n ks (u'\<lparr>up_metricAcks := AList.delete k (up_metricAcks u')\<rparr>))
      else ack_metrics n ks u)"

definition metricsRecvLoop :: "64 word \<Rightarrow> 'm GRPCUplink \<Rightarrow> 'm GRPCUplink option" where
  "metricsRecvLoop n u = ack_metrics n (up_metricAcks u) u"

subsection \<open>The report stream\<close>

definition reportsSendLoop :: "bool \<Rightarrow> 'm GRPCUplink \<Rightarrow> (ReliableBatch \<times> bool \<times> 'm GRPCUplink) option" where
  "reportsSendLoop ok u =
     (case up_reportOut u of
        [] \<Rightarrow> None
      | r # rs \<Rightarrow>
          (let u = u\<lparr>up_reportOut := rs\<rparr>
           in if ok then Some (rs_batch r, True, u)
              else map_option (\<lambda>u. (rs_batch r, False, u)) (chan_send (rs_ack r) (Some StreamError) u)))"

text \<open>The pass of the receive loop over the waiters: those that remain, in order.\<close>

fun ack_waiters ::
  "ReportKind \<Rightarrow> string list \<Rightarrow> reportWaiter list \<Rightarrow> 'm GRPCUplink \<Rightarrow> (reportWaiter list \<times> 'm GRPCUplink) option" where
  "ack_waiters k acked [] u = Some ([], u)"
| "ack_waiters k acked (w # ws) u =
     (if wt_kind w \<noteq> k
      then map_option (\<lambda>(rest, u). (w # rest, u)) (ack_waiters k acked ws u)
      else (let w = w\<lparr>wt_ids := filter (\<lambda>i. i \<notin> set acked) (wt_ids w)\<rparr>
            in if wt_ids w = []
               then (case chan_send (wt_ch w) None u of None \<Rightarrow> None | Some u' \<Rightarrow> ack_waiters k acked ws u')
               else map_option (\<lambda>(rest, u). (w # rest, u)) (ack_waiters k acked ws u)))"

definition reportsRecvLoop :: "ReportKind \<Rightarrow> string list \<Rightarrow> 'm GRPCUplink \<Rightarrow> 'm GRPCUplink option" where
  "reportsRecvLoop k acked u =
     map_option (\<lambda>(rest, u'). u'\<lparr>up_reportWait := rest\<rparr>) (ack_waiters k acked (up_reportWait u) u)"

subsection \<open>Tearing a session down\<close>

fun fail_metrics :: "uplink_error \<Rightarrow> (64 word \<times> nat) list \<Rightarrow> 'm GRPCUplink \<Rightarrow> 'm GRPCUplink" where
  "fail_metrics e [] u = u"
| "fail_metrics e ((k, h) # ks) u =
     fail_metrics e ks ((chan_offer h (Some e) u)\<lparr>up_metricAcks := AList.delete k (up_metricAcks u)\<rparr>)"

fun fail_reports :: "uplink_error \<Rightarrow> reportWaiter list \<Rightarrow> 'm GRPCUplink \<Rightarrow> 'm GRPCUplink option" where
  "fail_reports e [] u = Some u"
| "fail_reports e (w # ws) u =
     (case chan_send (wt_ch w) (Some e) u of None \<Rightarrow> None | Some u' \<Rightarrow> fail_reports e ws u')"

definition failAllWaiters :: "uplink_error \<Rightarrow> 'm GRPCUplink \<Rightarrow> 'm GRPCUplink option" where
  "failAllWaiters e u =
     (let u = fail_metrics e (up_metricAcks u) u
      in map_option (\<lambda>u. u\<lparr>up_reportWait := []\<rparr>) (fail_reports e (up_reportWait u) u))"

section \<open>The sink\<close>

definition removeWaiter :: "nat \<Rightarrow> 'm GRPCUplink \<Rightarrow> 'm GRPCUplink" where
  "removeWaiter h u = u\<lparr>up_reportWait := filter (\<lambda>w. wt_ch w \<noteq> h) (up_reportWait u)\<rparr>"

text \<open>
  The calls up to \<^verbatim>\<open>waitReady\<close>: the answer channel, or the error when the queue stays full for
  two seconds.
\<close>

definition SendMetrics :: "'m Batch \<Rightarrow> 'm GRPCUplink \<Rightarrow> (uplink_error + nat) \<times> 'm GRPCUplink" where
  "SendMetrics b u =
     (let h = up_next u; u = u\<lparr>up_next := Suc h\<rparr>
      in if length (up_metricOut u) < out_cap
         then (Inr h, u\<lparr>up_metricOut := up_metricOut u @ [\<lparr>ms_batch = b, ms_ack = h\<rparr>]\<rparr>)
         else (Inl MetricsQueueFull, u))"

definition SendReliable :: "ReliableBatch \<Rightarrow> 'm GRPCUplink \<Rightarrow> (uplink_error + nat) \<times> 'm GRPCUplink" where
  "SendReliable b u =
     (let k = reportKindOf (rb_Kind b); h = up_next u;
          w = \<lparr>wt_kind = k, wt_ids = remdups (map it_ID (rb_Items b)), wt_ch = h\<rparr>;
          u = u\<lparr>up_next := Suc h, up_reportWait := up_reportWait u @ [w]\<rparr>
      in if length (up_reportOut u) < out_cap
         then (Inr h, u\<lparr>up_reportOut := up_reportOut u @ [\<lparr>rs_kind = k, rs_batch = b, rs_ack = h\<rparr>]\<rparr>)
         else (Inl ReportsQueueFull, removeWaiter h u))"

datatype phase = WaitReady nat | WaitAck | Returned answer

datatype wake = WakeChan | WakeCtx | WakeTimer

text \<open>
  The two \<^verbatim>\<open>select\<close> statements of \<^verbatim>\<open>waitReady\<close> on the channel \<open>h\<close>; \<open>None\<close>: the branch is not
  ready.
\<close>

definition waitReady :: "wake \<Rightarrow> nat \<Rightarrow> phase \<Rightarrow> 'm GRPCUplink \<Rightarrow> (phase \<times> 'm GRPCUplink) option" where
  "waitReady w h p u =
     (case p of
        WaitReady r \<Rightarrow>
          (case w of
             WakeChan \<Rightarrow> if r \<in> set (up_closed u) then Some (WaitAck, u) else None
           | WakeCtx \<Rightarrow> Some (Returned (Some CtxDone), u)
           | WakeTimer \<Rightarrow> Some (Returned (Some HandshakeTimeout), u))
      | WaitAck \<Rightarrow>
          (case w of
             WakeChan \<Rightarrow> (case up_chan u h of
                              None \<Rightarrow> None
                            | Some a \<Rightarrow> Some (Returned a, u\<lparr>up_chan := (up_chan u)(h := None)\<rparr>))
           | WakeCtx \<Rightarrow> Some (Returned (Some CtxDone), u)
           | WakeTimer \<Rightarrow> Some (Returned (Some AckTimeout), u))
      | Returned a \<Rightarrow> None)"

section \<open>Runs\<close>

text \<open>
  Calls in progress, with the phase they are in and, for the reports, the number of
  acknowledged ids received before the call; and all acknowledgements received.
\<close>

datatype 'm call = MetricCall "'m Batch" | ReliableCall ReliableBatch

record 'm up_run =
  ur_up :: "'m GRPCUplink"
  ur_calls :: "nat \<rightharpoonup> 'm call \<times> nat \<times> phase"
  ur_acks :: "(ReportKind \<times> string) list"

definition up_boot :: "'m up_run" where
  "up_boot = \<lparr>ur_up = NewGRPC, ur_calls = Map.empty, ur_acks = []\<rparr>"

definition begin_call :: "'m call \<Rightarrow> (uplink_error + nat) \<times> 'm GRPCUplink \<Rightarrow> 'm up_run \<Rightarrow> 'm up_run" where
  "begin_call c r s =
     s\<lparr>ur_up := snd r, ur_calls := (ur_calls s)(up_next (ur_up s) \<mapsto> (c, length (ur_acks s),
       case fst r of Inl e \<Rightarrow> Returned (Some e) | Inr h \<Rightarrow> WaitReady (up_ready (ur_up s))))\<rparr>"

inductive up_step :: "'m up_run \<Rightarrow> 'm up_run \<Rightarrow> bool" where
  up_metrics: "up_step s (begin_call (MetricCall b) (SendMetrics b (ur_up s)) s)"
| up_reliable: "up_step s (begin_call (ReliableCall b) (SendReliable b (ur_up s)) s)"
| up_wait: "ur_calls s h = Some (c, n, p) \<Longrightarrow> waitReady w h p (ur_up s) = Some (p', u) \<Longrightarrow>
    up_step s (s\<lparr>ur_up := u, ur_calls := (ur_calls s)(h \<mapsto> (c, n, p'))\<rparr>)"
| up_session: "up_step s (s\<lparr>ur_up := session_open (ur_up s)\<rparr>)"
| up_control: "controlRecv en f (ur_up s) = Some (r, e, u) \<Longrightarrow> up_step s (s\<lparr>ur_up := u\<rparr>)"
| up_msend: "metricsSendLoop ok (ur_up s) = Some (b, goes, u) \<Longrightarrow> up_step s (s\<lparr>ur_up := u\<rparr>)"
| up_mrecv: "metricsRecvLoop n (ur_up s) = Some u \<Longrightarrow> up_step s (s\<lparr>ur_up := u\<rparr>)"
| up_rsend: "reportsSendLoop ok (ur_up s) = Some (b, goes, u) \<Longrightarrow> up_step s (s\<lparr>ur_up := u\<rparr>)"
| up_rrecv: "reportsRecvLoop k ids (ur_up s) = Some u \<Longrightarrow>
    up_step s (s\<lparr>ur_up := u, ur_acks := ur_acks s @ map (Pair k) ids\<rparr>)"
| up_fail: "failAllWaiters e (ur_up s) = Some u \<Longrightarrow> up_step s (s\<lparr>ur_up := u\<rparr>)"

inductive up_reach :: "'m up_run \<Rightarrow> bool" where
  up_start: "up_reach up_boot"
| up_more: "up_reach s \<Longrightarrow> up_step s s' \<Longrightarrow> up_reach s'"

section \<open>A successful call was acknowledged\<close>

text \<open>The ids of a call that no acknowledgement since its start has named.\<close>

definition acked_since :: "'m up_run \<Rightarrow> nat \<Rightarrow> ReliableBatch \<Rightarrow> string set \<Rightarrow> bool" where
  "acked_since s n b S \<longleftrightarrow> (\<forall>i \<in> it_ID ` set (rb_Items b). i \<in> S \<or> (reportKindOf (rb_Kind b), i) \<in> set (drop n (ur_acks s)))"

definition waiter_ok :: "'m up_run \<Rightarrow> reportWaiter \<Rightarrow> bool" where
  "waiter_ok s w \<longleftrightarrow> (\<exists>b n p. ur_calls s (wt_ch w) = Some (ReliableCall b, n, p) \<and> wt_kind w = reportKindOf (rb_Kind b) \<and>
     acked_since s n b (set (wt_ids w)))"

definition metric_chan :: "'m up_run \<Rightarrow> nat \<Rightarrow> bool" where
  "metric_chan s h \<longleftrightarrow> (\<exists>b n p. ur_calls s h = Some (MetricCall b, n, p))"

definition up_ok :: "'m up_run \<Rightarrow> bool" where
  "up_ok s \<longleftrightarrow>
     (\<forall>h. ur_calls s h \<noteq> None \<longrightarrow> h < up_next (ur_up s)) \<and>
     (\<forall>h a. up_chan (ur_up s) h = Some a \<longrightarrow> h < up_next (ur_up s)) \<and>
     (\<forall>w \<in> set (up_reportWait (ur_up s)). waiter_ok s w) \<and>
     (\<forall>m \<in> set (up_metricOut (ur_up s)). metric_chan s (ms_ack m)) \<and>
     (\<forall>r \<in> set (up_reportOut (ur_up s)). ur_calls s (rs_ack r) \<noteq> None) \<and>
     (\<forall>x \<in> set (up_metricAcks (ur_up s)). metric_chan s (snd x)) \<and>
     (\<forall>h b n p. ur_calls s h = Some (ReliableCall b, n, p) \<and> (up_chan (ur_up s) h = Some None \<or> p = Returned None) \<longrightarrow>
        acked_since s n b {}) \<and>
     (\<forall>h c n p. ur_calls s h = Some (c, n, p) \<longrightarrow> n \<le> length (ur_acks s))"

lemma up_ok_boot: "up_ok up_boot"
  by (simp add: up_ok_def up_boot_def NewGRPC_def)

lemma up_okD:
  assumes "up_ok s"
  shows "ur_calls s h \<noteq> None \<Longrightarrow> h < up_next (ur_up s)" and "up_chan (ur_up s) h = Some a \<Longrightarrow> h < up_next (ur_up s)"
    and "w \<in> set (up_reportWait (ur_up s)) \<Longrightarrow> waiter_ok s w" and "m \<in> set (up_metricOut (ur_up s)) \<Longrightarrow> metric_chan s (ms_ack m)"
    and "r \<in> set (up_reportOut (ur_up s)) \<Longrightarrow> ur_calls s (rs_ack r) \<noteq> None"
    and "x \<in> set (up_metricAcks (ur_up s)) \<Longrightarrow> metric_chan s (snd x)"
    and "ur_calls s h = Some (ReliableCall b, n, p) \<Longrightarrow> up_chan (ur_up s) h = Some None \<or> p = Returned None \<Longrightarrow> acked_since s n b {}"
    and "ur_calls s h = Some (c, n, p) \<Longrightarrow> n \<le> length (ur_acks s)"
  using assms unfolding up_ok_def by blast+

lemma up_okI:
  assumes "\<And>h. ur_calls s h \<noteq> None \<Longrightarrow> h < up_next (ur_up s)" and "\<And>h a. up_chan (ur_up s) h = Some a \<Longrightarrow> h < up_next (ur_up s)"
    and "\<And>w. w \<in> set (up_reportWait (ur_up s)) \<Longrightarrow> waiter_ok s w" and "\<And>m. m \<in> set (up_metricOut (ur_up s)) \<Longrightarrow> metric_chan s (ms_ack m)"
    and "\<And>r. r \<in> set (up_reportOut (ur_up s)) \<Longrightarrow> ur_calls s (rs_ack r) \<noteq> None"
    and "\<And>x. x \<in> set (up_metricAcks (ur_up s)) \<Longrightarrow> metric_chan s (snd x)"
    and "\<And>h b n p. ur_calls s h = Some (ReliableCall b, n, p) \<Longrightarrow> up_chan (ur_up s) h = Some None \<or> p = Returned None \<Longrightarrow> acked_since s n b {}"
    and "\<And>h c n p. ur_calls s h = Some (c, n, p) \<Longrightarrow> n \<le> length (ur_acks s)"
  shows "up_ok s"
  using assms unfolding up_ok_def by blast

text \<open>Most steps change queues and answer channels only; what they must not do is write a nil answer.\<close>

lemma up_ok_change:
  assumes ok: "up_ok s" and "up_next (ur_up s) \<le> up_next u"
    and "set (up_reportWait u) \<subseteq> set (up_reportWait (ur_up s))" "set (up_metricOut u) \<subseteq> set (up_metricOut (ur_up s))"
      "set (up_reportOut u) \<subseteq> set (up_reportOut (ur_up s))" "snd ` set (up_metricAcks u) \<subseteq> {h. metric_chan s h}"
    and ch: "\<And>h a. up_chan u h = Some a \<Longrightarrow> up_chan (ur_up s) h = Some a \<or> ur_calls s h \<noteq> None \<and> (a = None \<longrightarrow> metric_chan s h)"
  shows "up_ok (s\<lparr>ur_up := u\<rparr>)"
proof -
  have keep: "waiter_ok (s\<lparr>ur_up := u\<rparr>) = waiter_ok s" "metric_chan (s\<lparr>ur_up := u\<rparr>) = metric_chan s"
      "acked_since (s\<lparr>ur_up := u\<rparr>) = acked_since s"
    by (simp_all add: fun_eq_iff waiter_ok_def metric_chan_def acked_since_def)
  have "h < up_next u" if "ur_calls s h \<noteq> None" for h
    using ok that assms(2) by (force simp: up_ok_def)
  moreover have "h < up_next u" if "up_chan u h = Some a" for h a
    using ch [OF that] ok assms(2) by (force simp: up_ok_def)
  moreover have "acked_since s n b {}" if "ur_calls s h = Some (ReliableCall b, n, p)" "up_chan u h = Some None \<or> p = Returned None" for h b n p
    using up_okD(7) [OF ok that(1)] that ch [of h None] by (auto simp: metric_chan_def)
  moreover have "n \<le> length (ur_acks s)" if "ur_calls s h = Some (c, n, p)" for h c n p
    by (rule up_okD(8) [OF ok that])
  moreover have "\<forall>w \<in> set (up_reportWait u). waiter_ok s w" "\<forall>m \<in> set (up_metricOut u). metric_chan s (ms_ack m)"
    "\<forall>r \<in> set (up_reportOut u). ur_calls s (rs_ack r) \<noteq> None" "\<forall>x \<in> set (up_metricAcks u). metric_chan s (snd x)"
    using ok assms(3-6) by (auto simp: up_ok_def)
  ultimately show ?thesis by (intro up_okI) (simp_all add: keep)
qed

lemma chan_sendD:
  "chan_send h a u = Some u' \<Longrightarrow> u' = u\<lparr>up_chan := (up_chan u)(h \<mapsto> a)\<rparr> \<and> up_chan u h = None"
  by (simp add: chan_send_def split: if_splits)

lemma set_delete_subset: "set (AList.delete k xs) \<subseteq> set xs"
  by (auto simp: AList.delete_eq)

lemma set_update_subset: "set (AList.update k v xs) \<subseteq> insert (k, v) (set xs)"
  by (induction xs) auto

lemma metricsSendLoop_ok:
  assumes ok: "up_ok s" and "metricsSendLoop b (ur_up s) = Some (x, goes, u)"
  shows "up_ok (s\<lparr>ur_up := u\<rparr>)"
proof -
  obtain m ms where m: "up_metricOut (ur_up s) = m # ms"
    using assms(2) by (auto simp: metricsSendLoop_def split: list.splits)
  have mc: "metric_chan s (ms_ack m)" using up_okD(4) [OF ok] m by simp
  let ?acks = "AList.update (b_Sequence (ms_batch m)) (ms_ack m) (up_metricAcks (ur_up s))"
  have acks: "metric_chan s h" if "(k, h) \<in> set ?acks" for k h
    using that up_okD(6) [OF ok] mc set_update_subset by fastforce
  then have "metric_chan s h" if "(k, h) \<in> set (AList.delete j ?acks)" for j k h
    using that set_delete_subset by fastforce
  moreover have "ur_calls s (ms_ack m) \<noteq> None" using mc by (auto simp: metric_chan_def)
  ultimately show ?thesis using acks assms(2) m mc
    by (intro up_ok_change [OF ok]) (auto simp: metricsSendLoop_def Let_def dest!: chan_sendD split: if_splits)
qed

lemma reportsSendLoop_ok:
  assumes ok: "up_ok s" and "reportsSendLoop b (ur_up s) = Some (x, goes, u)"
  shows "up_ok (s\<lparr>ur_up := u\<rparr>)"
proof -
  obtain r rs where r: "up_reportOut (ur_up s) = r # rs"
    using assms(2) by (auto simp: reportsSendLoop_def split: list.splits)
  have "ur_calls s (rs_ack r) \<noteq> None" using up_okD(5) [OF ok] r by simp
  with assms(2) r up_okD(6) [OF ok] show ?thesis
    by (intro up_ok_change [OF ok]) (auto simp: reportsSendLoop_def Let_def dest!: chan_sendD split: if_splits)
qed

text \<open>The loops over the waiting calls touch the answer channels and, for metrics, the table.\<close>

definition only_answers :: "'m GRPCUplink \<Rightarrow> 'm GRPCUplink \<Rightarrow> bool" where
  "only_answers u u' \<longleftrightarrow> up_next u' = up_next u \<and> up_reportWait u' = up_reportWait u \<and> up_metricOut u' = up_metricOut u \<and>
     up_reportOut u' = up_reportOut u \<and> set (up_metricAcks u') \<subseteq> set (up_metricAcks u)"

lemma only_answers_trans: "only_answers u v \<Longrightarrow> only_answers v w \<Longrightarrow> only_answers u w"
  by (auto simp: only_answers_def)

lemma only_answers_refl [simp]: "only_answers u u"
  by (simp add: only_answers_def)

lemma only_answers_send: "chan_send h a u = Some u' \<Longrightarrow> only_answers u u'"
  by (auto simp: only_answers_def dest!: chan_sendD)

lemma only_answers_drop: "only_answers u (u\<lparr>up_chan := c, up_metricAcks := AList.delete k (up_metricAcks u)\<rparr>)"
  using set_delete_subset [of k "up_metricAcks u"] by (simp add: only_answers_def)

lemma up_ok_answers:
  assumes ok: "up_ok s" and "only_answers (ur_up s) u"
    and "\<And>h a. up_chan u h = Some a \<Longrightarrow> up_chan (ur_up s) h = Some a \<or> ur_calls s h \<noteq> None \<and> (a = None \<longrightarrow> metric_chan s h)"
  shows "up_ok (s\<lparr>ur_up := u\<rparr>)"
  using assms(2) up_okD(6) [OF ok] by (intro up_ok_change [OF ok _ _ _ _ _ assms(3)]) (auto simp: only_answers_def)

lemma ack_metrics_change:
  "ack_metrics n ks u = Some u' \<Longrightarrow>
   only_answers u u' \<and> (\<forall>h a. up_chan u' h = Some a \<longrightarrow> up_chan u h = Some a \<or> h \<in> snd ` set ks)"
proof (induction n ks u rule: ack_metrics.induct)
  case (2 n k h ks u)
  show ?case
  proof (cases "k \<le> n")
    case False
    with 2 show ?thesis by fastforce
  next
    case True
    let ?u = "u\<lparr>up_chan := (up_chan u)(h \<mapsto> None), up_metricAcks := AList.delete k (up_metricAcks u)\<rparr>"
    obtain u1 where c: "chan_send h None u = Some u1" using 2(3) True by (auto split: option.splits)
    have u1: "u1\<lparr>up_metricAcks := AList.delete k (up_metricAcks u1)\<rparr> = ?u" using chan_sendD [OF c] by simp
    have "ack_metrics n ks ?u = Some u'" using 2(3) True c u1 by simp
    from "2.IH"(1) [OF True c, unfolded u1, OF this] have IH: "only_answers ?u u'"
      "\<And>h' a. up_chan u' h' = Some a \<Longrightarrow> up_chan ?u h' = Some a \<or> h' \<in> snd ` set ks" by blast+
    from IH(1) have "only_answers u u'" by (rule only_answers_trans [OF only_answers_drop])
    with IH(2) show ?thesis by (fastforce split: if_splits)
  qed
qed simp

lemma metric_chan_call: "metric_chan s h \<Longrightarrow> ur_calls s h \<noteq> None"
  by (auto simp: metric_chan_def)

lemma metricsRecvLoop_ok:
  assumes ok: "up_ok s" and "metricsRecvLoop n (ur_up s) = Some u"
  shows "up_ok (s\<lparr>ur_up := u\<rparr>)"
proof -
  note c = ack_metrics_change [OF assms(2) [unfolded metricsRecvLoop_def]]
  have "metric_chan s h" if "h \<in> snd ` set (up_metricAcks (ur_up s))" for h
    using up_okD(6) [OF ok] that by auto
  with c metric_chan_call show ?thesis by (intro up_ok_answers [OF ok]) blast+
qed

lemma fail_metrics_change:
  "only_answers u (fail_metrics e ks u) \<and>
   (\<forall>h a. up_chan (fail_metrics e ks u) h = Some a \<longrightarrow> up_chan u h = Some a \<or> a = Some e \<and> h \<in> snd ` set ks)"
proof (induction e ks u rule: fail_metrics.induct)
  case (2 e k h ks u)
  let ?u = "(chan_offer h (Some e) u)\<lparr>up_metricAcks := AList.delete k (up_metricAcks u)\<rparr>"
  have "only_answers u ?u" using set_delete_subset [of k "up_metricAcks u"] by (simp add: only_answers_def chan_offer_def)
  with 2 have "only_answers u (fail_metrics e ks ?u)" by (auto intro: only_answers_trans)
  moreover have "up_chan u h' = Some a \<or> a = Some e \<and> h' = h" if "up_chan ?u h' = Some a" for h' a
    using that by (simp add: chan_offer_def split: if_splits)
  ultimately show ?case using 2 by (fastforce simp del: fun_upd_apply)
qed simp

lemma fail_reports_change:
  "fail_reports e ws u = Some u' \<Longrightarrow> only_answers u u' \<and>
   (\<forall>h a. up_chan u' h = Some a \<longrightarrow> up_chan u h = Some a \<or> a = Some e \<and> h \<in> wt_ch ` set ws)"
proof (induction e ws u rule: fail_reports.induct)
  case (2 e w ws u)
  obtain u1 where c: "chan_send (wt_ch w) (Some e) u = Some u1" and "fail_reports e ws u1 = Some u'"
    using 2(2) by (auto split: option.splits)
  from "2.IH" [OF this] have IH: "only_answers u1 u'"
    "\<And>h a. up_chan u' h = Some a \<Longrightarrow> up_chan u1 h = Some a \<or> a = Some e \<and> h \<in> wt_ch ` set ws" by blast+
  from only_answers_trans [OF only_answers_send [OF c] IH(1)] IH(2) chan_sendD [OF c] show ?case
    by (fastforce split: if_splits)
qed simp

lemma failAllWaiters_ok:
  assumes ok: "up_ok s" and "failAllWaiters e (ur_up s) = Some u"
  shows "up_ok (s\<lparr>ur_up := u\<rparr>)"
proof -
  let ?u = "fail_metrics e (up_metricAcks (ur_up s)) (ur_up s)"
  obtain u1 where f: "fail_reports e (up_reportWait ?u) ?u = Some u1" and u: "u = u1\<lparr>up_reportWait := []\<rparr>"
    using assms(2) by (auto simp: failAllWaiters_def Let_def)
  note fm = fail_metrics_change [of "ur_up s" e "up_metricAcks (ur_up s)"] and fr = fail_reports_change [OF f]
  have only: "only_answers (ur_up s) u1" using fm fr only_answers_trans by blast
  have calls: "ur_calls s h \<noteq> None" if "h \<in> snd ` set (up_metricAcks (ur_up s)) \<or> h \<in> wt_ch ` set (up_reportWait (ur_up s))" for h
    using that up_okD(3,6) [OF ok] by (auto simp: waiter_ok_def metric_chan_def) fastforce+
  have same: "up_reportWait ?u = up_reportWait (ur_up s)" using fm by (simp add: only_answers_def)
  have ch: "up_chan (ur_up s) h = Some a \<or> ur_calls s h \<noteq> None \<and> (a = None \<longrightarrow> metric_chan s h)" if "up_chan u h = Some a" for h a
  proof -
    have "up_chan u1 h = Some a" using that u by simp
    then have "up_chan (ur_up s) h = Some a \<or> a = Some e \<and> ur_calls s h \<noteq> None"
      using fm fr calls [of h] same by (metis (no_types, lifting))
    then show ?thesis by auto
  qed
  show ?thesis
    using only up_okD(6) [OF ok] u by (intro up_ok_change [OF ok _ _ _ _ _ ch]) (auto simp: only_answers_def)
qed

lemma ack_waiters_change:
  "ack_waiters k acked ws u = Some (rest, u') \<Longrightarrow> only_answers u u' \<and>
   (\<forall>h a. up_chan u' h = Some a \<longrightarrow> up_chan u h = Some a \<or>
      a = None \<and> (\<exists>w \<in> set ws. wt_ch w = h \<and> wt_kind w = k \<and> set (wt_ids w) \<subseteq> set acked)) \<and>
   (\<forall>w' \<in> set rest. \<exists>w \<in> set ws. wt_ch w' = wt_ch w \<and> wt_kind w' = wt_kind w \<and>
      set (wt_ids w) \<subseteq> set (wt_ids w') \<union> (if wt_kind w = k then set acked else {}))"
proof (induction k acked ws u arbitrary: rest rule: ack_waiters.induct)
  case (2 k acked w ws u)
  let ?w = "w\<lparr>wt_ids := filter (\<lambda>i. i \<notin> set acked) (wt_ids w)\<rparr>"
  consider (other) "wt_kind w \<noteq> k" | (complete) "wt_kind w = k" "wt_ids ?w = []" | (partial) "wt_kind w = k" "wt_ids ?w \<noteq> []"
    by blast
  then show ?case
  proof cases
    case other
    with "2.prems" obtain r where r: "ack_waiters k acked ws u = Some (r, u')" "rest = w # r" by auto
    from "2.IH"(1) [OF other r(1)] r(2) show ?thesis by fastforce
  next
    case complete
    with "2.prems" obtain u1 where u1: "chan_send (wt_ch w) None u = Some u1" "ack_waiters k acked ws u1 = Some (rest, u')"
      by (auto simp: Let_def split: option.splits)
    have sub: "set (wt_ids w) \<subseteq> set acked" using complete(2) by (auto simp: filter_empty_conv)
    have IH: "only_answers u1 u'" "\<And>h a. up_chan u' h = Some a \<Longrightarrow> up_chan u1 h = Some a \<or>
        a = None \<and> (\<exists>w \<in> set ws. wt_ch w = h \<and> wt_kind w = k \<and> set (wt_ids w) \<subseteq> set acked)"
      "\<forall>w' \<in> set rest. \<exists>w \<in> set ws. wt_ch w' = wt_ch w \<and> wt_kind w' = wt_kind w \<and>
        set (wt_ids w) \<subseteq> set (wt_ids w') \<union> (if wt_kind w = k then set acked else {})"
      using "2.IH"(2) [OF _ refl complete(2), of u1 rest] u1 complete(1) by simp_all
    have "only_answers u u'" using only_answers_trans [OF only_answers_send [OF u1(1)] IH(1)] .
    moreover have "up_chan u h = Some a \<or> a = None \<and> (\<exists>w \<in> set (w # ws). wt_ch w = h \<and> wt_kind w = k \<and> set (wt_ids w) \<subseteq> set acked)"
      if "up_chan u' h = Some a" for h a
      using IH(2) [OF that] chan_sendD [OF u1(1)] sub complete(1) by (auto split: if_splits)
    moreover have "\<forall>w' \<in> set rest. \<exists>w \<in> set (w # ws). wt_ch w' = wt_ch w \<and> wt_kind w' = wt_kind w \<and>
        set (wt_ids w) \<subseteq> set (wt_ids w') \<union> (if wt_kind w = k then set acked else {})"
      using IH(3) by (meson list.set_intros(2))
    ultimately show ?thesis by blast
  next
    case partial
    with "2.prems" obtain r where r: "ack_waiters k acked ws u = Some (r, u')" "rest = ?w # r" by (auto simp: Let_def)
    from "2.IH"(3) [OF _ refl _ r(1)] partial r(2) show ?thesis by fastforce
  qed
qed simp

lemma acked_since_more:
  assumes "acked_since s n b S" "n \<le> length (ur_acks s)" "S \<subseteq> T \<union> {i. (reportKindOf (rb_Kind b), i) \<in> set new}"
    and "ur_acks s' = ur_acks s @ new"
  shows "acked_since s' n b T"
  using assms by (auto simp: acked_since_def)

lemma reportsRecvLoop_ok:
  assumes ok: "up_ok s" and "reportsRecvLoop k ids (ur_up s) = Some u"
  shows "up_ok (s\<lparr>ur_up := u, ur_acks := ur_acks s @ map (Pair k) ids\<rparr>)" (is "up_ok ?s")
proof -
  obtain rest u1 where a: "ack_waiters k ids (up_reportWait (ur_up s)) (ur_up s) = Some (rest, u1)" and u: "u = u1\<lparr>up_reportWait := rest\<rparr>"
    using assms(2) by (auto simp: reportsRecvLoop_def)
  note c = ack_waiters_change [OF a]
  have grow: "acked_since ?s n b T" if "acked_since s n b S" "n \<le> length (ur_acks s)"
      "S \<subseteq> T \<union> (if reportKindOf (rb_Kind b) = k then set ids else {})" for n b S T
    using that(1,2) by (rule acked_since_more [where new = "map (Pair k) ids"]) (use that(3) in \<open>auto split: if_splits\<close>)
  have w: "waiter_ok ?s w'" if "w' \<in> set rest" for w'
  proof -
    from c that obtain w where w: "w \<in> set (up_reportWait (ur_up s))" "wt_ch w' = wt_ch w" "wt_kind w' = wt_kind w"
      "set (wt_ids w) \<subseteq> set (wt_ids w') \<union> (if wt_kind w = k then set ids else {})" by blast
    from up_okD(3) [OF ok w(1)] obtain b n p where b: "ur_calls s (wt_ch w) = Some (ReliableCall b, n, p)"
      "wt_kind w = reportKindOf (rb_Kind b)" "acked_since s n b (set (wt_ids w))" by (auto simp: waiter_ok_def)
    from grow [OF b(3) up_okD(8) [OF ok b(1)]] w(4) b(2) have "acked_since ?s n b (set (wt_ids w'))" by simp
    with b w(2,3) show ?thesis by (auto simp: waiter_ok_def)
  qed
  have nil: "acked_since ?s n b {}" if call: "ur_calls s h = Some (ReliableCall b, n, p)" and
      "up_chan u1 h = Some None \<or> p = Returned None" for h b n p
  proof (cases "up_chan (ur_up s) h = Some None \<or> p = Returned None")
    case True
    show ?thesis by (rule grow [OF up_okD(7) [OF ok call True] up_okD(8) [OF ok call]]) simp
  next
    case False
    with that c obtain w where w: "w \<in> set (up_reportWait (ur_up s))" "wt_ch w = h" "wt_kind w = k" "set (wt_ids w) \<subseteq> set ids"
      by blast
    from up_okD(3) [OF ok w(1)] call w(2,3) have "acked_since s n b (set (wt_ids w))" "k = reportKindOf (rb_Kind b)"
      by (auto simp: waiter_ok_def)
    from grow [OF this(1) up_okD(8) [OF ok call]] w(4) this(2) show ?thesis by simp
  qed
  have only: "only_answers (ur_up s) u1" using c by blast
  have "h < up_next (ur_up s)" if "up_chan u1 h = Some a" for h a
  proof (cases "up_chan (ur_up s) h = Some a")
    case False
    with c that obtain w where "w \<in> set (up_reportWait (ur_up s))" "wt_ch w = h" by blast
    with up_okD(3) [OF ok this(1)] have "ur_calls s h \<noteq> None" by (auto simp: waiter_ok_def)
    then show ?thesis by (rule up_okD(1) [OF ok])
  qed (rule up_okD(2) [OF ok])
  note lim = this
  have mc: "metric_chan ?s = metric_chan s" by (simp add: metric_chan_def fun_eq_iff)
  have f: "up_next u = up_next (ur_up s)" "up_metricOut u = up_metricOut (ur_up s)" "up_reportOut u = up_reportOut (ur_up s)"
    "set (up_metricAcks u) \<subseteq> set (up_metricAcks (ur_up s))" "up_chan u = up_chan u1" "up_reportWait u = rest"
    using only u by (auto simp: only_answers_def)
  show ?thesis
  proof (rule up_okI, goal_cases)
    case (1 h) then show ?case using up_okD(1) [OF ok] f by simp
  next
    case (2 h a) then show ?case using lim f by simp
  next
    case (3 w') then show ?case using w f by simp
  next
    case (4 m) then show ?case using up_okD(4) [OF ok] f mc by simp
  next
    case (5 r) then show ?case using up_okD(5) [OF ok] f by simp
  next
    case (6 x) then have "x \<in> set (up_metricAcks (ur_up s))" using f by auto
    from up_okD(6) [OF ok this] show ?case by (simp add: mc)
  next
    case (7 h b n p) then show ?case using nil f by simp
  next
    case (8 h c n p) then have "ur_calls s h = Some (c, n, p)" by simp
    from up_okD(8) [OF ok this] show ?case by simp
  qed
qed

lemma up_ok_call:
  assumes ok: "up_ok s" and h: "h = up_next (ur_up s)"
    and u: "up_next u = Suc h" "up_chan u = up_chan (ur_up s)" "up_metricAcks u = up_metricAcks (ur_up s)"
    and s': "s' = s\<lparr>ur_up := u, ur_calls := (ur_calls s)(h \<mapsto> (c, length (ur_acks s), p))\<rparr>"
    and p: "p \<noteq> Returned None"
    and new: "\<And>w. w \<in> set (up_reportWait u) \<Longrightarrow> w \<in> set (up_reportWait (ur_up s)) \<or> waiter_ok s' w"
      "\<And>m. m \<in> set (up_metricOut u) \<Longrightarrow> m \<in> set (up_metricOut (ur_up s)) \<or> metric_chan s' (ms_ack m)"
      "\<And>r. r \<in> set (up_reportOut u) \<Longrightarrow> r \<in> set (up_reportOut (ur_up s)) \<or> rs_ack r = h"
  shows "up_ok s'"
proof -
  have fresh: "ur_calls s h = None" "up_chan (ur_up s) h = None"
    using up_okD(1,2) [OF ok, of h] h by (blast, cases "up_chan (ur_up s) h") auto
  have acks: "acked_since s' = acked_since s" by (simp add: fun_eq_iff acked_since_def s')
  have mc: "metric_chan s j \<Longrightarrow> metric_chan s' j" for j using fresh by (auto simp: metric_chan_def s')
  have wo: "waiter_ok s w \<Longrightarrow> waiter_ok s' w" for w
    using fresh unfolding waiter_ok_def acks by (auto simp: s')
  show ?thesis
  proof (rule up_okI, goal_cases)
    case (1 j) then show ?case using up_okD(1) [OF ok, of j] u h by (auto simp: s' split: if_splits)
  next
    case (2 j a) then show ?case using up_okD(2) [OF ok, of j a] u h by (auto simp: s')
  next
    case (3 w) then show ?case using new(1) wo up_okD(3) [OF ok] by (auto simp: s')
  next
    case (4 m) then show ?case using new(2) mc up_okD(4) [OF ok] by (auto simp: s')
  next
    case (5 r) then show ?case using new(3) [of r] up_okD(5) [OF ok, of r] by (auto simp: s')
  next
    case (6 x) then show ?case using mc up_okD(6) [OF ok, of x] u by (auto simp: s')
  next
    case (7 j b n q) then show ?case using up_okD(7) [OF ok, of j b n q] fresh u p by (auto simp: s' acks [unfolded s'] split: if_splits)
  next
    case (8 j c n q) then show ?case using up_okD(8) [OF ok, of j c n q] by (auto simp: s' split: if_splits)
  qed
qed

lemma SendReliable_ok:
  assumes "up_ok s"
  shows "up_ok (begin_call (ReliableCall b) (SendReliable b (ur_up s)) s)"
  by (rule up_ok_call [OF assms refl, where u = "snd (SendReliable b (ur_up s))" and c = "ReliableCall b" and
        p = "case fst (SendReliable b (ur_up s)) of Inl e \<Rightarrow> Returned (Some e) | Inr h \<Rightarrow> WaitReady (up_ready (ur_up s))"])
    (auto simp: SendReliable_def Let_def begin_call_def removeWaiter_def waiter_ok_def acked_since_def split: if_splits)

lemma SendMetrics_ok:
  assumes "up_ok s"
  shows "up_ok (begin_call (MetricCall b) (SendMetrics b (ur_up s)) s)"
  by (rule up_ok_call [OF assms refl, where u = "snd (SendMetrics b (ur_up s))" and c = "MetricCall b" and
        p = "case fst (SendMetrics b (ur_up s)) of Inl e \<Rightarrow> Returned (Some e) | Inr h \<Rightarrow> WaitReady (up_ready (ur_up s))"])
    (auto simp: SendMetrics_def Let_def begin_call_def metric_chan_def split: if_splits)

lemma waitReady_ok:
  assumes ok: "up_ok s" and call: "ur_calls s h = Some (c, n, p)" and "waitReady w h p (ur_up s) = Some (p', u)"
  shows "up_ok (s\<lparr>ur_up := u, ur_calls := (ur_calls s)(h \<mapsto> (c, n, p'))\<rparr>)" (is "up_ok ?s")
proof -
  have u: "u = (ur_up s)\<lparr>up_chan := up_chan u\<rparr>" "\<And>j a. up_chan u j = Some a \<Longrightarrow> up_chan (ur_up s) j = Some a"
    and nil: "p' = Returned None \<Longrightarrow> up_chan (ur_up s) h = Some None"
    using assms(3) by (auto simp: waitReady_def split: phase.splits wake.splits option.splits if_splits)
  have same: "up_next u = up_next (ur_up s)" "up_reportWait u = up_reportWait (ur_up s)" "up_metricOut u = up_metricOut (ur_up s)"
    "up_reportOut u = up_reportOut (ur_up s)" "up_metricAcks u = up_metricAcks (ur_up s)" by (subst u(1), simp)+
  have keep: "acked_since ?s = acked_since s" by (simp add: fun_eq_iff acked_since_def)
  have mc: "metric_chan s j \<Longrightarrow> metric_chan ?s j" for j using call by (auto simp: metric_chan_def)
  have wo: "waiter_ok s w \<Longrightarrow> waiter_ok ?s w" for w using call unfolding waiter_ok_def keep by auto
  show ?thesis
  proof (rule up_okI, goal_cases)
    case (1 j) then show ?case using up_okD(1) [OF ok, of j] call same by (auto split: if_splits)
  next
    case (2 j a) then show ?case using up_okD(2) [OF ok u(2)] same by auto
  next
    case (3 w) then show ?case using wo up_okD(3) [OF ok] same by auto
  next
    case (4 m) then show ?case using mc up_okD(4) [OF ok] same by auto
  next
    case (5 r) then show ?case using up_okD(5) [OF ok] same by auto
  next
    case (6 x) then show ?case using mc up_okD(6) [OF ok, of x] same by auto
  next
    case (7 j b m q)
    show ?case
    proof (cases "j = h")
      case True
      with 7 nil u(2) have "up_chan (ur_up s) h = Some None" by auto
      with 7 True call up_okD(7) [OF ok, of h b m p] show ?thesis by (simp add: acked_since_def)
    next
      case False
      with 7 have "ur_calls s j = Some (ReliableCall b, m, q)" "up_chan (ur_up s) j = Some None \<or> q = Returned None" using u(2) by auto
      from up_okD(7) [OF ok this] show ?thesis by (simp add: keep)
    qed
  next
    case (8 j c m q) then show ?case using up_okD(8) [OF ok, of j c m q] up_okD(8) [OF ok call] by (auto split: if_splits)
  qed
qed

lemma controlRecv_ok: "up_ok s \<Longrightarrow> controlRecv en f (ur_up s) = Some (r, e, u) \<Longrightarrow> up_ok (s\<lparr>ur_up := u\<rparr>)"
  by (rule up_ok_answers) (auto simp: controlRecv_def only_answers_def split: option.splits control_frame.splits if_splits)

lemma session_open_ok: "up_ok s \<Longrightarrow> up_ok (s\<lparr>ur_up := session_open (ur_up s)\<rparr>)"
  using up_okD(6) by (intro up_ok_change) (auto simp: session_open_def)

lemma up_step_ok: "up_step s s' \<Longrightarrow> up_ok s \<Longrightarrow> up_ok s'"
  by (induction rule: up_step.cases)
    (auto simp: SendMetrics_ok SendReliable_ok intro: waitReady_ok session_open_ok controlRecv_ok metricsSendLoop_ok metricsRecvLoop_ok
      reportsSendLoop_ok reportsRecvLoop_ok failAllWaiters_ok)

lemma up_reach_ok: "up_reach s \<Longrightarrow> up_ok s"
  by (induction rule: up_reach.induct) (auto intro: up_ok_boot up_step_ok)

text \<open>
  C16: a call of \<^verbatim>\<open>SendReliable\<close> that returns without an error was confirmed. Whatever the
  interleaving of callers, stream loops, timeouts, broken sessions and reconnects: for each
  of its items the gateway sent an acknowledgement of the same kind naming the item, after
  the call began.
\<close>

theorem reliable_success_was_acked:
  assumes "up_reach s" "ur_calls s h = Some (ReliableCall b, n, Returned None)"
  shows "\<forall>it \<in> set (rb_Items b). (reportKindOf (rb_Kind b), it_ID it) \<in> set (drop n (ur_acks s))"
  using up_okD(7) [OF up_reach_ok [OF assms(1)] assms(2)] by (auto simp: acked_since_def)

section \<open>A waiter left behind blocks the tear-down\<close>

definition stuck :: "'m up_run \<Rightarrow> nat \<Rightarrow> bool" where
  "stuck s h \<longleftrightarrow> (\<exists>c n a. ur_calls s h = Some (c, n, Returned a)) \<and> up_chan (ur_up s) h \<noteq> None \<and>
     h \<in> wt_ch ` set (up_reportWait (ur_up s)) \<and> h < up_next (ur_up s)"

lemma chan_send_full: "chan_send j a u = Some u' \<Longrightarrow> up_chan u h \<noteq> None \<Longrightarrow> up_chan u' h \<noteq> None"
  by (auto simp: chan_send_def split: if_splits)

lemma chan_send_keeps [simp]:
  "chan_send h a u = Some u' \<Longrightarrow> up_reportWait u' = up_reportWait u \<and> up_next u' = up_next u"
  by (auto dest!: chan_sendD)

lemma ack_metrics_full: "ack_metrics n ks u = Some u' \<Longrightarrow> up_chan u h \<noteq> None \<Longrightarrow> up_chan u' h \<noteq> None"
  by (induction n ks u rule: ack_metrics.induct) (force dest: chan_send_full split: if_splits option.splits)+

lemma ack_waiters_full:
  "ack_waiters k acked ws u = Some (rest, u') \<Longrightarrow> up_chan u h \<noteq> None \<Longrightarrow>
   up_chan u' h \<noteq> None \<and> (h \<in> wt_ch ` set ws \<longrightarrow> h \<in> wt_ch ` set rest)"
proof (induction k acked ws u arbitrary: rest rule: ack_waiters.induct)
  case (2 k acked w ws u)
  let ?w = "w\<lparr>wt_ids := filter (\<lambda>i. i \<notin> set acked) (wt_ids w)\<rparr>"
  consider (other) "wt_kind w \<noteq> k" | (complete) "wt_kind w = k" "wt_ids ?w = []" | (partial) "wt_kind w = k" "wt_ids ?w \<noteq> []"
    by blast
  then show ?case
  proof cases
    case other
    with "2.prems" obtain r where r: "ack_waiters k acked ws u = Some (r, u')" "rest = w # r" by auto
    from "2.IH"(1) [OF other r(1) "2.prems"(2)] r(2) show ?thesis by auto
  next
    case complete
    with "2.prems" obtain u1 where u1: "chan_send (wt_ch w) None u = Some u1" "ack_waiters k acked ws u1 = Some (rest, u')"
      by (auto simp: Let_def split: option.splits)
    have "wt_ch w \<noteq> h" using u1(1) "2.prems"(2) by (auto simp: chan_send_def)
    with "2.IH"(2) [OF _ refl complete(2), of u1 rest] u1 complete(1) chan_send_full [OF u1(1) "2.prems"(2)] show ?thesis by auto
  next
    case partial
    with "2.prems" obtain r where r: "ack_waiters k acked ws u = Some (r, u')" "rest = ?w # r" by (auto simp: Let_def)
    from "2.IH"(3) [OF _ refl _ r(1) "2.prems"(2)] partial r(2) show ?thesis by auto
  qed
qed simp

lemma fail_metrics_full: "up_chan u h \<noteq> None \<Longrightarrow> up_chan (fail_metrics e ks u) h \<noteq> None"
  by (induction e ks u rule: fail_metrics.induct) (auto simp: chan_offer_def)

lemma fail_reports_blocks: "up_chan u h \<noteq> None \<Longrightarrow> h \<in> wt_ch ` set ws \<Longrightarrow> fail_reports e ws u = None"
proof (induction e ws u rule: fail_reports.induct)
  case (2 e w ws u)
  then show ?case by (cases "wt_ch w = h") (auto simp: chan_send_def split: option.splits)
qed simp

lemma stuck_blocks:
  assumes "stuck s h"
  shows "failAllWaiters e (ur_up s) = None"
proof -
  let ?u = "fail_metrics e (up_metricAcks (ur_up s)) (ur_up s)"
  have "up_reportWait ?u = up_reportWait (ur_up s)"
    using fail_metrics_change [of "ur_up s" e "up_metricAcks (ur_up s)"] by (simp add: only_answers_def)
  moreover have "up_chan ?u h \<noteq> None" using assms fail_metrics_full [of "ur_up s" h] by (simp add: stuck_def)
  ultimately have "fail_reports e (up_reportWait ?u) ?u = None"
    using assms by (intro fail_reports_blocks [of _ h]) (auto simp: stuck_def)
  then show ?thesis by (simp add: failAllWaiters_def Let_def)
qed

lemma stuck_step: "up_step s s' \<Longrightarrow> stuck s h \<Longrightarrow> stuck s' h"
proof (induction rule: up_step.cases)
  case (up_metrics s b)
  then show ?case by (auto simp: stuck_def begin_call_def SendMetrics_def Let_def)
next
  case (up_reliable s b)
  then show ?case by (auto simp: stuck_def begin_call_def SendReliable_def Let_def removeWaiter_def)
next
  case (up_wait s j c n p w p' u)
  then show ?case
    by (cases "j = h") (auto simp: stuck_def waitReady_def split: phase.splits wake.splits option.splits if_splits)
next
  case (up_session s)
  then show ?case by (auto simp: stuck_def session_open_def)
next
  case (up_control en f s r e u)
  then show ?case by (auto simp: stuck_def controlRecv_def split: option.splits control_frame.splits if_splits)
next
  case (up_msend ok s b goes u)
  then show ?case
    by (auto simp: stuck_def metricsSendLoop_def Let_def dest: chan_send_full dest!: chan_sendD split: list.splits if_splits)
next
  case (up_mrecv n s u)
  then show ?case
    using ack_metrics_full [of n _ "ur_up s" u h] ack_metrics_change [of n _ "ur_up s" u]
    by (auto simp: stuck_def metricsRecvLoop_def only_answers_def)
next
  case (up_rsend ok s b goes u)
  then show ?case
    by (auto simp: stuck_def reportsSendLoop_def Let_def dest!: chan_sendD split: list.splits if_splits)
next
  case (up_rrecv k ids s u)
  then obtain rest u1 where a: "ack_waiters k ids (up_reportWait (ur_up s)) (ur_up s) = Some (rest, u1)" "u = u1\<lparr>up_reportWait := rest\<rparr>"
    by (auto simp: reportsRecvLoop_def)
  with up_rrecv ack_waiters_full [OF a(1), of h] ack_waiters_change [OF a(1)] show ?case
    by (simp add: stuck_def only_answers_def)
next
  case (up_fail e s u)
  then show ?case using stuck_blocks by force
qed

lemma stuck_forever: "up_step\<^sup>*\<^sup>* s s' \<Longrightarrow> stuck s h \<Longrightarrow> stuck s' h"
  by (induction rule: rtranclp_induct) (auto intro: stuck_step)

section \<open>Two runs\<close>

definition sample_batch :: ReliableBatch where
  "sample_batch = \<lparr>rb_AssetID = ''h'', rb_Kind = QueueResults, rb_SentAt = 0,
     rb_Items = [\<lparr>it_ID = ''c1'', it_Kind = QueueResults, it_CreatedAt = 0, it_Payload = []\<rparr>]\<rparr>"

text \<open>After the handshake: one call, which waits for its answer.\<close>

definition waiting_run :: "nat up_run" where
  "waiting_run = \<lparr>ur_up = \<lparr>up_metricOut = [], up_reportOut = [\<lparr>rs_kind = KindResults, rs_batch = sample_batch, rs_ack = 2\<rparr>],
       up_metricAcks = [], up_reportWait = [\<lparr>wt_kind = KindResults, wt_ids = [''c1''], wt_ch = 2\<rparr>], up_ready = 1, up_closed = [1],
       up_chan = (\<lambda>_. None), up_next = 3\<rparr>,
     ur_calls = [2 \<mapsto> (ReliableCall sample_batch, 0, WaitAck)], ur_acks = []\<rparr>"

lemma waiting_run_reach: "up_reach waiting_run"
proof -
  let ?s1 = "up_boot\<lparr>ur_up := session_open (ur_up up_boot)\<rparr> :: nat up_run"
  have 1: "up_reach ?s1" using up_more [OF up_start up_session] .
  let ?u2 = "(ur_up ?s1)\<lparr>up_closed := [1]\<rparr>"
  have "controlRecv True (Some FWelcome) (ur_up ?s1) = Some (HandledNothing, None, ?u2)"
    by (simp add: controlRecv_def up_boot_def NewGRPC_def session_open_def)
  from up_more [OF 1 up_control [OF this]] have 2: "up_reach (?s1\<lparr>ur_up := ?u2\<rparr>)" .
  let ?s3 = "begin_call (ReliableCall sample_batch) (SendReliable sample_batch ?u2) (?s1\<lparr>ur_up := ?u2\<rparr>)"
  have 3: "up_reach ?s3" using up_more [OF 2 up_reliable [of "?s1\<lparr>ur_up := ?u2\<rparr>" sample_batch]] by simp
  have c: "ur_calls ?s3 2 = Some (ReliableCall sample_batch, 0, WaitReady 1)"
    by (simp add: begin_call_def SendReliable_def Let_def up_boot_def NewGRPC_def session_open_def out_cap_def)
  have "waitReady WakeChan 2 (WaitReady 1) (ur_up ?s3) = Some (WaitAck, ur_up ?s3)"
    by (simp add: waitReady_def begin_call_def SendReliable_def Let_def up_boot_def NewGRPC_def session_open_def out_cap_def)
  from up_more [OF 3 up_wait [OF c this]] show ?thesis
    by (simp add: waiting_run_def begin_call_def SendReliable_def Let_def up_boot_def NewGRPC_def session_open_def out_cap_def
        sample_batch_def reportKindOf_def numeral_2_eq_2 numeral_3_eq_3)
qed

theorem reliable_success_was_acked_witness:
  "\<exists>s. up_reach (s :: nat up_run) \<and> ur_calls s 2 = Some (ReliableCall sample_batch, 0, Returned None) \<and> (KindResults, ''c1'') \<in> set (ur_acks s)"
proof -
  let ?u = "ur_up waiting_run"
  let ?u1 = "?u\<lparr>up_reportOut := []\<rparr>"
  have "reportsSendLoop True ?u = Some (sample_batch, True, ?u1)" by (simp add: reportsSendLoop_def waiting_run_def)
  from up_more [OF waiting_run_reach up_rsend [OF this]] have 1: "up_reach (waiting_run\<lparr>ur_up := ?u1\<rparr>)" (is "up_reach ?s1") .
  let ?u2 = "?u1\<lparr>up_reportWait := [], up_chan := [2 \<mapsto> None]\<rparr>"
  have "reportsRecvLoop KindResults [''c1''] (ur_up ?s1) = Some ?u2"
    by (simp add: reportsRecvLoop_def waiting_run_def chan_send_def Let_def)
  from up_more [OF 1 up_rrecv [OF this]]
  have 2: "up_reach (?s1\<lparr>ur_up := ?u2, ur_acks := ur_acks ?s1 @ map (Pair KindResults) [''c1'']\<rparr>)" (is "up_reach ?s2") .
  have c: "ur_calls ?s2 2 = Some (ReliableCall sample_batch, 0, WaitAck)" by (simp add: waiting_run_def)
  have w: "waitReady WakeChan 2 WaitAck (ur_up ?s2) = Some (Returned None, ?u2\<lparr>up_chan := Map.empty\<rparr>)" by (simp add: waitReady_def)
  let ?s3 = "?s2\<lparr>ur_up := ?u2\<lparr>up_chan := Map.empty\<rparr>, ur_calls := (ur_calls ?s2)(2 \<mapsto> (ReliableCall sample_batch, 0, Returned None))\<rparr>"
  have 3: "up_reach ?s3" using up_more [OF 2 up_wait [OF c w]] .
  have c3: "ur_calls ?s3 2 = Some (ReliableCall sample_batch, 0, Returned None)" by simp
  from reliable_success_was_acked [OF 3 c3] have "(KindResults, ''c1'') \<in> set (ur_acks ?s3)"
    by (simp add: sample_batch_def reportKindOf_def)
  with 3 c3 show ?thesis by blast
qed

text \<open>
  A call that gives up waiting stays in the list of waiters. If its report then fails to be
  sent, the error fills the call's answer channel, which nobody reads any more, and tearing
  the session down blocks on the same channel with the waiter lock held: in every state that
  can follow, the tear-down cannot finish, so the uplink never reconnects.
\<close>

theorem teardown_deadlock:
  "\<exists>s :: nat up_run. up_reach s \<and> (\<exists>b n. ur_calls s 2 = Some (ReliableCall b, n, Returned (Some AckTimeout))) \<and>
     (\<forall>s'. up_step\<^sup>*\<^sup>* s s' \<longrightarrow> (\<forall>e. failAllWaiters e (ur_up s') = None))"
proof -
  let ?c = "[2 \<mapsto> (ReliableCall sample_batch, 0, Returned (Some AckTimeout))] :: nat \<rightharpoonup> nat call \<times> nat \<times> phase"
  have c: "ur_calls waiting_run 2 = Some (ReliableCall sample_batch, 0, WaitAck)" by (simp add: waiting_run_def)
  have "waitReady WakeTimer 2 WaitAck (ur_up waiting_run) = Some (Returned (Some AckTimeout), ur_up waiting_run)"
    by (simp add: waitReady_def)
  from up_more [OF waiting_run_reach up_wait [OF c this]] have 1: "up_reach (waiting_run\<lparr>ur_calls := ?c\<rparr>)"
    by (simp add: waiting_run_def)
  let ?u = "(ur_up waiting_run)\<lparr>up_reportOut := [], up_chan := [2 \<mapsto> Some StreamError]\<rparr>"
  have "reportsSendLoop False (ur_up (waiting_run\<lparr>ur_calls := ?c\<rparr>)) = Some (sample_batch, False, ?u)"
    by (simp add: reportsSendLoop_def waiting_run_def chan_send_def)
  from up_more [OF 1 up_rsend [OF this]] have 2: "up_reach (waiting_run\<lparr>ur_calls := ?c, ur_up := ?u\<rparr>)" (is "up_reach ?s")
    by (simp add: waiting_run_def)
  have "stuck ?s 2" by (simp add: stuck_def waiting_run_def)
  then have "\<forall>s'. up_step\<^sup>*\<^sup>* ?s s' \<longrightarrow> (\<forall>e. failAllWaiters e (ur_up s') = None)"
    using stuck_forever stuck_blocks by blast
  with 2 show ?thesis by (intro exI [of _ ?s]) (simp add: waiting_run_def)
qed

theorem teardown_deadlock_witness:
  "\<exists>s :: nat up_run. up_reach s \<and> failAllWaiters StreamError (ur_up s) = None"
proof -
  from teardown_deadlock obtain s :: "nat up_run" where
    "up_reach s" "\<forall>s'. up_step\<^sup>*\<^sup>* s s' \<longrightarrow> (\<forall>e. failAllWaiters e (ur_up s') = None)" by blast
  then show ?thesis by (intro exI [of _ s]) simp
qed

section \<open>Acknowledged metrics\<close>

lemma ack_metrics_mono: "ack_metrics n ks u = Some u' \<Longrightarrow> up_chan u h = Some a \<Longrightarrow> up_chan u' h = Some a"
proof (induction n ks u rule: ack_metrics.induct)
  case (2 n k j ks u)
  show ?case
  proof (cases "k \<le> n")
    case True
    obtain u1 where c: "chan_send j None u = Some u1" and
      r: "ack_metrics n ks (u1\<lparr>up_metricAcks := AList.delete k (up_metricAcks u1)\<rparr>) = Some u'"
      using "2.prems"(1) True by (auto split: option.splits)
    have "up_chan u1 h = Some a" using chan_sendD [OF c] "2.prems"(2) by auto
    with "2.IH"(1) [OF True c r] show ?thesis by simp
  next
    case False
    with 2 show ?thesis by simp
  qed
qed simp

lemma ack_metrics_answers:
  "ack_metrics n ks u = Some u' \<Longrightarrow> (k, h) \<in> set ks \<Longrightarrow> k \<le> n \<Longrightarrow> up_chan u' h = Some None"
proof (induction n ks u rule: ack_metrics.induct)
  case (2 n j i ks u)
  show ?case
  proof (cases "j \<le> n")
    case False
    with 2 show ?thesis by auto
  next
    case True
    obtain u1 where c: "chan_send i None u = Some u1" and
      r: "ack_metrics n ks (u1\<lparr>up_metricAcks := AList.delete j (up_metricAcks u1)\<rparr>) = Some u'"
      using "2.prems"(1) True by (auto split: option.splits)
    show ?thesis
    proof (cases "(k, h) = (j, i)")
      case True
      with ack_metrics_mono [OF r] chan_sendD [OF c] show ?thesis by simp
    next
      case False
      with "2.IH"(1) [OF True c r] "2.prems"(2,3) show ?thesis by auto
    qed
  qed
qed simp

text \<open>
  Acknowledgements of metrics are cumulative, but batches do not go out in the order of
  their sequence numbers: the replay of the fallback log sends old batches between new ones.
  A batch with a lower number sent after a newer one counts as stored with the
  acknowledgement of the newer one, before the gateway has confirmed it.
\<close>

theorem cumulative_ack_covers_replayed:
  assumes "up_metricOut u = [\<lparr>ms_batch = b1, ms_ack = h1\<rparr>, \<lparr>ms_batch = b2, ms_ack = h2\<rparr>]" "up_metricAcks u = []"
    and "b_Sequence b2 < b_Sequence b1" "h1 \<noteq> h2" "up_chan u h1 = None" "up_chan u h2 = None"
  shows "\<exists>u1 u2 u3. metricsSendLoop True u = Some (b1, True, u1) \<and> metricsSendLoop True u1 = Some (b2, True, u2) \<and>
    metricsRecvLoop (b_Sequence b1) u2 = Some u3 \<and> up_chan u3 h2 = Some None"
proof -
  let ?u1 = "u\<lparr>up_metricOut := [\<lparr>ms_batch = b2, ms_ack = h2\<rparr>], up_metricAcks := [(b_Sequence b1, h1)]\<rparr>"
  let ?u2 = "u\<lparr>up_metricOut := [], up_metricAcks := [(b_Sequence b1, h1), (b_Sequence b2, h2)]\<rparr>"
  have ne: "b_Sequence b1 \<noteq> b_Sequence b2" using assms(3) by auto
  have "metricsSendLoop True u = Some (b1, True, ?u1)" "metricsSendLoop True ?u1 = Some (b2, True, ?u2)"
    using assms(1,2) ne by (simp_all add: metricsSendLoop_def)
  moreover obtain u3 where u3: "metricsRecvLoop (b_Sequence b1) ?u2 = Some u3"
    using assms(3-6) less_imp_le [OF assms(3)] by (simp add: metricsRecvLoop_def chan_send_def)
  moreover have "up_chan u3 h2 = Some None"
    using ack_metrics_answers [of "b_Sequence b1" "up_metricAcks ?u2" ?u2 u3 "b_Sequence b2" h2] u3 assms(3)
    by (simp add: metricsRecvLoop_def)
  ultimately show ?thesis by blast
qed

text \<open>A second welcome in one session closes the gate twice.\<close>

lemma second_welcome_panics:
  "controlRecv en (Some FWelcome) u = Some (r, e, u') \<Longrightarrow> controlRecv en (Some FWelcome) u' = None"
  by (auto simp: controlRecv_def split: if_splits)

end
