(* ===== verification/Uplink_Session.thy ===== *)
theory Uplink_Session
  imports Uplink Connector
begin

text \<open>
  \<^verbatim>\<open>session\<close> and \<^verbatim>\<open>supervise\<close> of \<^verbatim>\<open>internal/uplink/grpc.go\<close>: how a session is set up, which goroutines run
  in it, how their errors reach the supervisor and how long it waits before the next one.
  The goroutines' steps are those of the theory of the uplink; here they are ordered by
  scripts: what happens during each session, how it ends, and what happens while the
  supervisor sleeps. The goroutines of a session are taken to be gone when the next one
  begins, which the supervisor only waits for by sleeping.
\<close>

section \<open>Setting a session up\<close>

datatype goroutine = ControlRecv | MetricsSend | MetricsRecv | ReportsSend | ReportsRecv

datatype setup_error = DialFailed | ControlOpenFailed | HelloFailed | MetricsOpenFailed | ReportsOpenFailed

text \<open>The greeting has fields the connector does not read.\<close>

record SentHello = AgentHello +
  h_BootId :: string
  h_ProtoMin :: nat
  h_ProtoMax :: nat

definition hello_frame :: "string \<Rightarrow> string \<Rightarrow> string \<Rightarrow> bytes \<Rightarrow> SentHello" where
  "hello_frame assetID agentVer catalogVer rnd =
     \<lparr>h_AssetId = assetID, h_AgentVersion = agentVer, h_CatalogVersion = catalogVer, h_BootId = bootID rnd, h_ProtoMin = 1, h_ProtoMax = 1\<rparr>"

text \<open>Which of the calls of the set-up succeed.\<close>

record session_io =
  io_client :: bool
  io_control :: bool
  io_hello :: bool
  io_metrics :: bool
  io_reports :: bool

text \<open>The goroutines started and, when the session ends in the set-up, why.\<close>

definition session_setup :: "session_io \<Rightarrow> goroutine list \<times> setup_error option" where
  "session_setup io =
     (if \<not> io_client io then ([], Some DialFailed)
      else if \<not> io_control io then ([], Some ControlOpenFailed)
      else if \<not> io_hello io then ([], Some HelloFailed)
      else let live = [ControlRecv] in
      if \<not> io_metrics io then (live, Some MetricsOpenFailed)
      else let live = live @ [MetricsSend, MetricsRecv] in
      if \<not> io_reports io then (live, Some ReportsOpenFailed)
      else (live @ [ReportsSend, ReportsRecv], None))"

section \<open>Events\<close>

datatype 'a received = Received 'a | StreamEOF | StreamBroken

text \<open>Calls of the reporter, and what the goroutines meet; \<open>OnFrame None\<close> is a failed receive.\<close>

datatype 'm session_event =
    CallMetrics "'m Batch" | CallReliable ReliableBatch | CallWakes nat wake
  | OnHeartbeat | OnFrame "control_frame option"
  | OnMetricsSend bool | OnMetricsRecv "64 word received"
  | OnReportsSend bool | OnReportsRecv "(ReportKind \<times> string list) received"

record 'm session =
  se_run :: "'m up_run"
  se_live :: "goroutine list"
  se_errCh :: "uplink_error list"

definition errCh_cap :: nat where
  "errCh_cap = 3"

text \<open>A goroutine reports its error and returns; with the channel full it blocks.\<close>

definition fail_with :: "goroutine \<Rightarrow> uplink_error \<Rightarrow> 'm session \<Rightarrow> 'm session option" where
  "fail_with g e s =
     (if length (se_errCh s) < errCh_cap
      then Some (s\<lparr>se_errCh := se_errCh s @ [e], se_live := remove1 g (se_live s)\<rparr>) else None)"

definition set_up :: "'m GRPCUplink \<Rightarrow> 'm session \<Rightarrow> 'm session" where
  "set_up u s = s\<lparr>se_run := (se_run s)\<lparr>ur_up := u\<rparr>\<rparr>"

text \<open>
  One event. \<open>None\<close>: the goroutine does not run, has nothing to do, blocks or panics. The
  receive loops return silently at the end of their stream.
\<close>

definition session_event :: "bool \<Rightarrow> 'm session_event \<Rightarrow> 'm session \<Rightarrow> 'm session option" where
  "session_event enabled ev s =
     (let r = se_run s; u = ur_up r; live = (\<lambda>g. g \<in> set (se_live s)) in
      case ev of
        CallMetrics b \<Rightarrow> Some (s\<lparr>se_run := begin_call (MetricCall b) (SendMetrics b u) r\<rparr>)
      | CallReliable b \<Rightarrow> Some (s\<lparr>se_run := begin_call (ReliableCall b) (SendReliable b u) r\<rparr>)
      | CallWakes h w \<Rightarrow>
          (case ur_calls r h of None \<Rightarrow> None | Some (c, n, p) \<Rightarrow>
           map_option (\<lambda>(p', u'). s\<lparr>se_run := r\<lparr>ur_up := u', ur_calls := (ur_calls r)(h \<mapsto> (c, n, p'))\<rparr>\<rparr>) (waitReady w h p u))
      | OnHeartbeat \<Rightarrow> if live ControlRecv then Some s else None
      | OnFrame f \<Rightarrow>
          if \<not> live ControlRecv then None
          else (case controlRecv enabled f u of None \<Rightarrow> None | Some (_, e, u') \<Rightarrow>
                (case e of None \<Rightarrow> Some (set_up u' s) | Some e \<Rightarrow> fail_with ControlRecv e (set_up u' s)))
      | OnMetricsSend ok \<Rightarrow>
          if \<not> live MetricsSend then None
          else (case metricsSendLoop ok u of None \<Rightarrow> None | Some (_, goes, u') \<Rightarrow>
                if goes then Some (set_up u' s) else fail_with MetricsSend StreamError (set_up u' s))
      | OnMetricsRecv x \<Rightarrow>
          if \<not> live MetricsRecv then None
          else (case x of
                  Received n \<Rightarrow> map_option (\<lambda>u'. set_up u' s) (metricsRecvLoop n u)
                | StreamEOF \<Rightarrow> Some (s\<lparr>se_live := remove1 MetricsRecv (se_live s)\<rparr>)
                | StreamBroken \<Rightarrow> fail_with MetricsRecv StreamError s)
      | OnReportsSend ok \<Rightarrow>
          if \<not> live ReportsSend then None
          else (case reportsSendLoop ok u of None \<Rightarrow> None | Some (_, goes, u') \<Rightarrow>
                if goes then Some (set_up u' s) else fail_with ReportsSend StreamError (set_up u' s))
      | OnReportsRecv x \<Rightarrow>
          if \<not> live ReportsRecv then None
          else (case x of
                  Received (k, ids) \<Rightarrow>
                    map_option (\<lambda>u'. s\<lparr>se_run := r\<lparr>ur_up := u', ur_acks := ur_acks r @ map (Pair k) ids\<rparr>\<rparr>) (reportsRecvLoop k ids u)
                | StreamEOF \<Rightarrow> Some (s\<lparr>se_live := remove1 ReportsRecv (se_live s)\<rparr>)
                | StreamBroken \<Rightarrow> fail_with ReportsRecv StreamError s))"

fun session_events :: "bool \<Rightarrow> 'm session_event list \<Rightarrow> 'm session \<Rightarrow> 'm session option" where
  "session_events enabled [] s = Some s"
| "session_events enabled (ev # evs) s =
     (case session_event enabled ev s of None \<Rightarrow> None | Some s' \<Rightarrow> session_events enabled evs s')"

section \<open>A session and its supervisor\<close>

datatype session_end = EndCtx | EndErr

text \<open>
  The final \<^verbatim>\<open>select\<close>: only an error that arrived from a goroutine fails the waiting calls. A
  session that ends in its set-up returns before it.
\<close>

definition session_finish :: "session_end \<Rightarrow> 'm session \<Rightarrow> 'm up_run option" where
  "session_finish how s =
     (case how of
        EndCtx \<Rightarrow> Some (se_run s)
      | EndErr \<Rightarrow>
          (case se_errCh s of
             [] \<Rightarrow> None
           | e # _ \<Rightarrow> map_option (\<lambda>u. (se_run s)\<lparr>ur_up := u\<rparr>) (failAllWaiters e (ur_up (se_run s)))))"

text \<open>\<open>sc_ctx\<close>: the context has ended when the session returns; \<open>sc_asleep\<close>: it ends in the sleep that follows.\<close>

record 'm session_script =
  sc_io :: session_io
  sc_events :: "'m session_event list"
  sc_end :: session_end
  sc_ctx :: bool
  sc_asleep :: bool
  sc_idle :: "'m session_event list"

definition run_session :: "bool \<Rightarrow> 'm session_script \<Rightarrow> 'm up_run \<Rightarrow> 'm up_run option" where
  "run_session enabled sc r =
     (let (live, err) = session_setup (sc_io sc) in
      case session_events enabled (sc_events sc)
             \<lparr>se_run = r\<lparr>ur_up := session_open (ur_up r)\<rparr>, se_live = live, se_errCh = []\<rparr> of
        None \<Rightarrow> None
      | Some s \<Rightarrow> (case err of Some _ \<Rightarrow> Some (se_run s) | None \<Rightarrow> session_finish (sc_end sc) s))"

text \<open>
  The supervisor over its sessions: the delays it sleeps and the state it leaves. It stops
  when its context has ended. While it sleeps no goroutine of a session runs.
\<close>

fun supervise :: "bool \<Rightarrow> 'm session_script list \<Rightarrow> int \<Rightarrow> 'm up_run \<Rightarrow> (int list \<times> 'm up_run) option" where
  "supervise enabled [] b r = Some ([], r)"
| "supervise enabled (sc # scs) b r =
     (case run_session enabled sc r of
        None \<Rightarrow> None
      | Some r \<Rightarrow>
          if sc_ctx sc \<or> snd (session_setup (sc_io sc)) = None \<and> sc_end sc = EndCtx then Some ([], r)
          else (case session_events enabled (sc_idle sc) \<lparr>se_run = r, se_live = [], se_errCh = []\<rparr> of
                  None \<Rightarrow> None
                | Some s \<Rightarrow>
                    if sc_asleep sc then Some ([b], se_run s)
                    else map_option (\<lambda>(ds, r). (b # ds, r)) (supervise enabled scs (supervise_backoff b) (se_run s))))"

section \<open>Scripts are runs of the step relation\<close>

lemma fail_with_run: "fail_with g e s = Some s' \<Longrightarrow> se_run s' = se_run s"
  by (auto simp: fail_with_def split: if_splits)

lemma set_up_run [simp]: "se_run (set_up u s) = (se_run s)\<lparr>ur_up := u\<rparr>"
  by (simp add: set_up_def)

lemma session_event_step:
  assumes "session_event en ev s = Some s'"
  shows "se_run s' = se_run s \<or> up_step (se_run s) (se_run s')"
  using assms
  by (cases ev)
    (auto simp: session_event_def Let_def split: option.splits prod.splits if_splits received.splits dest!: fail_with_run
      intro: up_metrics up_reliable up_wait up_control up_msend up_mrecv up_rsend up_rrecv)

lemma session_events_reach: "session_events en evs s = Some s' \<Longrightarrow> up_reach (se_run s) \<Longrightarrow> up_reach (se_run s')"
proof (induction en evs s rule: session_events.induct)
  case (2 en ev evs s)
  then obtain s1 where s1: "session_event en ev s = Some s1" "session_events en evs s1 = Some s'" by (auto split: option.splits)
  have "up_reach (se_run s1)" using session_event_step [OF s1(1)] "2.prems"(2) by (auto intro: up_more)
  with "2.IH" [OF s1] show ?case .
qed simp

lemma run_session_reach:
  assumes "run_session en sc r = Some r'" "up_reach r"
  shows "up_reach r'"
proof -
  let ?s = "\<lparr>se_run = r\<lparr>ur_up := session_open (ur_up r)\<rparr>, se_live = fst (session_setup (sc_io sc)), se_errCh = []\<rparr>"
  obtain s where s: "session_events en (sc_events sc) ?s = Some s"
    and r': "r' = se_run s \<or> session_finish (sc_end sc) s = Some r'"
    using assms(1) by (auto simp: run_session_def case_prod_beta split: option.splits)
  have "up_reach (se_run s)"
    using up_more [OF assms(2) up_step.up_session] by (intro session_events_reach [OF s]) simp
  with r' show ?thesis
    by (auto simp: session_finish_def split: session_end.splits list.splits intro: up_more up_fail)
qed

section \<open>The delays\<close>

text \<open>The delays double from one second to 32 and stay there, whatever the sessions were like.\<close>

definition delay_at :: "nat \<Rightarrow> int" where
  "delay_at k = 2 ^ min k 5 * up_second"

lemma supervise_backoff_delay: "supervise_backoff (delay_at k) = delay_at (Suc k)"
proof -
  consider "k = 0" | "k = 1" | "k = 2" | "k = 3" | "k = 4" | "5 \<le> k" by linarith
  then show ?thesis by cases (simp_all add: supervise_backoff_def delay_at_def up_second_def)
qed

lemma supervise_delays:
  "supervise en scs (delay_at k) r = Some (ds, r') \<Longrightarrow>
   ds = map delay_at [k..<k + length ds] \<and> length ds \<le> length scs \<and> (up_reach r \<longrightarrow> up_reach r')"
proof (induction scs arbitrary: k r ds)
  case (Cons sc scs)
  obtain r1 where r1: "run_session en sc r = Some r1" using Cons.prems by (auto split: option.splits)
  note reach = run_session_reach [OF r1]
  show ?case
  proof (cases "sc_ctx sc \<or> snd (session_setup (sc_io sc)) = None \<and> sc_end sc = EndCtx")
    case True
    with Cons.prems r1 reach show ?thesis by auto
  next
    case False
    then obtain s where s: "session_events en (sc_idle sc) \<lparr>se_run = r1, se_live = [], se_errCh = []\<rparr> = Some s"
      using Cons.prems r1 by (auto split: option.splits)
    have idle: "up_reach r \<longrightarrow> up_reach (se_run s)" using session_events_reach [OF s] reach by simp
    show ?thesis
    proof (cases "sc_asleep sc")
      case True
      with Cons.prems r1 False s idle show ?thesis by auto
    next
      case awake: False
      then obtain ds' where ds': "supervise en scs (delay_at (Suc k)) (se_run s) = Some (ds', r')" "ds = delay_at k # ds'"
        using Cons.prems r1 False s by (auto simp: supervise_backoff_delay)
      have "[k..<k + length ds] = k # [Suc k..<Suc k + length ds']"
        using ds'(2) by (simp add: upt_conv_Cons del: upt_Suc)
      with Cons.IH [OF ds'(1)] idle ds'(2) show ?thesis by (simp del: upt_Suc)
    qed
  qed
qed simp

section \<open>The gate\<close>

text \<open>A session's gate is new: only a welcome of this session opens it.\<close>

definition gate_ok :: "'m GRPCUplink \<Rightarrow> bool" where
  "gate_ok u \<longleftrightarrow> up_ready u < up_next u \<and> (\<forall>g \<in> set (up_closed u). g < up_next u)"

definition same_gate :: "'m GRPCUplink \<Rightarrow> 'm GRPCUplink \<Rightarrow> bool" where
  "same_gate u u' \<longleftrightarrow> up_ready u' = up_ready u \<and> up_closed u' = up_closed u \<and> up_next u \<le> up_next u'"

lemma same_gate_refl [simp]: "same_gate u u"
  by (simp add: same_gate_def)

lemma same_gate_trans: "same_gate u v \<Longrightarrow> same_gate v w \<Longrightarrow> same_gate u w"
  by (simp add: same_gate_def)

lemma gate_ok_same: "same_gate u u' \<Longrightarrow> gate_ok u \<Longrightarrow> gate_ok u'"
  by (fastforce simp: same_gate_def gate_ok_def)

lemma chan_send_gate: "chan_send h a u = Some u' \<Longrightarrow> same_gate u u'"
  by (auto simp: same_gate_def dest!: chan_sendD)

lemma SendMetrics_gate: "same_gate u (snd (SendMetrics b u))"
  by (simp add: SendMetrics_def Let_def same_gate_def)

lemma SendReliable_gate: "same_gate u (snd (SendReliable b u))"
  by (simp add: SendReliable_def Let_def removeWaiter_def same_gate_def)

lemma waitReady_gate: "waitReady w h p u = Some (p', u') \<Longrightarrow> same_gate u u'"
  by (auto simp: waitReady_def same_gate_def split: phase.splits wake.splits option.splits if_splits)

lemma metricsSendLoop_gate: "metricsSendLoop ok u = Some (b, goes, u') \<Longrightarrow> same_gate u u'"
  by (auto simp: metricsSendLoop_def same_gate_def Let_def dest!: chan_sendD split: list.splits if_splits)

lemma reportsSendLoop_gate: "reportsSendLoop ok u = Some (b, goes, u') \<Longrightarrow> same_gate u u'"
  by (auto simp: reportsSendLoop_def same_gate_def Let_def dest!: chan_sendD split: list.splits if_splits)

lemma ack_metrics_gate: "ack_metrics n ks u = Some u' \<Longrightarrow> same_gate u u'"
proof (induction n ks u rule: ack_metrics.induct)
  case (2 n k h ks u)
  show ?case
  proof (cases "k \<le> n")
    case True
    then obtain u1 where u1: "chan_send h None u = Some u1"
      "ack_metrics n ks (u1\<lparr>up_metricAcks := AList.delete k (up_metricAcks u1)\<rparr>) = Some u'"
      using "2.prems" by (auto split: option.splits)
    from chan_send_gate [OF u1(1)] "2.IH"(1) [OF True u1] show ?thesis by (simp add: same_gate_def)
  next
    case False
    with 2 show ?thesis by simp
  qed
qed simp

lemma ack_waiters_gate: "ack_waiters k acked ws u = Some (rest, u') \<Longrightarrow> same_gate u u'"
proof (induction ws arbitrary: u rest)
  case (Cons w ws)
  then show ?case by (force simp: Let_def split: if_splits option.splits dest!: chan_send_gate intro: same_gate_trans)
qed simp

lemma reportsRecvLoop_gate: "reportsRecvLoop k acked u = Some u' \<Longrightarrow> same_gate u u'"
  using ack_waiters_gate by (force simp: reportsRecvLoop_def same_gate_def)

lemma session_event_gate:
  assumes "session_event en ev s = Some s'" "ev \<noteq> OnFrame (Some FWelcome)"
  shows "same_gate (ur_up (se_run s)) (ur_up (se_run s'))"
proof (cases ev)
  case (OnFrame f)
  with assms show ?thesis
    by (auto simp: session_event_def Let_def controlRecv_def split: option.splits if_splits control_frame.splits dest!: fail_with_run)
qed (use assms in \<open>auto simp: session_event_def Let_def begin_call_def metricsRecvLoop_def SendMetrics_gate SendReliable_gate
      split: option.splits prod.splits if_splits received.splits dest!: fail_with_run
      dest: waitReady_gate metricsSendLoop_gate ack_metrics_gate reportsSendLoop_gate reportsRecvLoop_gate\<close>)

lemma session_events_gate:
  "session_events en evs s = Some s' \<Longrightarrow> OnFrame (Some FWelcome) \<notin> set evs \<Longrightarrow> same_gate (ur_up (se_run s)) (ur_up (se_run s'))"
proof (induction en evs s rule: session_events.induct)
  case (2 en ev evs s)
  then obtain s1 where s1: "session_event en ev s = Some s1" "session_events en evs s1 = Some s'" by (auto split: option.splits)
  show ?case
    by (rule same_gate_trans [OF session_event_gate [OF s1(1)] "2.IH" [OF s1]]) (use "2.prems"(2) in auto)
qed simp

lemma fail_metrics_gate: "same_gate u (fail_metrics e ks u)"
proof (induction e ks u rule: fail_metrics.induct)
  case (2 e k h ks u)
  then show ?case by (simp add: same_gate_def chan_offer_def split: if_splits)
qed simp

lemma fail_reports_gate: "fail_reports e ws u = Some u' \<Longrightarrow> same_gate u u'"
  by (induction e ws u rule: fail_reports.induct)
    (auto split: option.splits dest!: chan_send_gate intro: same_gate_trans)

lemma failAllWaiters_gate:
  assumes "failAllWaiters e u = Some u'"
  shows "same_gate u u'"
proof -
  obtain u1 where "fail_reports e (up_reportWait (fail_metrics e (up_metricAcks u) u)) (fail_metrics e (up_metricAcks u) u) = Some u1"
    and u': "u' = u1\<lparr>up_reportWait := []\<rparr>"
    using assms by (auto simp: failAllWaiters_def Let_def)
  from same_gate_trans [OF fail_metrics_gate fail_reports_gate [OF this(1)]] show ?thesis by (simp add: u' same_gate_def)
qed

lemma up_step_gate: "up_step r r' \<Longrightarrow> gate_ok (ur_up r) \<Longrightarrow> gate_ok (ur_up r')"
proof (induction rule: up_step.cases)
  case (up_session s)
  then show ?case by (auto simp: gate_ok_def session_open_def)
next
  case (up_control en f s r e u)
  then show ?case by (auto simp: gate_ok_def controlRecv_def split: option.splits control_frame.splits if_splits)
qed (auto simp: begin_call_def metricsRecvLoop_def
    intro: gate_ok_same [OF SendMetrics_gate] gate_ok_same [OF SendReliable_gate] gate_ok_same [OF waitReady_gate]
      gate_ok_same [OF metricsSendLoop_gate] gate_ok_same [OF reportsSendLoop_gate] gate_ok_same [OF ack_metrics_gate]
      gate_ok_same [OF reportsRecvLoop_gate] gate_ok_same [OF failAllWaiters_gate])

lemma gate_ok_boot: "gate_ok (ur_up up_boot)"
  by (simp add: up_boot_def NewGRPC_def gate_ok_def)

lemma up_reach_gate: "up_reach r \<Longrightarrow> gate_ok (ur_up r)"
  by (induction rule: up_reach.induct) (auto intro: gate_ok_boot up_step_gate)

text \<open>Calls from number \<open>h\<close> on have not got past the gate, which is closed.\<close>

definition held :: "nat \<Rightarrow> 'm up_run \<Rightarrow> bool" where
  "held h r \<longleftrightarrow> up_ready (ur_up r) \<notin> set (up_closed (ur_up r)) \<and>
     (\<forall>j c n p. h \<le> j \<and> ur_calls r j = Some (c, n, p) \<longrightarrow> p = WaitReady (up_ready (ur_up r)) \<or> (\<exists>e. p = Returned (Some e)))"

lemma held_same: "held h r \<Longrightarrow> same_gate (ur_up r) (ur_up r') \<Longrightarrow> ur_calls r' = ur_calls r \<Longrightarrow> held h r'"
  by (simp add: held_def same_gate_def)

lemma held_begin:
  assumes "held h r" "same_gate (ur_up r) (snd x)"
  shows "held h (begin_call c x r)"
  using assms by (auto simp: held_def same_gate_def begin_call_def split: sum.splits)

lemma held_wait:
  assumes "held h r" "ur_calls r j = Some (c, n, p)" "waitReady w j p (ur_up r) = Some (p', u')"
  shows "held h (r\<lparr>ur_up := u', ur_calls := (ur_calls r)(j \<mapsto> (c, n, p'))\<rparr>)"
proof -
  have "p' = WaitReady (up_ready (ur_up r)) \<or> (\<exists>e. p' = Returned (Some e))" if "h \<le> j"
  proof -
    have "p = WaitReady (up_ready (ur_up r)) \<or> (\<exists>e. p = Returned (Some e))" "up_ready (ur_up r) \<notin> set (up_closed (ur_up r))"
      using assms(1,2) that by (auto simp: held_def)
    with assms(3) show ?thesis by (auto simp: waitReady_def split: wake.splits)
  qed
  with assms(1) waitReady_gate [OF assms(3)] show ?thesis by (auto simp: held_def same_gate_def)
qed

lemma session_event_calls:
  "session_event en ev s = Some s' \<Longrightarrow> (\<forall>b. ev \<noteq> CallMetrics b) \<Longrightarrow> (\<forall>b. ev \<noteq> CallReliable b) \<Longrightarrow> (\<forall>h w. ev \<noteq> CallWakes h w) \<Longrightarrow>
   ur_calls (se_run s') = ur_calls (se_run s)"
  by (cases ev) (auto simp: session_event_def Let_def split: option.splits prod.splits if_splits received.splits dest!: fail_with_run)

lemma session_event_held:
  assumes "session_event en ev s = Some s'" "ev \<noteq> OnFrame (Some FWelcome)" "held h (se_run s)"
  shows "held h (se_run s')"
proof -
  note gate = session_event_gate [OF assms(1,2)]
  show ?thesis
  proof (cases ev)
    case (CallMetrics b)
    with assms(1) have "se_run s' = begin_call (MetricCall b) (SendMetrics b (ur_up (se_run s))) (se_run s)"
      by (auto simp: session_event_def Let_def)
    then show ?thesis using held_begin [OF assms(3) SendMetrics_gate] by simp
  next
    case (CallReliable b)
    with assms(1) have "se_run s' = begin_call (ReliableCall b) (SendReliable b (ur_up (se_run s))) (se_run s)"
      by (auto simp: session_event_def Let_def)
    then show ?thesis using held_begin [OF assms(3) SendReliable_gate] by simp
  next
    case (CallWakes j w)
    with assms show ?thesis by (auto simp: session_event_def Let_def split: option.splits intro: held_wait)
  qed (auto intro!: held_same [OF assms(3) gate] session_event_calls [OF assms(1)])
qed

lemma session_events_held:
  "session_events en evs s = Some s' \<Longrightarrow> OnFrame (Some FWelcome) \<notin> set evs \<Longrightarrow> held h (se_run s) \<Longrightarrow> held h (se_run s')"
proof (induction en evs s rule: session_events.induct)
  case (2 en ev evs s)
  then obtain s1 where s1: "session_event en ev s = Some s1" "session_events en evs s1 = Some s'" by (auto split: option.splits)
  show ?case
    by (rule "2.IH" [OF s1]) (use "2.prems"(2) session_event_held [OF s1(1) _ "2.prems"(3)] in auto)
qed simp

section \<open>The tear-down\<close>

lemma fail_metrics_table:
  "up_metricAcks (fail_metrics e ks u) = filter (\<lambda>(k, _). k \<notin> fst ` set ks) (up_metricAcks u)"
proof (induction e ks u rule: fail_metrics.induct)
  case (2 e k h ks u)
  then show ?case by (auto simp: AList.delete_eq intro!: filter_cong)
qed (auto simp: filter_id_conv)

lemma failAllWaiters_clears:
  assumes "failAllWaiters e u = Some u'"
  shows "up_metricAcks u' = [] \<and> up_reportWait u' = []"
proof -
  let ?u = "fail_metrics e (up_metricAcks u) u"
  obtain u1 where u1: "fail_reports e (up_reportWait ?u) ?u = Some u1" and u': "u' = u1\<lparr>up_reportWait := []\<rparr>"
    using assms by (auto simp: failAllWaiters_def Let_def)
  have "up_metricAcks ?u = []" by (force simp: fail_metrics_table filter_empty_conv)
  with fail_reports_change [OF u1] u' show ?thesis by (auto simp: only_answers_def)
qed

lemma run_session_held:
  assumes "up_reach r" "run_session en sc r = Some r'" "OnFrame (Some FWelcome) \<notin> set (sc_events sc)"
    and "ur_calls r' h = Some (c, n, p)" "up_next (ur_up r) \<le> h"
  shows "(\<exists>g. p = WaitReady g) \<or> (\<exists>e. p = Returned (Some e))"
proof -
  let ?r = "r\<lparr>ur_up := session_open (ur_up r)\<rparr>"
  obtain s where s: "session_events en (sc_events sc) \<lparr>se_run = ?r, se_live = fst (session_setup (sc_io sc)), se_errCh = []\<rparr> = Some s"
    and calls: "ur_calls r' = ur_calls (se_run s)"
    using assms(2) by (auto simp: run_session_def case_prod_beta session_finish_def split: option.splits session_end.splits list.splits)
  have "up_next (ur_up r) \<notin> set (up_closed (ur_up r))" using up_reach_gate [OF assms(1)] by (auto simp: gate_ok_def)
  moreover have "ur_calls r j = None" if "up_next (ur_up r) \<le> j" for j
    using up_okD(1) [OF up_reach_ok [OF assms(1)], of j] that by (cases "ur_calls r j") auto
  ultimately have "held (up_next (ur_up r)) ?r" by (auto simp: held_def session_open_def)
  with session_events_held [OF s assms(3)] have "held (up_next (ur_up r)) (se_run s)" by simp
  moreover have "ur_calls (se_run s) h = Some (c, n, p)" using assms(4) calls by simp
  ultimately show ?thesis using assms(5) unfolding held_def by blast
qed

lemma run_session_clears:
  assumes "run_session en sc r = Some r'" "snd (session_setup (sc_io sc)) = None" "sc_end sc = EndErr"
  shows "up_metricAcks (ur_up r') = [] \<and> up_reportWait (ur_up r') = []"
  using assms by (auto simp: run_session_def case_prod_beta session_finish_def split: option.splits list.splits dest!: failAllWaiters_clears)


definition good_io :: session_io where
  "good_io = \<lparr>io_client = True, io_control = True, io_hello = True, io_metrics = True, io_reports = True\<rparr>"

text \<open>A session that cannot be dialled, and one that is welcomed and loses its report stream.\<close>

definition dead_session :: "nat session_script" where
  "dead_session = \<lparr>sc_io = good_io\<lparr>io_client := False\<rparr>, sc_events = [], sc_end = EndErr, sc_ctx = False, sc_asleep = False, sc_idle = []\<rparr>"

definition lost_session :: "nat session_script" where
  "lost_session = \<lparr>sc_io = good_io,
     sc_events = [OnFrame (Some FWelcome), CallReliable sample_batch, OnReportsSend True, OnReportsRecv StreamBroken],
     sc_end = EndErr, sc_ctx = False, sc_asleep = False, sc_idle = []\<rparr>"

lemmas session_simps = supervise_backoff_def run_session_def session_setup_def session_event_def session_finish_def fail_with_def
  set_up_def errCh_cap_def good_io_def session_open_def controlRecv_def begin_call_def SendReliable_def out_cap_def
  reportsSendLoop_def failAllWaiters_def chan_send_def dead_session_def lost_session_def

definition redialled :: "nat up_run" where
  "redialled = \<lparr>ur_up = \<lparr>up_metricOut = [], up_reportOut = [], up_metricAcks = [], up_reportWait = [], up_ready = 2, up_closed = [],
     up_chan = (\<lambda>_. None), up_next = 3\<rparr>, ur_calls = Map.empty, ur_acks = []\<rparr>"

lemma redialled_run: "supervise True [dead_session, dead_session] up_second up_boot = Some ([up_second, 2 * up_second], redialled)"
  by (simp add: session_simps up_second_def up_boot_def NewGRPC_def redialled_def)



section \<open>The handshake with the connector\<close>

text \<open>How a frame of the connector arrives; a fence is not one of the frames the agent looks at.\<close>

definition frame_of :: "gw_frame \<Rightarrow> control_frame" where
  "frame_of f = (case f of WelcomeFrame _ _ _ _ \<Rightarrow> FWelcome | CommandFrame env \<Rightarrow> FCommand (env_CmdId env) | CancelFrame i \<Rightarrow> FCancel i
     | FenceFrame _ _ \<Rightarrow> FOther)"

text \<open>
  The greeting of an agent whose certificate names its own asset is answered with a
  welcome: the connector then has this session as the asset's current one, and the welcome
  opens the gate of the agent's new session, so that the waiting calls go on.
\<close>

theorem handshake_opens_gate:
  assumes "reg_reach (sv_sessions srv)" "up_reach r"
    and "s = \<lparr>se_run = r\<lparr>ur_up := session_open (ur_up r)\<rparr>, se_live = fst (session_setup io), se_errCh = []\<rparr>"
    and "io_client io" "io_control io" "io_hello io"
  shows "\<exists>p f srv' s'.
    control_open n1 n2 n3 True sid (Some a) (FirstHello (AgentHello.truncate (hello_frame a ver cat rnd))) srv = Some (Inr (p, f), srv') \<and>
    map_of (sr_byAsset (sv_sessions srv')) a = Some p \<and>
    session_event en (OnFrame (Some (frame_of f))) s = Some s' \<and> up_ready (ur_up (se_run s')) \<in> set (up_closed (ur_up (se_run s'))) \<and>
    (\<forall>h. waitReady WakeChan h (WaitReady (up_ready (ur_up (se_run s')))) (ur_up (se_run s')) \<noteq> None)"
proof -
  obtain reg where reg: "Register n1 n2 (sv_sessions srv) a sid ver cat =
      Some ((length (sr_heap (sv_sessions srv)), map_of (sr_byAsset (sv_sessions srv)) a), reg)"
    and cur: "map_of (sr_byAsset reg) a = Some (length (sr_heap (sv_sessions srv)))"
    using Register_total [OF reg_reach_ok [OF assms(1)], of n1 n2 a sid ver cat] by (auto simp: update_conv')
  obtain e srv' where opened: "control_open n1 n2 n3 True sid (Some a) (FirstHello (AgentHello.truncate (hello_frame a ver cat rnd))) srv =
      Some (Inr (length (sr_heap (sv_sessions srv)), WelcomeFrame sid e n3 15), srv')" and srv': "sv_sessions srv' = reg"
    using reg by (auto simp: control_open_def hello_frame_def AgentHello.defs emit_def Let_def split: option.splits)
  have live: "ControlRecv \<in> set (se_live s)" using assms(3-6) by (simp add: session_setup_def Let_def)
  have "up_next (ur_up r) \<notin> set (up_closed (ur_up r))" using up_reach_gate [OF assms(2)] by (auto simp: gate_ok_def)
  with live assms(3) obtain s' where s': "session_event en (OnFrame (Some FWelcome)) s = Some s'"
    and gate: "up_ready (ur_up (se_run s')) \<in> set (up_closed (ur_up (se_run s')))"
    by (simp add: session_event_def Let_def controlRecv_def session_open_def set_up_def)
  moreover have "waitReady WakeChan h (WaitReady (up_ready (ur_up (se_run s')))) (ur_up (se_run s')) \<noteq> None" for h
    using gate by (simp add: waitReady_def)
  ultimately show ?thesis using opened cur srv' by (fastforce simp: frame_of_def)
qed

theorem handshake_opens_gate_witness:
  "\<exists>p f srv'. control_open 1 2 3 True ''s-1'' (Some ''h'') (FirstHello (AgentHello.truncate (hello_frame ''h'' ''v'' ''c'' []))) (NewServer (None :: unit option))
     = Some (Inr (p, f), srv') \<and> map_of (sr_byAsset (sv_sessions srv')) ''h'' = Some p"
proof -
  have "reg_reach (sv_sessions (NewServer (None :: unit option)))" by (simp add: NewServer_def reg_new)
  from handshake_opens_gate [OF this up_start refl, of good_io 1 2 3 "''s-1''" "''h''" "''v''" "''c''" "[]" True] show ?thesis
    by (auto simp: good_io_def)
qed

end
