(* ===== verification/Bootstrap.thy ===== *)
theory Bootstrap
  imports Platform_Store
begin

text \<open>
  \<^verbatim>\<open>internal/connector/bootstrap.go\<close>: the registration service, which enrols agents against a
  bootstrap token and rotates their certificates. SHA-256, the parser of certificate
  requests and the certificate authority are parameters; failing database calls, clocks (in
  seconds) and random bytes are inputs.
\<close>

section \<open>Data\<close>

record BootstrapServer =
  bs_caDER :: bytes
  bs_tokenHash :: bytes
  bs_certTTL :: int
  bs_gatewayAddr :: string

definition NewBootstrapServer :: "(bytes \<Rightarrow> bytes) \<Rightarrow> bytes \<Rightarrow> string \<Rightarrow> string \<Rightarrow> int \<Rightarrow> BootstrapServer" where
  "NewBootstrapServer sha caDER token addr ttl =
     \<lparr>bs_caDER = caDER, bs_tokenHash = sha (bytes_of token), bs_certTTL = ttl, bs_gatewayAddr = addr\<rparr>"

record RegisterRequest =
  rq_EnrollmentRequestId :: string
  rq_BootstrapToken :: string
  rq_Materials :: smap
  rq_CsrDer :: bytes

record RegisterResponse =
  rp_AssetId :: string
  rp_GatewayAddr :: string
  rp_CertificateDer :: bytes
  rp_CaDer :: bytes
  rp_NotAfter :: int

record RotateCertRequest =
  rr_AssetId :: string
  rr_CsrDer :: bytes

datatype code = InvalidArgument | PermissionDenied | Internal | Unavailable | Unauthenticated | FailedPrecondition

text \<open>A parsed certificate request: whether its signature holds, and its key if it is Ed25519.\<close>

record csr =
  csr_sigOK :: bool
  csr_key :: "bytes option"

record cert_template =
  tm_serial :: nat
  tm_cn :: string
  tm_notBefore :: int
  tm_notAfter :: int

section \<open>Issuing\<close>

definition parseCSR :: "(bytes \<Rightarrow> csr option) \<Rightarrow> bytes \<Rightarrow> code + bytes" where
  "parseCSR parse der =
     (if der = [] then Inl InvalidArgument
      else case parse der of
        None \<Rightarrow> Inl InvalidArgument
      | Some c \<Rightarrow> if \<not> csr_sigOK c then Inl InvalidArgument
                   else (case csr_key c of None \<Rightarrow> Inl InvalidArgument | Some pub \<Rightarrow> Inr pub))"

text \<open>\<^verbatim>\<open>big.Int.SetBytes\<close> and its \<^verbatim>\<open>%x\<close>, which prints no leading zeros.\<close>

definition big_of_bytes :: "bytes \<Rightarrow> nat" where
  "big_of_bytes bs = foldl (\<lambda>n b. n * 256 + unat b) 0 bs"

fun hex_nat :: "nat \<Rightarrow> string" where
  "hex_nat n = (if n < 16 then [hex_digit n] else hex_nat (n div 16) @ [hex_digit (n mod 16)])"

declare hex_nat.simps [simp del]

record issued =
  is_der :: bytes
  is_serial :: string
  is_fingerprint :: string
  is_notBefore :: int
  is_notAfter :: int

definition bs_sign ::
  "(bytes \<Rightarrow> bytes) \<Rightarrow> (cert_template \<Rightarrow> bytes \<Rightarrow> bytes option) \<Rightarrow> BootstrapServer \<Rightarrow> bytes option \<Rightarrow> int \<Rightarrow> int \<Rightarrow>
   bytes \<Rightarrow> string \<Rightarrow> issued option" where
  "bs_sign sha create b rnd n1 n2 pub assetID =
     (case rnd of
        None \<Rightarrow> None
      | Some serialBytes \<Rightarrow>
          (let serialNum = big_of_bytes serialBytes; notBefore = n1 - 300; notAfter = n2 + bs_certTTL b
           in case create \<lparr>tm_serial = serialNum, tm_cn = assetID, tm_notBefore = notBefore, tm_notAfter = notAfter\<rparr> pub of
                None \<Rightarrow> None
              | Some der \<Rightarrow> Some \<lparr>is_der = der, is_serial = hex_nat serialNum, is_fingerprint = hex_encode (sha der),
                   is_notBefore = notBefore, is_notAfter = notAfter\<rparr>))"

section \<open>Registration\<close>

definition asset_of_key :: "(bytes \<Rightarrow> bytes) \<Rightarrow> bytes \<Rightarrow> string" where
  "asset_of_key sha pub = ''asset-'' @ hex_encode (take 8 (sha pub))"

text \<open>What a registration meets: which database calls succeed, random bytes, two clock readings.\<close>

record reg_world =
  rgw_find :: bool
  rgw_reset :: bool
  rgw_begin :: bool
  rgw_complete :: bool
  rgw_undo :: bool
  rgw_rnd :: "bytes option"
  rgw_n1 :: int
  rgw_n2 :: int

text \<open>The part after the idempotence check.\<close>

definition enrol ::
  "(bytes \<Rightarrow> bytes) \<Rightarrow> (bytes \<Rightarrow> csr option) \<Rightarrow> (cert_template \<Rightarrow> bytes \<Rightarrow> bytes option) \<Rightarrow> reg_world \<Rightarrow> BootstrapServer \<Rightarrow>
   RegisterRequest \<Rightarrow> Store \<Rightarrow> (code + RegisterResponse) \<times> Store" where
  "enrol sha parse create w b req st =
     (let e = rq_EnrollmentRequestId req; sum = sha (bytes_of (rq_BootstrapToken req))
      in case parseCSR parse (rq_CsrDer req) of
           Inl c \<Rightarrow> (Inl c, st)
         | Inr pub \<Rightarrow>
             (let assetID = asset_of_key sha pub
              in case BeginEnrollment (rgw_begin w) st e (hex_encode sum) (hex_encode (sha pub)) of
                   (Inl _, st1) \<Rightarrow> (Inl Internal, st1)
                 | (Inr False, st1) \<Rightarrow> (Inl Unavailable, st1)
                 | (Inr True, st1) \<Rightarrow>
                     (case bs_sign sha create b (rgw_rnd w) (rgw_n1 w) (rgw_n2 w) pub assetID of
                        None \<Rightarrow> (Inl Internal, snd (FailEnrollment (rgw_undo w) st1 e))
                      | Some i \<Rightarrow>
                          (case CompleteEnrollment (rgw_complete w) st1 e assetID (is_serial i) (is_fingerprint i)
                                  (is_notBefore i) (is_notAfter i) (is_der i) of
                             (Some _, st2) \<Rightarrow> (Inl Internal, snd (FailEnrollment (rgw_undo w) st2 e))
                           | (None, st2) \<Rightarrow>
                               (Inr \<lparr>rp_AssetId = assetID, rp_GatewayAddr = bs_gatewayAddr b, rp_CertificateDer = is_der i,
                                  rp_CaDer = bs_caDER b, rp_NotAfter = is_notAfter i\<rparr>, st2)))))"

definition bs_Register ::
  "(bytes \<Rightarrow> bytes) \<Rightarrow> (bytes \<Rightarrow> csr option) \<Rightarrow> (cert_template \<Rightarrow> bytes \<Rightarrow> bytes option) \<Rightarrow> reg_world \<Rightarrow> BootstrapServer \<Rightarrow>
   RegisterRequest \<Rightarrow> Store \<Rightarrow> (code + RegisterResponse) \<times> Store" where
  "bs_Register sha parse create w b req st =
     (if rq_EnrollmentRequestId req = [] \<or> rq_BootstrapToken req = [] then (Inl InvalidArgument, st)
      else if sha (bytes_of (rq_BootstrapToken req)) \<noteq> bs_tokenHash b then (Inl PermissionDenied, st)
      else case FindEnrollment (rgw_find w) st (rq_EnrollmentRequestId req) of
        Inl _ \<Rightarrow> (Inl Internal, st)
      | Inr None \<Rightarrow> enrol sha parse create w b req st
      | Inr (Some rec) \<Rightarrow>
          if er_Status rec = ''completed'' \<and> length (er_CertDER rec) > 0
          then (Inr \<lparr>rp_AssetId = er_AssetID rec, rp_GatewayAddr = bs_gatewayAddr b, rp_CertificateDer = er_CertDER rec,
                  rp_CaDer = bs_caDER b, rp_NotAfter = er_NotAfter rec\<rparr>, st)
          else (case FailEnrollment (rgw_reset w) st (rq_EnrollmentRequestId req) of
                  (Some _, st1) \<Rightarrow> (Inl Internal, st1)
                | (None, st1) \<Rightarrow> enrol sha parse create w b req st1))"

section \<open>Rotation\<close>

text \<open>\<open>peer\<close> is the common name of the client certificate, if the connection has one.\<close>

definition RotateCertificate ::
  "(bytes \<Rightarrow> bytes) \<Rightarrow> (bytes \<Rightarrow> csr option) \<Rightarrow> (cert_template \<Rightarrow> bytes \<Rightarrow> bytes option) \<Rightarrow> reg_world \<Rightarrow> BootstrapServer \<Rightarrow>
   string option \<Rightarrow> RotateCertRequest \<Rightarrow> Store \<Rightarrow> (code + bytes \<times> int) \<times> Store" where
  "RotateCertificate sha parse create w b peer req st =
     (if rr_AssetId req = [] then (Inl InvalidArgument, st)
      else case peer of
        None \<Rightarrow> (Inl Unauthenticated, st)
      | Some cn \<Rightarrow>
          if cn \<noteq> rr_AssetId req then (Inl Unauthenticated, st)
          else (case parseCSR parse (rr_CsrDer req) of
                  Inl c \<Rightarrow> (Inl c, st)
                | Inr pub \<Rightarrow>
                    (case bs_sign sha create b (rgw_rnd w) (rgw_n1 w) (rgw_n2 w) pub (rr_AssetId req) of
                       None \<Rightarrow> (Inl Internal, st)
                     | Some i \<Rightarrow>
                         (case RotateCertificateTx (rgw_complete w) st (rr_AssetId req) (is_serial i) (is_fingerprint i)
                                 (is_notBefore i) (is_notAfter i) of
                            (Some ErrNotFound, st1) \<Rightarrow> (Inl FailedPrecondition, st1)
                          | (Some _, st1) \<Rightarrow> (Inl Internal, st1)
                          | (None, st1) \<Rightarrow> (Inr (is_der i, is_notAfter i), st1)))))"

section \<open>The serial numbers are told apart by their print\<close>

lemma hex_nat_ne [simp]: "hex_nat n \<noteq> []"
  by (subst hex_nat.simps) simp

lemma hex_nat_inject: "hex_nat m = hex_nat n \<Longrightarrow> m = n"
proof (induction m arbitrary: n rule: hex_nat.induct)
  case (1 m)
  consider "m < 16" "n < 16" | "m < 16" "\<not> n < 16" | "\<not> m < 16" "n < 16" | "\<not> m < 16" "\<not> n < 16" by blast
  then show ?case
  proof cases
    case 1
    with "1.prems" show ?thesis using hex_digit_inject [of m n] by (simp add: hex_nat.simps)
  next
    case 2
    then have "hex_nat (n div 16) = []" using "1.prems" by (subst (asm) (1 2) hex_nat.simps) simp
    then show ?thesis by simp
  next
    case 3
    then have "hex_nat (m div 16) = []" using "1.prems" by (subst (asm) (1 2) hex_nat.simps) simp
    then show ?thesis by simp
  next
    case 4
    with "1.prems" have "hex_nat (m div 16) = hex_nat (n div 16)" "hex_digit (m mod 16) = hex_digit (n mod 16)"
      by (subst (asm) (1 2) hex_nat.simps, simp)+
    with "1.IH" [OF 4(1)] hex_digit_inject [of "m mod 16" "n mod 16"] have "m div 16 = n div 16" "m mod 16 = n mod 16" by auto
    then show ?thesis by (metis div_mult_mod_eq)
  qed
qed

section \<open>Registration is idempotent\<close>

lemma FindEnrollment_completed:
  "st_enrollment st e = Some row \<Longrightarrow> en_status row = ''completed'' \<Longrightarrow> en_certDER row \<noteq> [] \<Longrightarrow>
   FindEnrollment True st e = Inr (Some \<lparr>er_Status = ''completed'', er_AssetID = en_asset row, er_CertDER = en_certDER row,
     er_NotAfter = en_notAfter row\<rparr>)"
  by (simp add: FindEnrollment_def)

lemma BeginEnrollment_fresh:
  "BeginEnrollment ok st e t k = (Inr True, st1) \<Longrightarrow>
   ok \<and> st_enrollment st e = None \<and> st_cert st1 = st_cert st \<and> (\<exists>row. st_enrollment st1 e = Some row \<and> en_status row = ''processing'') \<and>
   (\<forall>e'. e' \<noteq> e \<longrightarrow> st_enrollment st1 e' = st_enrollment st e')"
  by (auto simp: BeginEnrollment_def split: if_splits)

lemma CompleteEnrollment_row:
  "CompleteEnrollment ok st e a ser fp nb na der = (None, st1) \<Longrightarrow>
   (\<exists>row. st_enrollment st1 e = Some row \<and> en_status row = ''completed'' \<and> en_asset row = a \<and> en_certDER row = der \<and> en_notAfter row = na) \<and>
   st_cert st1 = st_cert st @ [\<lparr>ct_id = length (st_cert st), ct_asset = a, ct_serial = ser, ct_fingerprint = fp,
      ct_notBefore = nb, ct_notAfter = na, ct_status = ''active''\<rparr>]"
  by (auto simp: CompleteEnrollment_def insert_cert_def Let_def split: if_splits option.splits)

lemma CompleteEnrollment_fail: "CompleteEnrollment ok st e a ser fp nb na der = (Some err, st1) \<Longrightarrow> st1 = st"
  by (auto simp: CompleteEnrollment_def split: if_splits option.splits)

lemma FailEnrollment_cert [simp]: "st_cert (snd (FailEnrollment ok st e)) = st_cert st"
  by (auto simp: FailEnrollment_def split: option.splits)

text \<open>What a successful pass through the full procedure did.\<close>

lemma enrol_success:
  assumes "enrol sha parse create w b req st = (Inr resp, st1)"
  obtains pub row where "parseCSR parse (rq_CsrDer req) = Inr pub" "rp_AssetId resp = asset_of_key sha pub"
    "create \<lparr>tm_serial = big_of_bytes (the (rgw_rnd w)), tm_cn = rp_AssetId resp, tm_notBefore = rgw_n1 w - 300,
       tm_notAfter = rp_NotAfter resp\<rparr> pub = Some (rp_CertificateDer resp)"
    "st_enrollment st1 (rq_EnrollmentRequestId req) = Some row" "en_status row = ''completed''" "en_asset row = rp_AssetId resp"
    "en_certDER row = rp_CertificateDer resp" "en_notAfter row = rp_NotAfter resp"
    "st_cert st1 = st_cert st @ [\<lparr>ct_id = length (st_cert st), ct_asset = rp_AssetId resp, ct_serial = hex_nat (big_of_bytes (the (rgw_rnd w))),
       ct_fingerprint = hex_encode (sha (rp_CertificateDer resp)), ct_notBefore = rgw_n1 w - 300, ct_notAfter = rp_NotAfter resp,
       ct_status = ''active''\<rparr>]"
    "rp_GatewayAddr resp = bs_gatewayAddr b" "rp_CaDer resp = bs_caDER b" "rp_NotAfter resp = rgw_n2 w + bs_certTTL b"
proof -
  let ?e = "rq_EnrollmentRequestId req"
  obtain pub where p: "parseCSR parse (rq_CsrDer req) = Inr pub"
    using assms by (auto simp: enrol_def Let_def split: sum.splits)
  let ?a = "asset_of_key sha pub"
  obtain t where t: "BeginEnrollment (rgw_begin w) st ?e (hex_encode (sha (bytes_of (rq_BootstrapToken req)))) (hex_encode (sha pub)) = (Inr True, t)"
    using assms p by (auto simp: enrol_def Let_def split: prod.splits sum.splits bool.splits)
  obtain i where i: "bs_sign sha create b (rgw_rnd w) (rgw_n1 w) (rgw_n2 w) pub ?a = Some i"
    using assms p t by (auto simp: enrol_def Let_def split: option.splits)
  have c: "CompleteEnrollment (rgw_complete w) t ?e ?a (is_serial i) (is_fingerprint i) (is_notBefore i) (is_notAfter i) (is_der i) = (None, st1)"
    and resp: "resp = \<lparr>rp_AssetId = ?a, rp_GatewayAddr = bs_gatewayAddr b, rp_CertificateDer = is_der i, rp_CaDer = bs_caDER b,
       rp_NotAfter = is_notAfter i\<rparr>"
    using assms p t i by (auto simp: enrol_def Let_def split: option.splits prod.splits)
  obtain r where r: "rgw_rnd w = Some r" and der: "create \<lparr>tm_serial = big_of_bytes r, tm_cn = ?a, tm_notBefore = rgw_n1 w - 300,
      tm_notAfter = rgw_n2 w + bs_certTTL b\<rparr> pub = Some (is_der i)"
    and isd: "is_serial i = hex_nat (big_of_bytes r)" "is_fingerprint i = hex_encode (sha (is_der i))" "is_notBefore i = rgw_n1 w - 300"
      "is_notAfter i = rgw_n2 w + bs_certTTL b"
    using i by (auto simp: bs_sign_def Let_def split: option.splits)
  from CompleteEnrollment_row [OF c] obtain row where "st_enrollment st1 ?e = Some row" "en_status row = ''completed''"
    "en_asset row = ?a" "en_certDER row = is_der i" "en_notAfter row = is_notAfter i" and
    cert: "st_cert st1 = st_cert t @ [\<lparr>ct_id = length (st_cert t), ct_asset = ?a, ct_serial = is_serial i, ct_fingerprint = is_fingerprint i,
      ct_notBefore = is_notBefore i, ct_notAfter = is_notAfter i, ct_status = ''active''\<rparr>]" by blast
  with BeginEnrollment_fresh [OF t] p r der isd show ?thesis by (intro that [of pub row]) (simp_all add: resp)
qed

abbreviation replay_of :: "BootstrapServer \<Rightarrow> EnrollmentRecord \<Rightarrow> RegisterResponse" where
  "replay_of b rec \<equiv> \<lparr>rp_AssetId = er_AssetID rec, rp_GatewayAddr = bs_gatewayAddr b, rp_CertificateDer = er_CertDER rec,
     rp_CaDer = bs_caDER b, rp_NotAfter = er_NotAfter rec\<rparr>"

lemma Register_guards:
  assumes "bs_Register sha parse create w b req st = (Inr resp, st1)"
  shows "rq_EnrollmentRequestId req \<noteq> []" "rq_BootstrapToken req \<noteq> []" "sha (bytes_of (rq_BootstrapToken req)) = bs_tokenHash b"
  using assms by (auto simp: bs_Register_def split: if_splits)

lemma Register_success_cases:
  assumes "bs_Register sha parse create w b req st = (Inr resp, st1)"
  obtains (full) t where "enrol sha parse create w b req t = (Inr resp, st1)"
  | (replay) rec where "FindEnrollment True st (rq_EnrollmentRequestId req) = Inr (Some rec)" "er_Status rec = ''completed''"
      "er_CertDER rec \<noteq> []" "resp = replay_of b rec" "st1 = st"
proof -
  let ?e = "rq_EnrollmentRequestId req"
  note reg = assms [unfolded bs_Register_def, simplified Register_guards [OF assms] if_False if_True simp_thms]
  show ?thesis
  proof (cases "FindEnrollment (rgw_find w) st ?e")
    case (Inl x)
    with reg show ?thesis by simp
  next
    case (Inr x)
    have w: "rgw_find w" using Inr by (auto simp: FindEnrollment_def split: if_splits)
    show ?thesis
    proof (cases x)
      case None
      with reg Inr full show ?thesis by simp
    next
      case (Some rec)
      obtain y t where y: "FailEnrollment (rgw_reset w) st ?e = (y, t)" by (meson surj_pair)
      show ?thesis
      proof (cases "er_Status rec = ''completed'' \<and> length (er_CertDER rec) > 0")
        case True
        with reg Inr Some w show ?thesis by (intro replay [of rec]) simp_all
      next
        case False
        with reg Inr Some y show ?thesis by (cases y) (auto intro: full split: if_splits)
      qed
    qed
  qed
qed

lemma Register_replays:
  assumes "FindEnrollment True st (rq_EnrollmentRequestId req) = Inr (Some rec)" "er_Status rec = ''completed''" "er_CertDER rec \<noteq> []"
    and "rgw_find w" "rq_EnrollmentRequestId req \<noteq> []" "rq_BootstrapToken req \<noteq> []"
    and "sha (bytes_of (rq_BootstrapToken req)) = bs_tokenHash b"
  shows "bs_Register sha parse create w b req st = (Inr (replay_of b rec), st)"
  using assms by (simp add: bs_Register_def)

lemma Register_again:
  assumes "\<forall>t p. create t p \<noteq> Some []"
    and "bs_Register sha parse create w b req st = (Inr resp, st1)" "rgw_find w'"
    and "rq_EnrollmentRequestId req' = rq_EnrollmentRequestId req" "rq_BootstrapToken req' = rq_BootstrapToken req"
  shows "bs_Register sha parse create w' b req' st1 = (Inr resp, st1)"
proof -
  note again = Register_replays [of st1 req' _ w' sha b parse create, OF _ _ _ assms(3), unfolded assms(4,5), OF _ _ _ Register_guards [OF assms(2)]]
  from assms(2) show ?thesis
  proof (cases rule: Register_success_cases)
    case (replay rec)
    with again [of rec] show ?thesis by simp
  next
    case (full t)
    then show ?thesis
    proof (rule enrol_success)
      fix pub row
      assume c: "create \<lparr>tm_serial = big_of_bytes (the (rgw_rnd w)), tm_cn = rp_AssetId resp, tm_notBefore = rgw_n1 w - 300,
          tm_notAfter = rp_NotAfter resp\<rparr> pub = Some (rp_CertificateDer resp)"
        and row: "st_enrollment st1 (rq_EnrollmentRequestId req) = Some row" "en_status row = ''completed''" "en_asset row = rp_AssetId resp"
          "en_certDER row = rp_CertificateDer resp" "en_notAfter row = rp_NotAfter resp"
          "rp_GatewayAddr resp = bs_gatewayAddr b" "rp_CaDer resp = bs_caDER b"
      have "en_certDER row \<noteq> []" using assms(1) c row(4) by metis
      with again [OF FindEnrollment_completed [OF row(1,2)]] row show ?thesis by (cases resp) simp
    qed
  qed
qed


lemma enrol_failure:
  assumes "enrol sha parse create w b req st = (Inl c, st1)" "st_enrollment st (rq_EnrollmentRequestId req) = None"
  shows "st_cert st1 = st_cert st \<and> (rgw_undo w \<longrightarrow> st_enrollment st1 (rq_EnrollmentRequestId req) = None)"
proof (cases "parseCSR parse (rq_CsrDer req)")
  case (Inl c')
  with assms show ?thesis by (auto simp: enrol_def)
next
  case (Inr pub)
  let ?e = "rq_EnrollmentRequestId req"
  obtain x t where t: "BeginEnrollment (rgw_begin w) st ?e (hex_encode (sha (bytes_of (rq_BootstrapToken req)))) (hex_encode (sha pub)) = (x, t)"
    by (meson surj_pair)
  have undo: "st_cert (snd (FailEnrollment u t' ?e)) = st_cert t' \<and> (u \<longrightarrow> st_enrollment (snd (FailEnrollment u t' ?e)) ?e = None)"
    if "st_enrollment t' ?e = Some row" "en_status row = ''processing''" for u t' row
    using that by (simp add: FailEnrollment_def)
  show ?thesis
  proof (cases "x = Inr True")
    case False
    with t assms Inr have "t = st" "st1 = t"
      by (auto simp: enrol_def Let_def BeginEnrollment_def split: if_splits)
    with assms(2) show ?thesis by simp
  next
    case True
    with t have f: "st_cert t = st_cert st" "\<exists>row. st_enrollment t ?e = Some row \<and> en_status row = ''processing''"
      using BeginEnrollment_fresh by blast+
    have "st1 = snd (FailEnrollment (rgw_undo w) t ?e)"
      using assms(1) Inr t True
      by (auto simp: enrol_def Let_def split: option.splits prod.splits dest: CompleteEnrollment_fail)
    with f undo show ?thesis by metis
  qed
qed

lemma Register_new:
  assumes "bs_Register sha parse create w b req st = (r, st1)" "st_enrollment st (rq_EnrollmentRequestId req) = None"
  shows "case r of
      Inr resp \<Rightarrow> sha (bytes_of (rq_BootstrapToken req)) = bs_tokenHash b \<and>
        (\<exists>pub. parseCSR parse (rq_CsrDer req) = Inr pub \<and> rp_AssetId resp = asset_of_key sha pub \<and>
          create \<lparr>tm_serial = big_of_bytes (the (rgw_rnd w)), tm_cn = rp_AssetId resp, tm_notBefore = rgw_n1 w - 300,
            tm_notAfter = rgw_n2 w + bs_certTTL b\<rparr> pub = Some (rp_CertificateDer resp)) \<and>
        (\<exists>row. st_cert st1 = st_cert st @ [row] \<and> ct_asset row = rp_AssetId resp \<and> ct_status row = ''active'' \<and>
          ct_fingerprint row = hex_encode (sha (rp_CertificateDer resp)))
    | Inl c \<Rightarrow> st_cert st1 = st_cert st \<and> (rgw_undo w \<longrightarrow> st_enrollment st1 (rq_EnrollmentRequestId req) = None)"
proof -
  let ?e = "rq_EnrollmentRequestId req"
  have find: "FindEnrollment ok st ?e = (if ok then Inr None else Inl DbError)" for ok
    using assms(2) by (simp add: FindEnrollment_def)
  show ?thesis
  proof (cases r)
    case (Inr resp)
    have t: "sha (bytes_of (rq_BootstrapToken req)) = bs_tokenHash b" and en: "enrol sha parse create w b req st = (Inr resp, st1)"
      using assms(1) Inr by (auto simp: bs_Register_def find split: if_splits)
    show ?thesis
      by (rule enrol_success [OF en]) (use Inr t in auto)
  next
    case (Inl c)
    consider "st1 = st" | "enrol sha parse create w b req st = (Inl c, st1)"
      using assms(1) Inl by (auto simp: bs_Register_def find split: if_splits)
    then show ?thesis
    proof cases
      case 2
      from enrol_failure [OF this assms(2)] Inl show ?thesis by simp
    qed (use assms(2) Inl in simp)
  qed
qed



section \<open>Sample parameters\<close>

definition sample_sha :: "bytes \<Rightarrow> bytes" where
  "sample_sha x = x"

definition sample_parse :: "bytes \<Rightarrow> csr option" where
  "sample_parse der = Some \<lparr>csr_sigOK = True, csr_key = Some der\<rparr>"

definition sample_create :: "cert_template \<Rightarrow> bytes \<Rightarrow> bytes option" where
  "sample_create t p = Some (1 # p)"

definition sample_world :: reg_world where
  "sample_world = \<lparr>rgw_find = True, rgw_reset = True, rgw_begin = True, rgw_complete = True, rgw_undo = True,
     rgw_rnd = Some [7], rgw_n1 = 1000, rgw_n2 = 1000\<rparr>"

definition sample_bs :: BootstrapServer where
  "sample_bs = NewBootstrapServer sample_sha [9] ''tok'' ''gw'' 90"

definition sample_request :: "bytes \<Rightarrow> RegisterRequest" where
  "sample_request k = \<lparr>rq_EnrollmentRequestId = ''e1'', rq_BootstrapToken = ''tok'', rq_Materials = [], rq_CsrDer = k\<rparr>"

definition sample_response :: RegisterResponse where
  "sample_response = \<lparr>rp_AssetId = asset_of_key sample_sha [5], rp_GatewayAddr = ''gw'', rp_CertificateDer = [1, 5], rp_CaDer = [9], rp_NotAfter = 1090\<rparr>"

lemma sample_registered:
  "\<exists>st1. bs_Register sample_sha sample_parse sample_create sample_world sample_bs (sample_request [5]) empty_store =
     (Inr sample_response, st1)"
  by (simp add: bs_Register_def enrol_def sample_request_def sample_bs_def NewBootstrapServer_def sample_world_def
      FindEnrollment_def empty_store_def parseCSR_def sample_parse_def BeginEnrollment_def bs_sign_def sample_create_def
      CompleteEnrollment_def insert_cert_def Let_def sample_response_def sample_sha_def)




end
