(* ===== verification/Agent_Register.thy ===== *)
theory Agent_Register
  imports Bootstrap
begin

text \<open>
  \<^verbatim>\<open>internal/register\<close>: how an agent gets, keeps and renews its identity. The files of the data
  directory are the state: \<^verbatim>\<open>identity.json\<close> as the record it parses to, and the three PKI files.
  A private key is opaque (\<open>'k\<close>). Every attempt meets a world of its own: the key it draws, the
  failing system calls and the remote call, a function on the state \<open>'s\<close> of the other side.
\<close>

section \<open>Data\<close>

record Identity =
  id_AssetID :: string
  id_EnrollmentRequestID :: string
  id_RegisteredAt :: int
  id_CertNotAfter :: int

record 'k datadir =
  dd_identity :: "Identity option"
  dd_key :: "'k option"
  dd_cert :: "bytes option"
  dd_ca :: "bytes option"

record RegConf =
  gc_AssetID :: string
  gc_BootstrapToken :: string
  gc_BootstrapAddr :: string
  gc_BootstrapCAFile :: string
  gc_RotateBeforeDays :: int
  gc_UplinkMode :: string
  gc_UplinkAddr :: string
  gc_UplinkHTTPAddr :: string
  gc_UplinkServerName :: string

datatype reg_error =
    KeyGenFailed | BootstrapCAUnreadable | BootstrapCAInvalid | DialFailed | RpcFailed | IncompleteResponse | PersistFailed
  | SaveIdentityFailed | KeyPairMismatch | UplinkAddrInvalid | RegisterRejected string | EmptyAssetID

section \<open>Files\<close>

definition LoadIdentity :: "'k datadir \<Rightarrow> Identity option" where
  "LoadIdentity d = (case dd_identity d of None \<Rightarrow> None | Some i \<Rightarrow> if id_AssetID i = [] then None else Some i)"

definition saveIdentity :: "bool \<Rightarrow> Identity \<Rightarrow> 'k datadir \<Rightarrow> bool \<times> 'k datadir" where
  "saveIdentity ok i d = (if ok then (True, d\<lparr>dd_identity := Some i\<rparr>) else (False, d))"

definition PKIPaths :: "'k datadir \<Rightarrow> bool" where
  "PKIPaths d \<longleftrightarrow> dd_ca d \<noteq> None \<and> dd_cert d \<noteq> None \<and> dd_key d \<noteq> None"

text \<open>Three files, one after the other; \<open>n\<close> of the renames happen.\<close>

definition persistPKI :: "nat \<Rightarrow> 'k \<Rightarrow> bytes \<Rightarrow> bytes \<Rightarrow> 'k datadir \<Rightarrow> bool \<times> 'k datadir" where
  "persistPKI n priv cert ca d =
     (let d = (if n > 0 then d\<lparr>dd_key := Some priv\<rparr> else d);
          d = (if n > 1 then d\<lparr>dd_cert := Some cert\<rparr> else d);
          d = (if n > 2 then d\<lparr>dd_ca := Some ca\<rparr> else d)
      in (n > 2, d))"

definition newEnrollmentID :: "bytes option \<Rightarrow> nat \<Rightarrow> string" where
  "newEnrollmentID rnd nanos = (case rnd of None \<Rightarrow> ''fallback-'' @ dec_digits nanos | Some b \<Rightarrow> hex_encode b)"

section \<open>One registration attempt over gRPC\<close>

datatype tls_server = VerifyServer bytes string | SkipVerify

definition bootstrap_tls :: "(string \<Rightarrow> bytes option) \<Rightarrow> (bytes \<Rightarrow> bool) \<Rightarrow> RegConf \<Rightarrow> reg_error + tls_server" where
  "bootstrap_tls read valid cfg =
     (if gc_BootstrapCAFile cfg \<noteq> []
      then (case read (gc_BootstrapCAFile cfg) of
              None \<Rightarrow> Inl BootstrapCAUnreadable
            | Some pem \<Rightarrow> if \<not> valid pem then Inl BootstrapCAInvalid else Inr (VerifyServer pem (gc_UplinkServerName cfg)))
      else Inr SkipVerify)"

record ('k, 's) attempt =
  at_key :: "'k option"
  at_tls :: "reg_error + tls_server"
  at_dial :: bool
  at_rpc :: "RegisterRequest \<Rightarrow> 's \<Rightarrow> RegisterResponse option \<times> 's"
  at_materials :: smap
  at_persist :: nat
  at_save :: bool
  at_now :: int

text \<open>\<open>csr\<close> makes the signed certificate request of a key for a common name.\<close>

definition doRegisterGRPC ::
  "('k \<Rightarrow> string \<Rightarrow> bytes) \<Rightarrow> ('k, 's) attempt \<Rightarrow> string \<Rightarrow> string \<Rightarrow> 'k datadir \<Rightarrow> 's \<Rightarrow>
   (reg_error + string \<times> int) \<times> 'k datadir \<times> 's" where
  "doRegisterGRPC csr a token enrollID d srv =
     (case at_key a of
        None \<Rightarrow> (Inl KeyGenFailed, d, srv)
      | Some priv \<Rightarrow>
          (case at_tls a of
             Inl err \<Rightarrow> (Inl err, d, srv)
           | Inr _ \<Rightarrow>
               if \<not> at_dial a then (Inl DialFailed, d, srv)
               else (let (resp, srv) = at_rpc a \<lparr>rq_EnrollmentRequestId = enrollID, rq_BootstrapToken = token,
                           rq_Materials = at_materials a, rq_CsrDer = csr priv (''pending-'' @ take 8 enrollID)\<rparr> srv
                     in case resp of
                          None \<Rightarrow> (Inl RpcFailed, d, srv)
                        | Some r \<Rightarrow>
                            if rp_AssetId r = [] \<or> rp_CertificateDer r = [] \<or> rp_CaDer r = [] then (Inl IncompleteResponse, d, srv)
                            else (let (ok, d) = persistPKI (at_persist a) priv (rp_CertificateDer r) (rp_CaDer r) d
                                  in if \<not> ok then (Inl PersistFailed, d, srv)
                                     else (Inr (rp_AssetId r, rp_NotAfter r), d, srv)))))"

section \<open>Rotation\<close>

definition day_ns :: int where
  "day_ns = 24 * 60 * 60 * 1000000000"

text \<open>\<^verbatim>\<open>time.Until\<close> saturates, the window wraps.\<close>

definition saturate64 :: "int \<Rightarrow> int" where
  "saturate64 x = max (- (2 ^ 63)) (min (2 ^ 63 - 1) x)"

definition rotate_window :: "RegConf \<Rightarrow> int" where
  "rotate_window cfg = wrap64 ((if gc_RotateBeforeDays cfg \<le> 0 then 30 else gc_RotateBeforeDays cfg) * day_ns)"

record ('k, 's) rot_world =
  ro_key :: "'k option"
  ro_caOK :: bool
  ro_host :: "string option"
  ro_dial :: bool
  ro_rpc :: "RotateCertRequest \<Rightarrow> 's \<Rightarrow> (bytes \<times> int) option \<times> 's"
  ro_persist :: nat
  ro_save :: bool

text \<open>\<open>pair\<close>: does a private key belong to a certificate (\<^verbatim>\<open>tls.LoadX509KeyPair\<close>)?\<close>

definition rotate_cert ::
  "('k \<Rightarrow> string \<Rightarrow> bytes) \<Rightarrow> ('k \<Rightarrow> bytes \<Rightarrow> bool) \<Rightarrow> RegConf \<Rightarrow> ('k, 's) rot_world \<Rightarrow> Identity \<Rightarrow> 'k datadir \<Rightarrow> 's \<Rightarrow>
   reg_error option \<times> 'k datadir \<times> 's" where
  "rotate_cert csr pair cfg w i d srv =
     (case ro_key w of
        None \<Rightarrow> (Some KeyGenFailed, d, srv)
      | Some priv \<Rightarrow>
          if \<not> (case (dd_key d, dd_cert d) of (Some k, Some c) \<Rightarrow> pair k c | _ \<Rightarrow> False) then (Some KeyPairMismatch, d, srv)
          else if \<not> ro_caOK w \<or> dd_ca d = None then (Some BootstrapCAInvalid, d, srv)
          else if gc_UplinkServerName cfg = [] \<and> ro_host w = None then (Some UplinkAddrInvalid, d, srv)
          else if \<not> ro_dial w then (Some DialFailed, d, srv)
          else (let (resp, srv) = ro_rpc w \<lparr>rr_AssetId = id_AssetID i, rr_CsrDer = csr priv (''rotate-'' @ id_AssetID i)\<rparr> srv
                in case resp of
                     None \<Rightarrow> (Some RpcFailed, d, srv)
                   | Some (der, na) \<Rightarrow>
                       if der = [] \<or> na \<le> 0 then (Some IncompleteResponse, d, srv)
                       else (let (ok, d) = persistPKI (ro_persist w) priv der (the (dd_ca d)) d
                             in if \<not> ok then (Some PersistFailed, d, srv)
                                else (let (ok, d) = saveIdentity (ro_save w) (i\<lparr>id_CertNotAfter := na\<rparr>) d
                                      in if \<not> ok then (Some SaveIdentityFailed, d, srv) else (None, d, srv)))))"

text \<open>Failures are only logged. \<open>now\<close> is in nanoseconds.\<close>

definition MaybeRotate ::
  "('k \<Rightarrow> string \<Rightarrow> bytes) \<Rightarrow> ('k \<Rightarrow> bytes \<Rightarrow> bool) \<Rightarrow> RegConf \<Rightarrow> int \<Rightarrow> ('k, 's) rot_world \<Rightarrow> 'k datadir \<Rightarrow> 's \<Rightarrow> 'k datadir \<times> 's" where
  "MaybeRotate csr pair cfg now w d srv =
     (case LoadIdentity d of
        None \<Rightarrow> (d, srv)
      | Some i \<Rightarrow>
          if id_CertNotAfter i \<le> 0 then (d, srv)
          else if \<not> PKIPaths d then (d, srv)
          else if saturate64 (id_CertNotAfter i * 1000000000 - now) > rotate_window cfg then (d, srv)
          else snd (rotate_cert csr pair cfg w i d srv))"

section \<open>Start-up\<close>

datatype ensured = EnsureReady string | EnsureSkipped | EnsureSaveFailed | EnsureStopped

text \<open>The retry loop over the attempts made before the context is cancelled.\<close>

fun ensure_loop ::
  "('k \<Rightarrow> string \<Rightarrow> bytes) \<Rightarrow> string \<Rightarrow> string \<Rightarrow> ('k, 's) attempt list \<Rightarrow> 'k datadir \<Rightarrow> 's \<Rightarrow> ensured \<times> 'k datadir \<times> 's" where
  "ensure_loop csr token enrollID [] d srv = (EnsureStopped, d, srv)"
| "ensure_loop csr token enrollID (a # as) d srv =
     (case doRegisterGRPC csr a token enrollID d srv of
        (Inr (assetID, na), d1, srv1) \<Rightarrow>
          (let (ok, d2) = saveIdentity (at_save a) \<lparr>id_AssetID = assetID, id_EnrollmentRequestID = enrollID,
                  id_RegisteredAt = at_now a, id_CertNotAfter = na\<rparr> d1
           in if ok then (EnsureReady assetID, d2, srv1) else (EnsureSaveFailed, d2, srv1))
      | (Inl _, d1, srv1) \<Rightarrow> ensure_loop csr token enrollID as d1 srv1)"

definition EnsureIdentity ::
  "('k \<Rightarrow> string \<Rightarrow> bytes) \<Rightarrow> ('k \<Rightarrow> bytes \<Rightarrow> bool) \<Rightarrow> RegConf \<Rightarrow> int \<Rightarrow> ('k, 's) rot_world \<Rightarrow> string \<Rightarrow> ('k, 's) attempt list \<Rightarrow>
   'k datadir \<Rightarrow> 's \<Rightarrow> ensured \<times> 'k datadir \<times> 's" where
  "EnsureIdentity csr pair cfg now w enrollID as d srv =
     (case LoadIdentity d of
        Some i \<Rightarrow>
          if PKIPaths d then (let (d', srv') = MaybeRotate csr pair cfg now w d srv in (EnsureReady (id_AssetID i), d', srv'))
          else if gc_BootstrapToken cfg = [] \<or> gc_BootstrapAddr cfg = [] then (EnsureSkipped, d, srv)
          else ensure_loop csr (gc_BootstrapToken cfg) enrollID as d srv
      | None \<Rightarrow>
          if gc_BootstrapToken cfg = [] \<or> gc_BootstrapAddr cfg = [] then (EnsureSkipped, d, srv)
          else ensure_loop csr (gc_BootstrapToken cfg) enrollID as d srv)"

definition registerBaseURL :: "RegConf \<Rightarrow> string" where
  "registerBaseURL cfg = (if gc_UplinkMode cfg = ''http'' then gc_UplinkAddr cfg
     else if gc_UplinkMode cfg = ''grpc'' then gc_UplinkHTTPAddr cfg else [])"

text \<open>The answer of the HTTP fallback: the asset id and the error text, if it can be decoded.\<close>

definition http_register :: "(string \<times> string) option \<Rightarrow> reg_error + string" where
  "http_register r =
     (case r of
        None \<Rightarrow> Inl RpcFailed
      | Some (asset, err) \<Rightarrow> if err \<noteq> [] then Inl (RegisterRejected err) else if asset = [] then Inl EmptyAssetID else Inr asset)"

definition doRegister ::
  "('k \<Rightarrow> string \<Rightarrow> bytes) \<Rightarrow> RegConf \<Rightarrow> ('k, 's) attempt \<Rightarrow> (string \<times> string) option \<Rightarrow> string \<Rightarrow> string \<Rightarrow> 'k datadir \<Rightarrow> 's \<Rightarrow>
   (reg_error + string) \<times> 'k datadir \<times> 's" where
  "doRegister csr cfg a http token enrollID d srv =
     (if gc_BootstrapAddr cfg \<noteq> []
      then (case doRegisterGRPC csr a token enrollID d srv of
              (Inl e, d', srv') \<Rightarrow> (Inl e, d', srv')
            | (Inr (asset, _), d', srv') \<Rightarrow> (Inr asset, d', srv'))
      else (http_register http, d, srv))"

text \<open>The loop of \<^verbatim>\<open>registerLoop\<close>: the identity handed to the callback, if an attempt succeeded.\<close>

fun registerLoop ::
  "('k \<Rightarrow> string \<Rightarrow> bytes) \<Rightarrow> RegConf \<Rightarrow> string \<Rightarrow> (('k, 's) attempt \<times> (string \<times> string) option) list \<Rightarrow> 'k datadir \<Rightarrow> 's \<Rightarrow>
   string option \<times> 'k datadir \<times> 's" where
  "registerLoop csr cfg enrollID [] d srv = (None, d, srv)"
| "registerLoop csr cfg enrollID ((a, h) # as) d srv =
     (case doRegister csr cfg a h (gc_BootstrapToken cfg) enrollID d srv of
        (Inl _, d1, srv1) \<Rightarrow> registerLoop csr cfg enrollID as d1 srv1
      | (Inr assetID, d1, srv1) \<Rightarrow>
          (Some assetID, snd (saveIdentity (at_save a) \<lparr>id_AssetID = assetID, id_EnrollmentRequestID = enrollID,
             id_RegisteredAt = at_now a, id_CertNotAfter = 0\<rparr> d1), srv1))"

datatype started = ReadyNow string | Registering

definition register_Start :: "RegConf \<Rightarrow> 'k datadir \<Rightarrow> started" where
  "register_Start cfg d =
     (if gc_AssetID cfg \<noteq> [] then ReadyNow (gc_AssetID cfg)
      else case LoadIdentity d of
        Some i \<Rightarrow> ReadyNow (id_AssetID i)
      | None \<Rightarrow>
          if gc_BootstrapToken cfg = [] \<or> (registerBaseURL cfg = [] \<and> gc_BootstrapAddr cfg = []) then ReadyNow []
          else Registering)"

section \<open>An identity, once established, stays\<close>

lemma persistPKI_keeps:
  assumes "persistPKI n k c ca d = (ok, d')"
  shows "dd_identity d' = dd_identity d" "PKIPaths d \<Longrightarrow> PKIPaths d'" "ok \<Longrightarrow> PKIPaths d' \<and> dd_key d' = Some k \<and> dd_cert d' = Some c \<and> dd_ca d' = Some ca"
  using assms by (auto simp: persistPKI_def PKIPaths_def Let_def split: if_splits)

lemma rotate_cert_keeps:
  assumes "LoadIdentity d = Some i" "rotate_cert csr pair cfg w i d srv = (err, d', srv')"
  shows "(PKIPaths d \<longrightarrow> PKIPaths d') \<and> (\<exists>i'. LoadIdentity d' = Some i' \<and> id_AssetID i' = id_AssetID i)"
proof (cases "d' = d")
  case False
  have i: "dd_identity d = Some i" "id_AssetID i \<noteq> []" using assms(1) by (auto simp: LoadIdentity_def split: option.splits if_splits)
  have "\<exists>n k c ca ok d1. persistPKI n k c ca d = (ok, d1) \<and> (d' = d1 \<or> (\<exists>na. d' = d1\<lparr>dd_identity := Some (i\<lparr>id_CertNotAfter := na\<rparr>)\<rparr>))"
    using assms(2) False
    by (auto simp: rotate_cert_def Let_def saveIdentity_def split: option.splits if_splits prod.splits) blast+
  then obtain n k c ca ok d1 where p: "persistPKI n k c ca d = (ok, d1)" and d': "d' = d1 \<or> (\<exists>na. d' = d1\<lparr>dd_identity := Some (i\<lparr>id_CertNotAfter := na\<rparr>)\<rparr>)"
    by blast
  from persistPKI_keeps [OF p] d' i show ?thesis by (auto simp: LoadIdentity_def PKIPaths_def)
qed (use assms in auto)

lemma MaybeRotate_keeps:
  assumes "LoadIdentity d = Some i" "PKIPaths d" "MaybeRotate csr pair cfg now w d srv = (d', srv')"
  shows "PKIPaths d' \<and> (\<exists>i'. LoadIdentity d' = Some i' \<and> id_AssetID i' = id_AssetID i)"
proof (cases "d' = d")
  case False
  with assms(1,3) obtain err where "rotate_cert csr pair cfg w i d srv = (err, d', srv')"
    by (auto simp: MaybeRotate_def split: if_splits) (metis prod.collapse)
  from rotate_cert_keeps [OF assms(1) this] assms(2) show ?thesis by simp
qed (use assms in auto)

lemma doRegisterGRPC_success:
  assumes "doRegisterGRPC csr a token e d srv = (Inr (asset, na), d', srv')"
  shows "PKIPaths d' \<and> asset \<noteq> []"
  using assms by (auto simp: doRegisterGRPC_def Let_def dest: persistPKI_keeps split: option.splits sum.splits if_splits prod.splits)

lemma ensure_loop_success:
  "ensure_loop csr token e as d srv = (EnsureReady asset, d', srv') \<Longrightarrow>
   PKIPaths d' \<and> (\<exists>i. LoadIdentity d' = Some i \<and> id_AssetID i = asset)"
proof (induction csr token e as d srv rule: ensure_loop.induct)
  case (2 csr token e a as d srv)
  obtain r d1 srv1 where r: "doRegisterGRPC csr a token e d srv = (r, d1, srv1)" by (metis prod.collapse)
  show ?case
  proof (cases r)
    case (Inl err)
    with 2 r show ?thesis by simp
  next
    case (Inr p)
    with "2.prems" r doRegisterGRPC_success [of csr a token e d srv "fst p" "snd p" d1 srv1] show ?thesis
      by (cases p) (auto simp: saveIdentity_def LoadIdentity_def PKIPaths_def Let_def split: if_splits)
  qed
qed simp


section \<open>Rotation happens in its window\<close>

text \<open>
  The files of the agent change only within the configured number of days before the
  certificate expires, after the present key pair was loaded and the gateway answered. The
  window is exact for every number of days up to 106751; above, it wraps around.
\<close>

theorem rotation_only_in_window:
  assumes "MaybeRotate csr pair cfg now w d srv = (d', srv')" "d' \<noteq> d"
    and "gc_RotateBeforeDays cfg \<le> 106751" "0 \<le> now" "now < 2 ^ 63"
  shows "\<exists>i k c. LoadIdentity d = Some i \<and> dd_key d = Some k \<and> dd_cert d = Some c \<and> pair k c \<and>
    fst (ro_rpc w \<lparr>rr_AssetId = id_AssetID i, rr_CsrDer = csr (the (ro_key w)) (''rotate-'' @ id_AssetID i)\<rparr> srv) \<noteq> None \<and>
    id_CertNotAfter i * 1000000000 \<le> now + (if gc_RotateBeforeDays cfg \<le> 0 then 30 else gc_RotateBeforeDays cfg) * day_ns"
proof -
  let ?n = "if gc_RotateBeforeDays cfg \<le> 0 then 30 else gc_RotateBeforeDays cfg"
  obtain i where i: "LoadIdentity d = Some i" and win: "saturate64 (id_CertNotAfter i * 1000000000 - now) \<le> rotate_window cfg"
    and r: "d' = fst (snd (rotate_cert csr pair cfg w i d srv))"
    using assms(1,2) by (auto simp: MaybeRotate_def split: option.splits if_splits)
  have n: "0 < ?n" "?n \<le> 106751" using assms(3) by auto
  then have "?n * day_ns < 2 ^ 63 - 1" by (simp add: day_ns_def)
  moreover have "0 \<le> ?n * day_ns" using n by (simp add: day_ns_def)
  ultimately have "rotate_window cfg = ?n * day_ns" "rotate_window cfg < 2 ^ 63 - 1"
    by (simp_all add: rotate_window_def wrap64_id)
  with win have "id_CertNotAfter i * 1000000000 - now \<le> ?n * day_ns" by (auto simp: saturate64_def)
  moreover have "\<exists>k c. dd_key d = Some k \<and> dd_cert d = Some c \<and> pair k c \<and>
      fst (ro_rpc w \<lparr>rr_AssetId = id_AssetID i, rr_CsrDer = csr (the (ro_key w)) (''rotate-'' @ id_AssetID i)\<rparr> srv) \<noteq> None"
    using r assms(2) by (auto simp: rotate_cert_def Let_def split: option.splits if_splits prod.splits)
  ultimately show ?thesis using i by (auto simp: algebra_simps)
qed

text \<open>The window of 106752 days is negative, so that nothing is rotated before it expires.\<close>

lemma rotate_window_wraps: "gc_RotateBeforeDays cfg = 106752 \<Longrightarrow> rotate_window cfg < 0"
  by (simp add: rotate_window_def day_ns_def wrap64_def)

section \<open>A lost answer\<close>

text \<open>The call as the agent sees it: the platform acts, the answer may get lost.\<close>

definition bootstrap_rpc ::
  "(bytes \<Rightarrow> bytes) \<Rightarrow> (bytes \<Rightarrow> csr option) \<Rightarrow> (cert_template \<Rightarrow> bytes \<Rightarrow> bytes option) \<Rightarrow> reg_world \<Rightarrow> BootstrapServer \<Rightarrow> bool \<Rightarrow>
   RegisterRequest \<Rightarrow> Store \<Rightarrow> RegisterResponse option \<times> Store" where
  "bootstrap_rpc sha parse create w b arrives req st =
     (case bs_Register sha parse create w b req st of
        (Inr r, st1) \<Rightarrow> (if arrives then Some r else None, st1)
      | (Inl _, st1) \<Rightarrow> (None, st1))"

text \<open>
  Every attempt draws a new key, but all attempts share the enrolment id. When the platform
  completed the first attempt and its answer was lost, the retry is answered with the
  certificate of the first key: start-up reports success with a private key that does not
  belong to the certificate, which no later start repairs. The assumptions on the parameters
  are what X.509 provides: a request and a certificate carry the key they were made for, a
  key pair loads exactly when they match.
\<close>

theorem retry_splits_key_and_certificate:
  assumes ca: "\<forall>t p der. create t p = Some der \<longrightarrow> der \<noteq> [] \<and> pub_in der = p"
    and req: "\<forall>k cn. csr k cn \<noteq> [] \<and> parse (csr k cn) = Some \<lparr>csr_sigOK = True, csr_key = Some (pubkey k)\<rparr>"
    and pair: "\<forall>k c. pair k c \<longleftrightarrow> pub_in c = pubkey k" and keys: "pubkey k1 \<noteq> pubkey k2"
    and first: "st_enrollment st e = None" "bs_caDER b \<noteq> []"
      "bs_Register sha parse create w1 b \<lparr>rq_EnrollmentRequestId = e, rq_BootstrapToken = token, rq_Materials = at_materials a1, rq_CsrDer = csr k1 (''pending-'' @ take 8 e)\<rparr> st
        = (Inr resp, st1)"
    and a1: "at_key a1 = Some k1" "at_tls a1 = Inr m1" "at_dial a1" "at_rpc a1 = bootstrap_rpc sha parse create w1 b False"
    and a2: "at_key a2 = Some k2" "at_tls a2 = Inr m2" "at_dial a2" "at_rpc a2 = bootstrap_rpc sha parse create w2 b True" "rgw_find w2"
      "at_persist a2 = 3" "at_save a2"
  shows "\<exists>d' cert. ensure_loop csr token e [a1, a2] d st = (EnsureReady (rp_AssetId resp), d', st1) \<and>
    dd_key d' = Some k2 \<and> dd_cert d' = Some cert \<and> \<not> pair k2 cert"
proof -
  let ?req = "\<lambda>k m. \<lparr>rq_EnrollmentRequestId = e, rq_BootstrapToken = token, rq_Materials = m, rq_CsrDer = csr k (''pending-'' @ take 8 e)\<rparr>"
  have ne: "\<forall>t p. create t p \<noteq> Some []" using ca by blast
  have again: "bs_Register sha parse create w2 b (?req k2 (at_materials a2)) st1 = (Inr resp, st1)"
    by (rule Register_again [OF ne first(3) a2(5)]) simp_all
  have "parseCSR parse (csr k1 (''pending-'' @ take 8 e)) = Inr (pubkey k1)" using req by (simp add: parseCSR_def)
  with Register_new [OF first(3)] first(1) obtain t where
    "create t (pubkey k1) = Some (rp_CertificateDer resp)" "rp_AssetId resp = asset_of_key sha (pubkey k1)" by auto
  then have cert: "pub_in (rp_CertificateDer resp) = pubkey k1" "rp_CertificateDer resp \<noteq> []" "rp_AssetId resp \<noteq> []"
    using ca by (auto simp: asset_of_key_def)
  have "rp_CaDer resp = bs_caDER b"
    using first(3) by (rule Register_success_cases) (auto elim: enrol_success)
  then have "doRegisterGRPC csr a1 token e d st = (Inl RpcFailed, d, st1)"
    "doRegisterGRPC csr a2 token e d st1 = (Inr (rp_AssetId resp, rp_NotAfter resp),
       d\<lparr>dd_key := Some k2, dd_cert := Some (rp_CertificateDer resp), dd_ca := Some (bs_caDER b)\<rparr>, st1)"
    using a1 a2 first(2,3) again cert(2,3)
    by (simp_all add: doRegisterGRPC_def bootstrap_rpc_def persistPKI_def)
  then show ?thesis using a2(7) cert(1) keys pair by (simp add: saveIdentity_def)
qed

section \<open>Sample runs\<close>

definition sample_attempt :: "nat \<Rightarrow> bool \<Rightarrow> (nat, Store) attempt" where
  "sample_attempt k arrives = \<lparr>at_key = Some k, at_tls = Inr SkipVerify, at_dial = True,
     at_rpc = bootstrap_rpc sample_sha sample_parse sample_create sample_world sample_bs arrives, at_materials = [], at_persist = 3, at_save = True, at_now = 0\<rparr>"

definition sample_csr :: "nat \<Rightarrow> string \<Rightarrow> bytes" where
  "sample_csr k cn = [word_of_nat k]"

definition sample_pair :: "nat \<Rightarrow> bytes \<Rightarrow> bool" where
  "sample_pair k c \<longleftrightarrow> tl c = [word_of_nat k]"

definition no_files :: "nat datadir" where
  "no_files = \<lparr>dd_identity = None, dd_key = None, dd_cert = None, dd_ca = None\<rparr>"

definition sample_regconf :: RegConf where
  "sample_regconf = \<lparr>gc_AssetID = [], gc_BootstrapToken = ''tok'', gc_BootstrapAddr = ''gw'', gc_BootstrapCAFile = [],
     gc_RotateBeforeDays = 30, gc_UplinkMode = ''grpc'', gc_UplinkAddr = ''gw'', gc_UplinkHTTPAddr = [], gc_UplinkServerName = ''gw''\<rparr>"

lemma sample_first: "\<exists>st1. bs_Register sample_sha sample_parse sample_create sample_world sample_bs
    \<lparr>rq_EnrollmentRequestId = ''e1'', rq_BootstrapToken = ''tok'', rq_Materials = [], rq_CsrDer = sample_csr 5 (''pending-'' @ take 8 ''e1'')\<rparr> empty_store =
    (Inr sample_response, st1)"
  using sample_registered by (simp add: sample_request_def sample_csr_def)

theorem retry_splits_key_and_certificate_witness:
  "\<exists>d' st1 cert. ensure_loop sample_csr ''tok'' ''e1'' [sample_attempt 5 False, sample_attempt 6 True] no_files empty_store =
     (EnsureReady (rp_AssetId sample_response), d', st1) \<and> dd_key d' = Some 6 \<and> dd_cert d' = Some cert \<and> \<not> sample_pair 6 cert"
proof -
  obtain st1 where f: "bs_Register sample_sha sample_parse sample_create sample_world sample_bs
      \<lparr>rq_EnrollmentRequestId = ''e1'', rq_BootstrapToken = ''tok'', rq_Materials = [], rq_CsrDer = sample_csr 5 (''pending-'' @ take 8 ''e1'')\<rparr> empty_store =
      (Inr sample_response, st1)" using sample_first by blast
  have "\<forall>t p der. sample_create t p = Some der \<longrightarrow> der \<noteq> [] \<and> tl der = p" by (auto simp: sample_create_def)
  moreover have "\<forall>k cn. sample_csr k cn \<noteq> [] \<and> sample_parse (sample_csr k cn) = Some \<lparr>csr_sigOK = True, csr_key = Some [word_of_nat k]\<rparr>"
    by (simp add: sample_csr_def sample_parse_def)
  moreover have "\<forall>k c. sample_pair k c \<longleftrightarrow> tl c = [word_of_nat k]" by (simp add: sample_pair_def)
  moreover have "[word_of_nat 5 :: byte] \<noteq> [word_of_nat 6]" by simp
  ultimately show ?thesis
    using retry_splits_key_and_certificate [where create = sample_create and pub_in = tl and csr = sample_csr and parse = sample_parse
      and pubkey = "\<lambda>k. [word_of_nat k]" and pair = sample_pair and ?k1.0 = 5 and ?k2.0 = 6 and st = empty_store and e = "''e1''"
      and b = sample_bs and sha = sample_sha and ?w1.0 = sample_world and token = "''tok''" and resp = sample_response and ?st1.0 = st1
      and ?a1.0 = "sample_attempt 5 False" and ?m1.0 = SkipVerify and ?a2.0 = "sample_attempt 6 True" and ?m2.0 = SkipVerify
      and ?w2.0 = sample_world and d = no_files] f
    by (simp add: sample_attempt_def sample_world_def empty_store_def sample_bs_def NewBootstrapServer_def del: ensure_loop.simps) blast
qed

lemma sample_ensured:
  "\<exists>d' st1. EnsureIdentity sample_csr sample_pair sample_regconf 0 (w :: (nat, Store) rot_world) ''e1'' [sample_attempt 5 True] no_files empty_store =
     (EnsureReady (rp_AssetId sample_response), d', st1)"
proof -
  obtain st1 where f: "bs_Register sample_sha sample_parse sample_create sample_world sample_bs
      \<lparr>rq_EnrollmentRequestId = ''e1'', rq_BootstrapToken = ''tok'', rq_Materials = [], rq_CsrDer = sample_csr 5 (''pending-'' @ take 8 ''e1'')\<rparr> empty_store =
      (Inr sample_response, st1)" using sample_first by blast
  have "rp_AssetId sample_response \<noteq> []" by (simp add: sample_response_def asset_of_key_def)
  then have "\<exists>d'. doRegisterGRPC sample_csr (sample_attempt 5 True) ''tok'' ''e1'' no_files empty_store =
      (Inr (rp_AssetId sample_response, rp_NotAfter sample_response), d', st1)"
    using f by (simp add: doRegisterGRPC_def sample_attempt_def bootstrap_rpc_def persistPKI_def sample_response_def)
  then show ?thesis
    by (auto simp: EnsureIdentity_def LoadIdentity_def no_files_def sample_regconf_def saveIdentity_def sample_attempt_def)
qed


theorem rotation_only_in_window_witness:
  "\<exists>d' srv'. MaybeRotate sample_csr sample_pair sample_regconf 7
     \<lparr>ro_key = Some 6, ro_caOK = True, ro_host = None, ro_dial = True, ro_rpc = (\<lambda>r s. (Some ([1, 6], 99), s)), ro_persist = 3, ro_save = True\<rparr>
     \<lparr>dd_identity = Some \<lparr>id_AssetID = ''h'', id_EnrollmentRequestID = [], id_RegisteredAt = 0, id_CertNotAfter = 50\<rparr>, dd_key = Some 5,
       dd_cert = Some [1, 5], dd_ca = Some [9]\<rparr> (0 :: nat) = (d', srv') \<and> dd_key d' = Some 6 \<and> (50 :: int) * 1000000000 \<le> 7 + 30 * day_ns"
proof -
  let ?i = "\<lparr>id_AssetID = ''h'', id_EnrollmentRequestID = [], id_RegisteredAt = 0, id_CertNotAfter = 50\<rparr>"
  let ?d = "\<lparr>dd_identity = Some ?i, dd_key = Some 5, dd_cert = Some [1, 5], dd_ca = Some [9]\<rparr> :: nat datadir"
  let ?w = "\<lparr>ro_key = Some 6, ro_caOK = True, ro_host = None, ro_dial = True, ro_rpc = (\<lambda>r s. (Some ([1, 6], 99), s)), ro_persist = 3,
    ro_save = True\<rparr> :: (nat, nat) rot_world"
  let ?d' = "\<lparr>dd_identity = Some (?i\<lparr>id_CertNotAfter := 99\<rparr>), dd_key = Some 6, dd_cert = Some [1, 6], dd_ca = Some [9]\<rparr> :: nat datadir"
  have win: "rotate_window sample_regconf = 30 * day_ns" by (simp add: rotate_window_def sample_regconf_def day_ns_def wrap64_def)
  have m: "MaybeRotate sample_csr sample_pair sample_regconf 7 ?w ?d 0 = (?d', 0)"
    unfolding MaybeRotate_def win
    by (simp add: LoadIdentity_def PKIPaths_def saturate64_def day_ns_def rotate_cert_def sample_pair_def sample_regconf_def
        persistPKI_def saveIdentity_def)
  from rotation_only_in_window [OF m] m show ?thesis by (auto simp: LoadIdentity_def sample_regconf_def)
qed

end
