(* ===== verification/Iam.thy ===== *)
theory Iam
  imports Text_Codec "HOL-Library.AList"
begin

unbundle bit_operations_syntax

text \<open>
  \<^verbatim>\<open>internal/iam\<close>: password hashes, one-time codes, session tokens, the role table and the
  operator, session and audit tables. PBKDF2, HMAC-SHA1 and SHA-256 are parameters; random
  bytes, clock readings and failing database calls are inputs.
\<close>

section \<open>Passwords (\<^verbatim>\<open>password.go\<close>)\<close>

definition pbkdf2Iterations :: nat where
  "pbkdf2Iterations = 100000"

definition pbkdf2KeyBytes :: nat where
  "pbkdf2KeyBytes = 32"

text \<open>
  \<open>kdf password salt iterations length\<close> is the derived key, or \<open>None\<close> for an error. \<open>rnd\<close>
  is the salt that the random source gave.
\<close>

type_synonym kdf = "string \<Rightarrow> bytes \<Rightarrow> nat \<Rightarrow> nat \<Rightarrow> bytes option"

definition HashPassword :: "kdf \<Rightarrow> bytes option \<Rightarrow> string \<Rightarrow> string option" where
  "HashPassword kdf rnd password =
     (case rnd of
        None \<Rightarrow> None
      | Some salt \<Rightarrow>
          (case kdf password salt pbkdf2Iterations pbkdf2KeyBytes of
             None \<Rightarrow> None
           | Some key \<Rightarrow> Some (''pbkdf2$'' @ dec_digits pbkdf2Iterations @ ''$'' @ base64_encode salt @ ''$'' @ base64_encode key)))"

definition VerifyPassword :: "kdf \<Rightarrow> string \<Rightarrow> string \<Rightarrow> bool" where
  "VerifyPassword kdf password stored =
     (case go_Split (CHR ''$'') stored of
        [p0, p1, p2, p3] \<Rightarrow>
          if p0 \<noteq> ''pbkdf2'' then False
          else (case go_Atoi p1 of
                  None \<Rightarrow> False
                | Some iter \<Rightarrow>
                    if iter \<le> 0 then False
                    else (case base64_decode p2 of
                            None \<Rightarrow> False
                          | Some salt \<Rightarrow>
                              (case base64_decode p3 of
                                 None \<Rightarrow> False
                               | Some want \<Rightarrow>
                                   (case kdf password salt (nat iter) (length want) of
                                      None \<Rightarrow> False
                                    | Some got \<Rightarrow> got = want))))
      | _ \<Rightarrow> False)"

section \<open>Roles (\<^verbatim>\<open>rbac.go\<close>)\<close>

abbreviation "RoleAdmin \<equiv> ''admin''"
abbreviation "RoleOperator \<equiv> ''operator''"
abbreviation "RoleAuditor \<equiv> ''auditor''"
abbreviation "PermUserManage \<equiv> ''user.manage''"
abbreviation "PermCommandSubmit \<equiv> ''command.submit''"
abbreviation "PermCommandCancel \<equiv> ''command.cancel''"
abbreviation "PermCommandResult \<equiv> ''command.result''"
abbreviation "PermAssetView \<equiv> ''asset.view''"
abbreviation "PermAdmin \<equiv> ''*''"

definition rolePerms :: "string \<Rightarrow> string list option" where
  "rolePerms role =
     (if role = RoleAdmin then Some [''*'']
      else if role = RoleOperator then Some [PermCommandSubmit, PermCommandCancel, PermCommandResult, PermAssetView]
      else if role = RoleAuditor then Some [PermCommandResult, PermAssetView]
      else None)"

definition ValidRole :: "string \<Rightarrow> bool" where
  "ValidRole role \<longleftrightarrow> rolePerms role \<noteq> None"

definition HasPermission :: "string \<Rightarrow> string \<Rightarrow> bool" where
  "HasPermission role perm = (case rolePerms role of None \<Rightarrow> False | Some ps \<Rightarrow> ''*'' \<in> set ps \<or> perm \<in> set ps)"

text \<open>The list is in map iteration order, so only its set is determined.\<close>

definition PermissionsOf :: "string \<Rightarrow> string list" where
  "PermissionsOf role = (case rolePerms role of None \<Rightarrow> [] | Some ps \<Rightarrow> ps)"

section \<open>Session tokens (\<^verbatim>\<open>session.go\<close>)\<close>

definition NewToken :: "bytes option \<Rightarrow> string option" where
  "NewToken rnd = map_option hex_encode rnd"

definition TokenHash :: "(bytes \<Rightarrow> bytes) \<Rightarrow> string \<Rightarrow> string" where
  "TokenHash sha token = hex_encode (sha (bytes_of token))"

section \<open>One-time codes (\<^verbatim>\<open>totp.go\<close>)\<close>

definition totpDigits :: nat where
  "totpDigits = 6"

definition GenerateSecret :: "bytes option \<Rightarrow> string option" where
  "GenerateSecret rnd = map_option base32_encode rnd"

text \<open>
  \<open>hmac key message\<close> is HMAC-SHA1, 20 bytes long, so that the slice of four bytes at an offset
  of at most 15 is within it.
\<close>

definition codeAt :: "(bytes \<Rightarrow> bytes \<Rightarrow> bytes) \<Rightarrow> string \<Rightarrow> 64 word \<Rightarrow> string option" where
  "codeAt hmac secret counter =
     (case base32_decode (go_ToUpper secret) of
        None \<Rightarrow> None
      | Some key \<Rightarrow>
          (let sum = hmac key (put_uint64 counter);
               off = unat (last sum AND 0x0F);
               v = unat (get_uint32 (take 4 (drop off sum)) AND 0x7FFFFFFF);
               ds = dec_digits (v mod 1000000)
           in Some (replicate (totpDigits - length ds) (CHR ''0'') @ ds)))"

text \<open>Go's division truncates towards zero.\<close>

definition totp_counter :: "int \<Rightarrow> 64 word" where
  "totp_counter at = word_of_int (sgn at * (\<bar>at\<bar> div 30))"

fun totp_window :: "(bytes \<Rightarrow> bytes \<Rightarrow> bytes) \<Rightarrow> string \<Rightarrow> string \<Rightarrow> 64 word \<Rightarrow> int list \<Rightarrow> bool" where
  "totp_window hmac secret code counter [] = False"
| "totp_window hmac secret code counter (w # ws) =
     (if counter = 0 \<and> w < 0 then totp_window hmac secret code counter ws
      else case codeAt hmac secret (counter + word_of_int w) of
             None \<Rightarrow> False
           | Some want \<Rightarrow> if want = code then True else totp_window hmac secret code counter ws)"

definition totp_Verify :: "(bytes \<Rightarrow> bytes \<Rightarrow> bytes) \<Rightarrow> string \<Rightarrow> string \<Rightarrow> int \<Rightarrow> bool" where
  "totp_Verify hmac secret code at =
     (if length code \<noteq> totpDigits then False else totp_window hmac secret code (totp_counter at) [-1, 0, 1])"

text \<open>
  \<^verbatim>\<open>url.PathEscape\<close> and \<^verbatim>\<open>url.QueryEscape\<close>; \<^verbatim>\<open>Values.Encode\<close> sorts by key.
\<close>

definition unreserved :: "char \<Rightarrow> bool" where
  "unreserved c \<longleftrightarrow> (let n = (of_char c :: nat) in 48 \<le> n \<and> n \<le> 57 \<or> 65 \<le> n \<and> n \<le> 90 \<or> 97 \<le> n \<and> n \<le> 122) \<or>
     c \<in> set ''-_.~''"

definition upper_hex :: "nat \<Rightarrow> char" where
  "upper_hex n = char_of (if n < 10 then n + 48 else n + 55)"

definition percent :: "char \<Rightarrow> string" where
  "percent c = [CHR ''%'', upper_hex (of_char c div 16), upper_hex (of_char c mod 16)]"

definition PathEscape :: "string \<Rightarrow> string" where
  "PathEscape s = concat (map (\<lambda>c. if unreserved c \<or> c \<in> set ''$&+:=@'' then [c] else percent c) s)"

definition QueryEscape :: "string \<Rightarrow> string" where
  "QueryEscape s = concat (map (\<lambda>c. if unreserved c then [c] else if c = CHR '' '' then ''+'' else percent c) s)"

definition OtpauthURL :: "string \<Rightarrow> string \<Rightarrow> string \<Rightarrow> string" where
  "OtpauthURL issuer username secret =
     ''otpauth://totp/'' @ PathEscape issuer @ '':'' @ PathEscape username @
     ''?algorithm=SHA1&digits=6&issuer='' @ QueryEscape issuer @ ''&period=30&secret='' @ QueryEscape secret"

section \<open>The tables (\<^verbatim>\<open>store.go\<close>, \<^verbatim>\<open>db/ddl/002_iam.sql\<close>, \<^verbatim>\<open>003_audit.sql\<close>)\<close>

record UserInfo =
  u_PasswordHash :: string
  u_Role :: string
  u_TOTPSecret :: string
  u_TOTPConfirmed :: bool
  u_Status :: string

record user_row =
  uw_password_hash :: string
  uw_role :: string
  uw_totp_secret :: "string option"
  uw_totp_confirmed :: bool
  uw_status :: string

record session_row =
  sw_session_id :: nat
  sw_token_hash :: string
  sw_username :: string
  sw_created_at :: int
  sw_expires_at :: int

record SessionInfo =
  si_SessionID :: nat
  si_Username :: string
  si_CreatedAt :: int
  si_ExpiresAt :: int

record AuditEntry =
  ae_AuditID :: nat
  ae_Actor :: string
  ae_Action :: string
  ae_Target :: string
  ae_Result :: string
  ae_ClientIP :: string
  ae_Detail :: bytes
  ae_CreatedAt :: int

record audit_row =
  aw_id :: nat
  aw_actor :: string
  aw_action :: string
  aw_target :: "string option"
  aw_result :: string
  aw_client_ip :: "string option"
  aw_detail :: "bytes option"
  aw_created_at :: int

text \<open>
  Rows are in insertion order; the user name is unique, so the table of operators is an
  association list. The counters are the sequences behind the \<^verbatim>\<open>BIGSERIAL\<close> keys.
\<close>

record IamStore =
  is_users :: "(string \<times> user_row) list"
  is_sessions :: "session_row list"
  is_audit :: "audit_row list"
  is_next_session :: nat
  is_next_audit :: nat

definition empty_iam :: IamStore where
  "empty_iam = \<lparr>is_users = [], is_sessions = [], is_audit = [], is_next_session = 1, is_next_audit = 1\<rparr>"

datatype iam_error = ErrNotFound | ErrDuplicateUser | IamDbError

subsection \<open>Operators\<close>

definition CreateUser :: "bool \<Rightarrow> string \<Rightarrow> string \<Rightarrow> string \<Rightarrow> IamStore \<Rightarrow> iam_error option \<times> IamStore" where
  "CreateUser db username passwordHash role st =
     (if \<not> db then (Some IamDbError, st)
      else if map_of (is_users st) username \<noteq> None then (Some ErrDuplicateUser, st)
      else (None, st\<lparr>is_users := is_users st @ [(username, \<lparr>uw_password_hash = passwordHash, uw_role = role,
                      uw_totp_secret = None, uw_totp_confirmed = False, uw_status = ''active''\<rparr>)]\<rparr>))"

definition FindUser :: "bool \<Rightarrow> string \<Rightarrow> IamStore \<Rightarrow> iam_error + UserInfo" where
  "FindUser db username st =
     (if \<not> db then Inl IamDbError
      else case map_of (is_users st) username of
        None \<Rightarrow> Inl ErrNotFound
      | Some r \<Rightarrow> Inr \<lparr>u_PasswordHash = uw_password_hash r, u_Role = uw_role r,
                      u_TOTPSecret = (case uw_totp_secret r of None \<Rightarrow> [] | Some s \<Rightarrow> s),
                      u_TOTPConfirmed = uw_totp_confirmed r, u_Status = uw_status r\<rparr>)"

definition update_user :: "string \<Rightarrow> (user_row \<Rightarrow> user_row) \<Rightarrow> IamStore \<Rightarrow> IamStore" where
  "update_user username f st = st\<lparr>is_users := map (\<lambda>(u, r). (u, if u = username then f r else r)) (is_users st)\<rparr>"

definition SetTOTPSecret :: "bool \<Rightarrow> string \<Rightarrow> string \<Rightarrow> IamStore \<Rightarrow> iam_error option \<times> IamStore" where
  "SetTOTPSecret db username secret st =
     (if \<not> db then (Some IamDbError, st)
      else (None, update_user username (\<lambda>r. r\<lparr>uw_totp_secret := Some secret, uw_totp_confirmed := False\<rparr>) st))"

definition ConfirmTOTP :: "bool \<Rightarrow> string \<Rightarrow> IamStore \<Rightarrow> iam_error option \<times> IamStore" where
  "ConfirmTOTP db username st =
     (if \<not> db then (Some IamDbError, st)
      else (None, update_user username (\<lambda>r. if uw_totp_secret r \<noteq> None then r\<lparr>uw_totp_confirmed := True\<rparr> else r) st))"

definition UserCount :: "bool \<Rightarrow> IamStore \<Rightarrow> iam_error + nat" where
  "UserCount db st = (if \<not> db then Inl IamDbError else Inr (length (is_users st)))"

subsection \<open>Sessions\<close>

text \<open>A token hash that exists already violates the unique constraint.\<close>

definition CreateSession :: "bool \<Rightarrow> int \<Rightarrow> string \<Rightarrow> string \<Rightarrow> int \<Rightarrow> IamStore \<Rightarrow> (iam_error + int) \<times> IamStore" where
  "CreateSession db now username tokenHash ttl st =
     (let expires = now + ttl
      in if \<not> db then (Inl IamDbError, st)
         else if \<exists>r \<in> set (is_sessions st). sw_token_hash r = tokenHash
         then (Inl IamDbError, st\<lparr>is_next_session := Suc (is_next_session st)\<rparr>)
         else (Inr expires, st\<lparr>is_next_session := Suc (is_next_session st),
                 is_sessions := is_sessions st @ [\<lparr>sw_session_id = is_next_session st, sw_token_hash = tokenHash,
                   sw_username = username, sw_created_at = now, sw_expires_at = expires\<rparr>]\<rparr>))"

definition FindSession :: "bool \<Rightarrow> string \<Rightarrow> IamStore \<Rightarrow> iam_error + string \<times> int" where
  "FindSession db tokenHash st =
     (if \<not> db then Inl IamDbError
      else case find (\<lambda>r. sw_token_hash r = tokenHash) (is_sessions st) of
        None \<Rightarrow> Inl ErrNotFound
      | Some r \<Rightarrow> Inr (sw_username r, sw_expires_at r))"

definition DeleteSession :: "bool \<Rightarrow> string \<Rightarrow> IamStore \<Rightarrow> iam_error option \<times> IamStore" where
  "DeleteSession db tokenHash st =
     (if \<not> db then (Some IamDbError, st)
      else (None, st\<lparr>is_sessions := filter (\<lambda>r. sw_token_hash r \<noteq> tokenHash) (is_sessions st)\<rparr>))"

definition ListSessions :: "bool \<Rightarrow> int \<Rightarrow> IamStore \<Rightarrow> iam_error + SessionInfo list" where
  "ListSessions db now st =
     (if \<not> db then Inl IamDbError
      else Inr (map (\<lambda>r. \<lparr>si_SessionID = sw_session_id r, si_Username = sw_username r, si_CreatedAt = sw_created_at r,
                          si_ExpiresAt = sw_expires_at r\<rparr>)
                  (sort_key (\<lambda>r. - sw_created_at r) (filter (\<lambda>r. sw_expires_at r > now) (is_sessions st)))))"

definition RevokeSession :: "bool \<Rightarrow> int \<Rightarrow> IamStore \<Rightarrow> iam_error option \<times> IamStore" where
  "RevokeSession db sessionID st =
     (if \<not> db then (Some IamDbError, st)
      else (let rest = filter (\<lambda>r. int (sw_session_id r) \<noteq> sessionID) (is_sessions st)
            in if rest = is_sessions st then (Some ErrNotFound, st)
               else (None, st\<lparr>is_sessions := rest\<rparr>)))"

definition DeleteExpiredSessions :: "bool \<Rightarrow> int \<Rightarrow> IamStore \<Rightarrow> (iam_error + nat) \<times> IamStore" where
  "DeleteExpiredSessions db now st =
     (if \<not> db then (Inl IamDbError, st)
      else (let rest = filter (\<lambda>r. \<not> sw_expires_at r < now) (is_sessions st)
            in (Inr (length (is_sessions st) - length rest), st\<lparr>is_sessions := rest\<rparr>)))"

subsection \<open>The audit log\<close>

definition nullable :: "'a list \<Rightarrow> 'a list option" where
  "nullable s = (if s \<noteq> [] then Some s else None)"

definition Audit :: "bool \<Rightarrow> int \<Rightarrow> AuditEntry \<Rightarrow> IamStore \<Rightarrow> iam_error option \<times> IamStore" where
  "Audit db now e st =
     (if \<not> db then (Some IamDbError, st)
      else (None, st\<lparr>is_next_audit := Suc (is_next_audit st),
              is_audit := is_audit st @ [\<lparr>aw_id = is_next_audit st, aw_actor = ae_Actor e, aw_action = ae_Action e,
                aw_target = nullable (ae_Target e), aw_result = ae_Result e, aw_client_ip = nullable (ae_ClientIP e),
                aw_detail = nullable (ae_Detail e), aw_created_at = now\<rparr>]\<rparr>))"

definition from_null :: "'a list option \<Rightarrow> 'a list" where
  "from_null x = (case x of None \<Rightarrow> [] | Some s \<Rightarrow> s)"

definition audit_entry :: "audit_row \<Rightarrow> AuditEntry" where
  "audit_entry r = \<lparr>ae_AuditID = aw_id r, ae_Actor = aw_actor r, ae_Action = aw_action r, ae_Target = from_null (aw_target r),
     ae_Result = aw_result r, ae_ClientIP = from_null (aw_client_ip r), ae_Detail = from_null (aw_detail r),
     ae_CreatedAt = aw_created_at r\<rparr>"

definition ListAudit :: "bool \<Rightarrow> nat \<Rightarrow> IamStore \<Rightarrow> iam_error + AuditEntry list" where
  "ListAudit db limit st =
     (if \<not> db then Inl IamDbError
      else Inr (take limit (map audit_entry (rev (sort_key aw_id (is_audit st))))))"

section \<open>Passwords verify exactly themselves\<close>

lemma VerifyPassword_hash:
  assumes hash: "HashPassword kdf (Some salt) p = Some h"
    and len: "\<forall>q s i n k. kdf q s i n = Some k \<longrightarrow> length k = n"
  shows "VerifyPassword kdf q h \<longleftrightarrow> kdf q salt pbkdf2Iterations pbkdf2KeyBytes = kdf p salt pbkdf2Iterations pbkdf2KeyBytes"
proof -
  obtain key where k: "kdf p salt pbkdf2Iterations pbkdf2KeyBytes = Some key"
    and h: "h = ''pbkdf2'' @ CHR ''$'' # dec_digits pbkdf2Iterations @ CHR ''$'' # base64_encode salt @ CHR ''$'' # base64_encode key"
    using hash by (auto simp: HashPassword_def split: option.splits)
  have "CHR ''$'' \<notin> set (dec_digits pbkdf2Iterations)" by (rule dec_digits_not) simp
  then have "go_Split (CHR ''$'') h = [''pbkdf2'', dec_digits pbkdf2Iterations, base64_encode salt, base64_encode key]"
    unfolding h by (simp add: go_Split_at go_Split_none base64_encode_not)
  moreover have "go_Atoi (dec_digits pbkdf2Iterations) = Some 100000"
    using go_Atoi_dec [of pbkdf2Iterations] by (simp add: pbkdf2Iterations_def)
  moreover have "length key = pbkdf2KeyBytes" using len k by blast
  ultimately show ?thesis
    using k by (auto simp: VerifyPassword_def base64_roundtrip pbkdf2Iterations_def split: option.splits)
qed

text \<open>
  A stored password hash accepts exactly the passwords that PBKDF2 maps to the same key under the
  hash's own salt, the original one among them: splitting at the dollar signs, the
  iteration count and both base64 fields come back as they were written. PBKDF2 is assumed
  to return as many bytes as it is asked for.
\<close>

theorem password_roundtrip:
  assumes hash: "HashPassword kdf (Some salt) p = Some h"
    and len: "\<forall>q s i n k. kdf q s i n = Some k \<longrightarrow> length k = n"
  shows "VerifyPassword kdf q h \<longleftrightarrow> kdf q salt pbkdf2Iterations pbkdf2KeyBytes = kdf p salt pbkdf2Iterations pbkdf2KeyBytes"
  using assms by (rule VerifyPassword_hash)

definition sample_kdf :: kdf where
  "sample_kdf p s i n = Some (take n (bytes_of p @ replicate n 0))"

theorem password_roundtrip_witness:
  "\<exists>h. HashPassword sample_kdf (Some [7, 8]) ''S3cret!2026'' = Some h \<and>
     VerifyPassword sample_kdf ''S3cret!2026'' h \<and> \<not> VerifyPassword sample_kdf ''wrong'' h"
proof -
  obtain h where h: "HashPassword sample_kdf (Some [7, 8]) ''S3cret!2026'' = Some h"
    by (simp add: HashPassword_def sample_kdf_def)
  have len: "\<forall>q s i n k. sample_kdf q s i n = Some k \<longrightarrow> length k = n" by (auto simp: sample_kdf_def)
  have "sample_kdf ''wrong'' [7, 8] i 32 \<noteq> sample_kdf ''S3cret!2026'' [7, 8] i 32" for i
    by (simp add: sample_kdf_def bytes_of_def numeral_eq_Suc of_char_inj)
  with password_roundtrip [OF h len] h show ?thesis by (simp add: pbkdf2KeyBytes_def)
qed

section \<open>The window of one-time codes\<close>

lemma length_codeAt: "codeAt hmac secret c = Some code \<Longrightarrow> length code = totpDigits"
proof -
  have "length (dec_digits (v mod 1000000)) \<le> 6" for v by (rule length_dec_digits) simp_all
  then show "codeAt hmac secret c = Some code \<Longrightarrow> length code = totpDigits"
    by (auto simp: codeAt_def totpDigits_def Let_def split: option.splits)
qed

lemma codeAt_None: "codeAt hmac secret c = None \<longleftrightarrow> base32_decode (go_ToUpper secret) = None"
  by (simp add: codeAt_def Let_def split: option.splits)

lemma totp_counter_nonneg: "0 \<le> at \<Longrightarrow> totp_counter at = word_of_int (at div 30)"
  by (cases "at = 0") (simp_all add: totp_counter_def)

lemma totp_window_iff:
  "totp_window hmac secret code k ws \<longleftrightarrow>
     (\<exists>w \<in> set ws. \<not> (k = 0 \<and> w < 0) \<and> codeAt hmac secret (k + word_of_int w) = Some code)"
proof (cases "base32_decode (go_ToUpper secret)")
  case None
  then have "codeAt hmac secret c = None" for c by (simp add: codeAt_None)
  moreover from this have "\<not> totp_window hmac secret code k ws" by (induction ws) auto
  ultimately show ?thesis by auto
next
  case (Some key)
  then have "\<forall>c. \<exists>x. codeAt hmac secret c = Some x" using codeAt_None [of hmac secret] by auto
  then obtain f where "codeAt hmac secret = (\<lambda>c. Some (f c))" by metis
  then show ?thesis by (induction ws) auto
qed

lemma steps_around:
  fixes k :: int
  assumes "0 \<le> k"
  shows "(\<exists>w \<in> {-1, 0, 1}. \<not> (k = 0 \<and> w < 0) \<and> P (k + w)) \<longleftrightarrow> (\<exists>c. 0 \<le> c \<and> \<bar>c - k\<bar> \<le> 1 \<and> P c)"
proof (intro iffI; elim bexE exE conjE)
  fix w assume "w \<in> {-1, 0, 1}" "\<not> (k = 0 \<and> w < 0)" "P (k + w)"
  with assms show "\<exists>c. 0 \<le> c \<and> \<bar>c - k\<bar> \<le> 1 \<and> P c" by (intro exI [of _ "k + w"]) auto
next
  fix c assume "0 \<le> c" "\<bar>c - k\<bar> \<le> 1" "P c"
  then show "\<exists>w \<in> {-1, 0, 1}. \<not> (k = 0 \<and> w < 0) \<and> P (k + w)" by (intro bexI [of _ "c - k"]) auto
qed

text \<open>
  At a time after the epoch a code is accepted exactly when it is the code of the current step, the
  step before or the step after; a code that was current at most thirty seconds earlier or
  later is therefore accepted, whatever its position within its step.
\<close>

theorem totp_accepts_window:
  assumes "0 \<le> at" "at < 2 ^ 63"
  shows "(totp_Verify hmac secret code at \<longleftrightarrow>
      (\<exists>c. 0 \<le> c \<and> \<bar>c - at div 30\<bar> \<le> 1 \<and> codeAt hmac secret (word_of_int c) = Some code)) \<and>
    (\<forall>t. 0 \<le> t \<and> \<bar>t - at\<bar> \<le> 30 \<and> codeAt hmac secret (totp_counter t) = Some code \<longrightarrow> totp_Verify hmac secret code at)"
proof (intro conjI allI impI)
  let ?k = "at div 30"
  have k: "totp_counter at = word_of_int ?k" "0 \<le> ?k" using assms(1) by (simp_all add: totp_counter_nonneg)
  have "?k < 2 ^ 63" using assms by linarith
  then have zero: "(word_of_int ?k :: 64 word) = 0 \<longleftrightarrow> ?k = 0"
    using k(2) by (auto simp: word_of_int_eq_0_iff zdvd_not_zless)
  have sum: "(word_of_int ?k + word_of_int w :: 64 word) = word_of_int (?k + w)" for w by simp
  have v: "totp_Verify hmac secret code at \<longleftrightarrow> length code = totpDigits \<and>
      (\<exists>w \<in> {-1, 0, 1}. \<not> (?k = 0 \<and> w < 0) \<and> codeAt hmac secret (word_of_int (?k + w)) = Some code)"
    unfolding totp_Verify_def totp_window_iff k(1) sum zero by simp
  show iff: "totp_Verify hmac secret code at \<longleftrightarrow>
      (\<exists>c. 0 \<le> c \<and> \<bar>c - ?k\<bar> \<le> 1 \<and> codeAt hmac secret (word_of_int c) = Some code)"
    unfolding v steps_around [OF k(2), of "\<lambda>c. codeAt hmac secret (word_of_int c) = Some code"] using length_codeAt by blast
  fix t assume t: "0 \<le> t \<and> \<bar>t - at\<bar> \<le> 30 \<and> codeAt hmac secret (totp_counter t) = Some code"
  have "\<bar>t div 30 - ?k\<bar> \<le> 1" using t assms(1) by linarith
  moreover have "0 \<le> t div 30" using t by linarith
  ultimately show "totp_Verify hmac secret code at" using t iff totp_counter_nonneg by metis
qed

text \<open>The RFC test key, with a stand-in for HMAC that returns twenty bytes.\<close>

definition sample_hmac :: "bytes \<Rightarrow> bytes \<Rightarrow> bytes" where
  "sample_hmac key msg = take 20 (msg @ msg @ key @ replicate 20 0)"

theorem totp_accepts_window_witness:
  "totp_Verify sample_hmac ''GEZDGNBVGY3TQOJQ'' (the (codeAt sample_hmac ''GEZDGNBVGY3TQOJQ'' (totp_counter 59))) 89"
proof -
  have "base32_decode (go_ToUpper ''GEZDGNBVGY3TQOJQ'') \<noteq> None"
    by (simp add: base32_decode_def go_ToUpper_def strip_newlines_def base32_groups.simps alpha_index_def b32_alphabet_def)
  then obtain code where "codeAt sample_hmac ''GEZDGNBVGY3TQOJQ'' (totp_counter 59) = Some code"
    using codeAt_None [of sample_hmac "''GEZDGNBVGY3TQOJQ''" "totp_counter 59"] by auto
  with totp_accepts_window [of 89 sample_hmac "''GEZDGNBVGY3TQOJQ''" code] show ?thesis by auto
qed

text \<open>A generated secret is a valid key: its codes exist, and its URL carries it unescaped.\<close>

lemma GenerateSecret_usable:
  assumes "GenerateSecret (Some rnd) = Some s"
  shows "base32_decode (go_ToUpper s) = Some rnd" "codeAt hmac s c \<noteq> None" "QueryEscape s = s"
proof -
  have s: "s = base32_encode rnd" using assms by (simp add: GenerateSecret_def)
  then show d: "base32_decode (go_ToUpper s) = Some rnd" by (simp add: base32_upper base32_roundtrip)
  then show "codeAt hmac s c \<noteq> None" by (simp add: codeAt_None)
  have "\<forall>c \<in> set b32_alphabet. unreserved c" by (simp add: b32_alphabet_def unreserved_def)
  then have "map (\<lambda>c. if unreserved c then [c] else if c = CHR '' '' then ''+'' else percent c) s = map (\<lambda>c. [c]) s"
    unfolding s using base32_encode_chars [of rnd] by (intro map_cong) auto
  then show "QueryEscape s = s" by (simp only: QueryEscape_def concat_map_singleton list.map_ident)
qed

section \<open>Roles and tables\<close>

lemma HasPermission_iff:
  "HasPermission role perm \<longleftrightarrow> role = RoleAdmin \<or>
     role = RoleOperator \<and> perm \<in> {PermCommandSubmit, PermCommandCancel, PermCommandResult, PermAssetView} \<or>
     role = RoleAuditor \<and> perm \<in> {PermCommandResult, PermAssetView}"
  by (auto simp: HasPermission_def rolePerms_def)

lemma PermissionsOf_complete: "PermissionsOf role = [] \<and> \<not> ValidRole role \<or> ValidRole role \<and> PermissionsOf role \<noteq> []"
  by (auto simp: PermissionsOf_def ValidRole_def rolePerms_def)

definition iam_ok :: "IamStore \<Rightarrow> bool" where
  "iam_ok st \<longleftrightarrow> distinct (map fst (is_users st)) \<and> distinct (map sw_token_hash (is_sessions st)) \<and>
     distinct (map sw_session_id (is_sessions st)) \<and> (\<forall>r \<in> set (is_sessions st). sw_session_id r < is_next_session st) \<and>
     (\<forall>(u, r) \<in> set (is_users st). ValidRole (uw_role r) \<and> (uw_totp_confirmed r \<longrightarrow> uw_totp_secret r \<noteq> None)) \<and>
     (is_users st \<noteq> [] \<longrightarrow> (\<exists>(u, r) \<in> set (is_users st). uw_role r = RoleAdmin))"

lemma iam_ok_empty: "iam_ok empty_iam"
  by (simp add: iam_ok_def empty_iam_def)

lemma map_fst_update_user [simp]: "map fst (is_users (update_user u f st)) = map fst (is_users st)"
  by (induction "is_users st") (auto simp: update_user_def)

lemma update_user_keeps [simp]:
  "is_sessions (update_user u f st) = is_sessions st" "is_audit (update_user u f st) = is_audit st"
  "is_next_session (update_user u f st) = is_next_session st" "is_next_audit (update_user u f st) = is_next_audit st"
  by (simp_all add: update_user_def)

lemma map_of_update_user:
  "map_of (is_users (update_user u f st)) v =
     (if v = u then map_option f (map_of (is_users st) v) else map_of (is_users st) v)"
proof -
  have "map_of (map (\<lambda>(a, r). (a, if a = u then f r else r)) rs) v =
      (if v = u then map_option f (map_of rs v) else map_of rs v)" for rs
    by (induction rs) auto
  then show ?thesis by (simp add: update_user_def)
qed

lemma iam_ok_update_user:
  assumes "iam_ok st" "\<And>r. uw_role (f r) = uw_role r" "\<And>r. uw_totp_confirmed r \<longrightarrow> uw_totp_secret r \<noteq> None \<Longrightarrow>
      uw_totp_confirmed (f r) \<longrightarrow> uw_totp_secret (f r) \<noteq> None"
  shows "iam_ok (update_user u f st)"
proof -
  let ?g = "\<lambda>(a, r). (a, if a = u then f r else r)"
  have us: "is_users (update_user u f st) = map ?g (is_users st)" by (simp add: update_user_def)
  have "\<forall>(a, r) \<in> set (map ?g (is_users st)). ValidRole (uw_role r) \<and> (uw_totp_confirmed r \<longrightarrow> uw_totp_secret r \<noteq> None)"
  proof (rule ballI, rule case_prodI2)
    fix p a r assume "p \<in> set (map ?g (is_users st))" "p = (a, r)"
    then obtain r0 where r: "(a, r0) \<in> set (is_users st)" "r = (if a = u then f r0 else r0)" by auto
    then have "ValidRole (uw_role r0) \<and> (uw_totp_confirmed r0 \<longrightarrow> uw_totp_secret r0 \<noteq> None)"
      using assms(1) by (auto simp: iam_ok_def)
    then show "ValidRole (uw_role r) \<and> (uw_totp_confirmed r \<longrightarrow> uw_totp_secret r \<noteq> None)"
      using assms(2) [of r0] assms(3) [of r0] r(2) by auto
  qed
  moreover have "\<exists>(a, r) \<in> set (map ?g (is_users st)). uw_role r = RoleAdmin"
    if "\<exists>(a, r) \<in> set (is_users st). uw_role r = RoleAdmin"
  proof -
    from that obtain a r where ar: "(a, r) \<in> set (is_users st)" "uw_role r = RoleAdmin" by auto
    have "?g (a, r) \<in> set (map ?g (is_users st))" unfolding set_map using ar(1) by (rule imageI)
    with ar(2) show ?thesis using assms(2) by (intro bexI [of _ "?g (a, r)"]) simp_all
  qed
  moreover have "map fst (map ?g (is_users st)) = map fst (is_users st)" by (induction "is_users st") auto
  ultimately show ?thesis using assms(1) by (simp add: iam_ok_def us del: map_map list.map_comp set_map)
qed

lemma CreateUser_ok:
  assumes "CreateUser db n h role st = (e, st')" "iam_ok st" "ValidRole role" "is_users st = [] \<longrightarrow> role = RoleAdmin"
  shows "iam_ok st'"
  using assms by (auto simp: CreateUser_def iam_ok_def map_of_eq_None_iff split: if_splits)

lemma CreateSession_ok: "CreateSession db now u h ttl st = (x, st') \<Longrightarrow> iam_ok st \<Longrightarrow> iam_ok st'"
  by (fastforce simp: CreateSession_def Let_def iam_ok_def split: if_splits)

lemma iam_ok_sessions: "iam_ok st \<Longrightarrow> iam_ok (st\<lparr>is_sessions := filter P (is_sessions st)\<rparr>)"
  by (auto simp: iam_ok_def intro: distinct_map_filter)

lemma DeleteSession_ok: "DeleteSession db h st = (x, st') \<Longrightarrow> iam_ok st \<Longrightarrow> iam_ok st'"
  by (auto simp: DeleteSession_def iam_ok_sessions split: if_splits)

lemma RevokeSession_ok: "RevokeSession db i st = (x, st') \<Longrightarrow> iam_ok st \<Longrightarrow> iam_ok st'"
  by (auto simp: RevokeSession_def iam_ok_sessions Let_def split: if_splits)

lemma DeleteExpiredSessions_ok: "DeleteExpiredSessions db now st = (x, st') \<Longrightarrow> iam_ok st \<Longrightarrow> iam_ok st'"
  by (auto simp: DeleteExpiredSessions_def iam_ok_sessions Let_def split: if_splits)

lemma SetTOTPSecret_ok: "SetTOTPSecret db u s st = (x, st') \<Longrightarrow> iam_ok st \<Longrightarrow> iam_ok st'"
  by (auto simp: SetTOTPSecret_def intro!: iam_ok_update_user split: if_splits)

lemma ConfirmTOTP_ok: "ConfirmTOTP db u st = (x, st') \<Longrightarrow> iam_ok st \<Longrightarrow> iam_ok st'"
  by (auto simp: ConfirmTOTP_def intro!: iam_ok_update_user split: if_splits)

lemma Audit_ok: "Audit db now e st = (x, st') \<Longrightarrow> iam_ok st \<Longrightarrow> iam_ok st'"
  by (auto simp: Audit_def iam_ok_def split: if_splits)

lemmas iam_ops_ok = CreateSession_ok DeleteSession_ok RevokeSession_ok DeleteExpiredSessions_ok SetTOTPSecret_ok ConfirmTOTP_ok Audit_ok

lemma FindSession_iff:
  assumes "iam_ok st"
  shows "FindSession True h st = Inr (u, e) \<longleftrightarrow>
    (\<exists>r \<in> set (is_sessions st). sw_token_hash r = h \<and> sw_username r = u \<and> sw_expires_at r = e)"
proof -
  have d: "distinct (map sw_token_hash (is_sessions st))" using assms by (simp add: iam_ok_def)
  have "find (\<lambda>r. sw_token_hash r = h) rs = Some r \<longleftrightarrow> r \<in> set rs \<and> sw_token_hash r = h"
    if "distinct (map sw_token_hash rs)" for rs r
    using that by (induction rs) auto
  from this [OF d] have "(\<exists>r. find (\<lambda>r. sw_token_hash r = h) (is_sessions st) = Some r \<and> sw_username r = u \<and> sw_expires_at r = e)
      \<longleftrightarrow> (\<exists>r \<in> set (is_sessions st). sw_token_hash r = h \<and> sw_username r = u \<and> sw_expires_at r = e)" by blast
  then show ?thesis by (auto simp: FindSession_def split: option.splits)
qed

end
