(* ===== verification/Console.thy ===== *)
theory Console
  imports Iam
begin

text \<open>
  \<^verbatim>\<open>cmd/console/main.go\<close>: the operators' console. A request is handled atomically on the tables
  of \<open>Iam\<close>; it gives a reply, the audit entries it starts to write (they are written by
  goroutines, each with \<^const>\<open>Audit\<close>), the requests forwarded to the connector's admin interface,
  and the new tables. JSON, query parsing and the cryptographic functions are parameters,
  collected in a record; database failures, clock readings, random bytes and the connector's
  answer are the request's world.
\<close>

section \<open>Requests and replies\<close>

record request =
  hr_Method :: string
  hr_Path :: string
  hr_RawQuery :: string
  hr_Authorization :: string
  hr_ContentType :: string
  hr_RemoteAddr :: string
  hr_Body :: bytes

datatype audit_detail = NoDetail | Reason string | Need string | RoleDetail string | UpstreamStatus nat

record libs =
  lb_kdf :: kdf
  lb_hmac :: "bytes \<Rightarrow> bytes \<Rightarrow> bytes"
  lb_sha :: "bytes \<Rightarrow> bytes"
  lb_query :: "string \<Rightarrow> string \<Rightarrow> string"
  lb_user :: "bytes \<Rightarrow> (string \<times> string \<times> string) option"
  lb_login :: "bytes \<Rightarrow> (string \<times> string \<times> string) option"
  lb_code :: "bytes \<Rightarrow> string option"
  lb_marshal :: "audit_detail \<Rightarrow> bytes option"

record upstream =
  up_Method :: string
  up_URL :: string
  up_ContentType :: string
  up_Body :: bytes

text \<open>
  \<open>wd_db i\<close> and \<open>wd_now i\<close>: whether the \<open>i\<close>-th database call succeeds, and the clock reading that belongs
  to it. The authentication middleware makes the calls 0 and 1, handlers behind it start at 2.
  \<open>wd_upstream\<close>: no answer, or status, content type and body (\<open>None\<close> if reading it fails).
\<close>

record world =
  wd_db :: "nat \<Rightarrow> bool"
  wd_now :: "nat \<Rightarrow> int"
  wd_rnd :: "bytes option"
  wd_newreq :: bool
  wd_upstream :: "upstream \<Rightarrow> (nat \<times> string \<times> bytes option) option"

datatype body =
    ErrBody string
  | ForbiddenBody string
  | UserBody string string
  | TokenBody string int string
  | SecretBody string string
  | StatusBody string
  | WhoamiBody string string "string list"
  | SessionsBody "SessionInfo list"
  | AuditBody "AuditEntry list"
  | UpstreamBody string bytes
  | NoBody

record outcome =
  oc_status :: nat
  oc_body :: body
  oc_audit :: "AuditEntry list"
  oc_forward :: "upstream list"
  oc_store :: IamStore

record api =
  ap_connectorAdmin :: string
  ap_sessionTTL :: int

record sessionCtx =
  sc_Username :: string
  sc_Role :: string

text \<open>\<^verbatim>\<open>writeJSON\<close> after the given audit calls.\<close>

definition writeJSON :: "AuditEntry list \<Rightarrow> nat \<Rightarrow> body \<Rightarrow> IamStore \<Rightarrow> outcome" where
  "writeJSON as status b st = \<lparr>oc_status = status, oc_body = b, oc_audit = as, oc_forward = [], oc_store = st\<rparr>"

definition writeErr :: "AuditEntry list \<Rightarrow> nat \<Rightarrow> string \<Rightarrow> IamStore \<Rightarrow> outcome" where
  "writeErr as status msg st = writeJSON as status (ErrBody msg) st"

definition audit :: "libs \<Rightarrow> request \<Rightarrow> string \<Rightarrow> string \<Rightarrow> string \<Rightarrow> string \<Rightarrow> audit_detail \<Rightarrow> AuditEntry" where
  "audit L r actor action target result detail =
     \<lparr>ae_AuditID = 0, ae_Actor = actor, ae_Action = action, ae_Target = target, ae_Result = result,
      ae_ClientIP = hr_RemoteAddr r,
      ae_Detail = (if detail = NoDetail then [] else case lb_marshal L detail of None \<Rightarrow> [] | Some b \<Rightarrow> b),
      ae_CreatedAt = 0\<rparr>"

definition target_of :: "request \<Rightarrow> string" where
  "target_of r = hr_Method r @ '' '' @ hr_Path r"

text \<open>\<^verbatim>\<open>strings.CutPrefix\<close>\<close>

definition CutPrefix :: "string \<Rightarrow> string \<Rightarrow> string \<times> bool" where
  "CutPrefix s p = (if go_HasPrefix s p then (drop (length p) s, True) else (s, False))"

section \<open>Authentication and authorisation\<close>

definition authenticate :: "libs \<Rightarrow> world \<Rightarrow> request \<Rightarrow> string \<Rightarrow> IamStore \<Rightarrow> outcome + sessionCtx" where
  "authenticate L w r action st =
     (let act = (if action = [] then ''auth.token'' else action);
          deny = (\<lambda>msg. Inl (writeErr [audit L r ''anonymous'' act (target_of r) ''denied'' (Reason msg)] 401 msg st));
          (token, ok) = CutPrefix (hr_Authorization r) ''Bearer ''
      in if \<not> ok \<or> token = [] then deny ''missing_token''
         else case FindSession (wd_db w 0) (TokenHash (lb_sha L) token) st of
           Inl _ \<Rightarrow> deny ''invalid_token''
         | Inr (username, expires) \<Rightarrow>
             if wd_now w 0 > expires then deny ''session_expired''
             else case FindUser (wd_db w 1) username st of
               Inl _ \<Rightarrow> deny ''invalid_token''
             | Inr u \<Rightarrow>
                 if u_Status u \<noteq> ''active'' then deny ''invalid_token''
                 else Inr \<lparr>sc_Username = username, sc_Role = u_Role u\<rparr>)"

definition auth ::
  "string \<Rightarrow> string \<Rightarrow> (sessionCtx \<Rightarrow> outcome) \<Rightarrow> libs \<Rightarrow> world \<Rightarrow> request \<Rightarrow> IamStore \<Rightarrow> outcome" where
  "auth perm action nxt L w r st =
     (case authenticate L w r action st of
        Inl oc \<Rightarrow> oc
      | Inr sess \<Rightarrow>
          if perm \<noteq> [] \<and> \<not> HasPermission (sc_Role sess) perm
          then (let act = (if action = [] then ''authz'' else action)
                in writeJSON [audit L r (sc_Username sess) act (target_of r) ''denied'' (Need perm)] 403 (ForbiddenBody perm) st)
          else nxt sess)"

section \<open>Operators and login\<close>

text \<open>The caller has passed the gate: validation, hashing and the insert.\<close>

definition createUser_checked :: "libs \<Rightarrow> world \<Rightarrow> request \<Rightarrow> string \<Rightarrow> string \<times> string \<times> string \<Rightarrow> IamStore \<Rightarrow> outcome" where
  "createUser_checked L w r actor req st =
     (let (username, password, role) = req
      in if username = [] then writeErr [] 400 ''username_required'' st
      else if length password < 8 then writeErr [] 400 ''password_too_short'' st
      else if \<not> ValidRole role then writeErr [] 400 ''invalid_role'' st
      else case HashPassword (lb_kdf L) (wd_rnd w) password of
        None \<Rightarrow> writeErr [audit L r actor ''user.create'' username ''error'' NoDetail] 500 ''internal'' st
      | Some hash \<Rightarrow>
          (case CreateUser (wd_db w 3) username hash role st of
             (Some ErrDuplicateUser, st1) \<Rightarrow>
               writeErr [audit L r actor ''user.create'' username ''error'' (Reason ''user_exists'')] 409 ''user_exists'' st1
           | (Some _, st1) \<Rightarrow> writeErr [audit L r actor ''user.create'' username ''error'' NoDetail] 500 ''internal'' st1
           | (None, st1) \<Rightarrow>
               writeJSON [audit L r actor ''user.create'' username ''ok'' (RoleDetail role)] 201 (UserBody username role) st1))"

text \<open>Everything after the count of operators; \<open>n\<close> is what the database answered.\<close>

definition createUser_rest ::
  "libs \<Rightarrow> world \<Rightarrow> request \<Rightarrow> nat \<Rightarrow> string \<times> string \<times> string \<Rightarrow> IamStore \<Rightarrow> outcome" where
  "createUser_rest L w r n req st =
     (let (username, password, role) = req;
          gate = (if n = 0
                  then (if role \<noteq> RoleAdmin
                        then Inl (writeErr [audit L r ''anonymous'' ''user.create'' username ''denied''
                               (Reason ''first_user_must_be_admin'')] 400 ''first_user_must_be_admin'' st)
                        else Inr ''anonymous'')
                  else (case authenticate L w r ''user.create'' st of
                          Inl oc \<Rightarrow> Inl oc
                        | Inr sess \<Rightarrow>
                            if \<not> HasPermission (sc_Role sess) PermUserManage
                            then Inl (writeJSON [audit L r (sc_Username sess) ''user.create'' username ''denied''
                                   (Need PermUserManage)] 403 (ForbiddenBody PermUserManage) st)
                            else Inr (sc_Username sess)))
      in case gate of
           Inl oc \<Rightarrow> oc
         | Inr actor \<Rightarrow> createUser_checked L w r actor req st)"

definition createUser :: "libs \<Rightarrow> world \<Rightarrow> request \<Rightarrow> IamStore \<Rightarrow> outcome" where
  "createUser L w r st =
     (case lb_user L (hr_Body r) of
        None \<Rightarrow> writeErr [] 400 ''bad_json'' st
      | Some req \<Rightarrow>
          (case UserCount (wd_db w 2) st of
             Inl _ \<Rightarrow> writeErr [audit L r ''anonymous'' ''user.create'' (fst req) ''error'' NoDetail] 500 ''internal'' st
           | Inr n \<Rightarrow> createUser_rest L w r n req st))"

text \<open>Instants are in nanoseconds.\<close>

definition unix :: "int \<Rightarrow> int" where
  "unix t = t div 1000000000"

text \<open>Both factors hold: the token and its session.\<close>

definition login_issue :: "libs \<Rightarrow> api \<Rightarrow> world \<Rightarrow> request \<Rightarrow> string \<Rightarrow> string \<Rightarrow> string \<Rightarrow> IamStore \<Rightarrow> outcome" where
  "login_issue L a w r actor username role st =
     (let failed = (\<lambda>st. writeErr [audit L r actor ''auth.login'' [] ''error'' NoDetail] 500 ''internal'' st)
      in case NewToken (wd_rnd w) of
           None \<Rightarrow> failed st
         | Some token \<Rightarrow>
             (case CreateSession (wd_db w 1) (wd_now w 1) username (TokenHash (lb_sha L) token) (ap_sessionTTL a) st of
                (Inl _, st1) \<Rightarrow> failed st1
              | (Inr expires, st1) \<Rightarrow>
                  writeJSON [audit L r actor ''auth.login'' [] ''ok'' NoDetail] 200 (TokenBody token expires role) st1))"

definition login :: "libs \<Rightarrow> api \<Rightarrow> world \<Rightarrow> request \<Rightarrow> IamStore \<Rightarrow> outcome" where
  "login L a w r st =
     (case lb_login L (hr_Body r) of
        None \<Rightarrow> writeErr [] 400 ''bad_json'' st
      | Some (username, password, code) \<Rightarrow>
          (let actor = (if username = [] then ''anonymous'' else username);
               deny = (\<lambda>msg. writeErr [audit L r actor ''auth.login'' [] ''denied'' (Reason msg)] 401 msg st)
           in case FindUser (wd_db w 0) username st of
                Inl ErrNotFound \<Rightarrow> deny ''invalid_credentials''
              | Inl _ \<Rightarrow> writeErr [audit L r actor ''auth.login'' [] ''error'' (Reason ''store'')] 500 ''internal'' st
              | Inr u \<Rightarrow>
                  if \<not> VerifyPassword (lb_kdf L) password (u_PasswordHash u) then deny ''invalid_credentials''
                  else if u_Status u \<noteq> ''active'' then deny ''user_disabled''
                  else if u_TOTPConfirmed u \<and> code = [] then deny ''totp_required''
                  else if u_TOTPConfirmed u \<and> \<not> totp_Verify (lb_hmac L) (u_TOTPSecret u) code (unix (wd_now w 0))
                  then deny ''totp_invalid''
                  else login_issue L a w r actor username (u_Role u) st))"

section \<open>Second factor, identity and session handlers\<close>

definition totpEnroll :: "libs \<Rightarrow> world \<Rightarrow> request \<Rightarrow> IamStore \<Rightarrow> sessionCtx \<Rightarrow> outcome" where
  "totpEnroll L w r st sess =
     (let log = (\<lambda>result. audit L r (sc_Username sess) ''auth.totp_enroll'' [] result NoDetail)
      in case GenerateSecret (wd_rnd w) of
           None \<Rightarrow> writeErr [log ''error''] 500 ''internal'' st
         | Some secret \<Rightarrow>
             (case SetTOTPSecret (wd_db w 2) (sc_Username sess) secret st of
                (Some _, st1) \<Rightarrow> writeErr [log ''error''] 500 ''internal'' st1
              | (None, st1) \<Rightarrow>
                  writeJSON [log ''ok''] 200 (SecretBody secret (OtpauthURL ''aiops'' (sc_Username sess) secret)) st1))"

definition totpConfirm :: "libs \<Rightarrow> world \<Rightarrow> request \<Rightarrow> IamStore \<Rightarrow> sessionCtx \<Rightarrow> outcome" where
  "totpConfirm L w r st sess =
     (let log = (\<lambda>result detail. audit L r (sc_Username sess) ''auth.totp_confirm'' [] result detail)
      in case lb_code L (hr_Body r) of
           None \<Rightarrow> writeErr [] 400 ''bad_json'' st
         | Some code \<Rightarrow>
             (case FindUser (wd_db w 2) (sc_Username sess) st of
                Inl _ \<Rightarrow> writeErr [] 400 ''totp_not_enrolled'' st
              | Inr u \<Rightarrow>
                  if u_TOTPSecret u = [] then writeErr [] 400 ''totp_not_enrolled'' st
                  else if \<not> totp_Verify (lb_hmac L) (u_TOTPSecret u) code (unix (wd_now w 2))
                  then writeErr [log ''denied'' (Reason ''totp_invalid'')] 400 ''totp_invalid'' st
                  else (case ConfirmTOTP (wd_db w 3) (sc_Username sess) st of
                          (Some _, st1) \<Rightarrow> writeErr [log ''error'' NoDetail] 500 ''internal'' st1
                        | (None, st1) \<Rightarrow> writeJSON [log ''ok'' NoDetail] 200 (StatusBody ''confirmed'') st1)))"

definition whoami :: "IamStore \<Rightarrow> sessionCtx \<Rightarrow> outcome" where
  "whoami st sess = writeJSON [] 200 (WhoamiBody (sc_Username sess) (sc_Role sess) (PermissionsOf (sc_Role sess))) st"

definition logout :: "libs \<Rightarrow> world \<Rightarrow> request \<Rightarrow> IamStore \<Rightarrow> sessionCtx \<Rightarrow> outcome" where
  "logout L w r st sess =
     (let token = fst (CutPrefix (hr_Authorization r) ''Bearer '');
          log = (\<lambda>result. audit L r (sc_Username sess) ''auth.logout'' [] result NoDetail)
      in case DeleteSession (wd_db w 2) (TokenHash (lb_sha L) token) st of
           (Some _, st1) \<Rightarrow> writeErr [log ''error''] 500 ''internal'' st1
         | (None, st1) \<Rightarrow> writeJSON [log ''ok''] 204 NoBody st1)"

definition listSessions :: "world \<Rightarrow> IamStore \<Rightarrow> sessionCtx \<Rightarrow> outcome" where
  "listSessions w st sess =
     (case ListSessions (wd_db w 2) (wd_now w 2) st of
        Inl _ \<Rightarrow> writeErr [] 500 ''internal'' st
      | Inr ss \<Rightarrow> writeJSON [] 200 (SessionsBody ss) st)"

definition revokeSession :: "libs \<Rightarrow> world \<Rightarrow> request \<Rightarrow> IamStore \<Rightarrow> sessionCtx \<Rightarrow> outcome" where
  "revokeSession L w r st sess =
     (let idStr = lb_query L (hr_RawQuery r) ''id'';
          log = (\<lambda>result detail. audit L r (sc_Username sess) ''session.revoke'' idStr result detail)
      in case go_Atoi idStr of
           None \<Rightarrow> writeErr [] 400 ''bad_id'' st
         | Some i \<Rightarrow>
             if i \<le> 0 then writeErr [] 400 ''bad_id'' st
             else (case RevokeSession (wd_db w 2) i st of
                     (Some ErrNotFound, st1) \<Rightarrow> writeErr [log ''error'' (Reason ''not_found'')] 404 ''session_not_found'' st1
                   | (Some _, st1) \<Rightarrow> writeErr [log ''error'' NoDetail] 500 ''internal'' st1
                   | (None, st1) \<Rightarrow> writeJSON [log ''ok'' NoDetail] 204 NoBody st1))"

definition audit_limit :: "string \<Rightarrow> nat" where
  "audit_limit q =
     (let limit = (if q \<noteq> [] then (case go_Atoi q of None \<Rightarrow> 50 | Some n \<Rightarrow> if n > 0 then n else 50) else 50)
      in nat (if limit > 500 then 500 else limit))"

definition listAudit :: "libs \<Rightarrow> world \<Rightarrow> request \<Rightarrow> IamStore \<Rightarrow> sessionCtx \<Rightarrow> outcome" where
  "listAudit L w r st sess =
     (case ListAudit (wd_db w 2) (audit_limit (lb_query L (hr_RawQuery r) ''limit'')) st of
        Inl _ \<Rightarrow> writeErr [] 500 ''internal'' st
      | Inr es \<Rightarrow> writeJSON [] 200 (AuditBody es) st)"

section \<open>Forwarding to the connector\<close>

definition proxy_request :: "api \<Rightarrow> string \<Rightarrow> request \<Rightarrow> upstream" where
  "proxy_request a path r =
     \<lparr>up_Method = hr_Method r,
      up_URL = ap_connectorAdmin a @ path @ (if hr_RawQuery r \<noteq> [] then ''?'' @ hr_RawQuery r else []),
      up_ContentType = hr_ContentType r, up_Body = hr_Body r\<rparr>"

definition proxy ::
  "string \<Rightarrow> string \<Rightarrow> libs \<Rightarrow> api \<Rightarrow> world \<Rightarrow> request \<Rightarrow> IamStore \<Rightarrow> sessionCtx \<Rightarrow> outcome" where
  "proxy path action L a w r st sess =
     (let q = lb_query L (hr_RawQuery r);
          target = (if q ''asset_id'' = [] then q ''cmd_id'' else q ''asset_id'');
          log = (\<lambda>result detail. if action = [] then [] else [audit L r (sc_Username sess) action target result detail]);
          req = proxy_request a path r
      in if \<not> wd_newreq w then writeErr [] 500 ''internal'' st
         else (case wd_upstream w req of
                 None \<Rightarrow> (writeErr (log ''error'' (Reason ''connector_unreachable'')) 502 ''connector_unreachable'' st)
                           \<lparr>oc_forward := [req]\<rparr>
               | Some (status, ct, None) \<Rightarrow>
                   (writeErr (log ''error'' (Reason ''connector_read_failed'')) 502 ''connector_read_failed'' st)
                     \<lparr>oc_forward := [req]\<rparr>
               | Some (status, ct, Some body) \<Rightarrow>
                   (writeJSON (log (if status \<ge> 400 then ''error'' else ''ok'') (UpstreamStatus status)) status
                      (UpstreamBody ct (take (16 * 2 ^ 20) body)) st)\<lparr>oc_forward := [req]\<rparr>))"

section \<open>Routes\<close>

datatype route =
    RCreateUser | RLogin | RLogout | REnroll | RConfirm | RWhoami | RSubmit | RCancel | RResult | RAssets
  | RSessions | RRevoke | RAudit

definition routes :: "(string \<times> string \<times> route) list" where
  "routes =
     [(''POST'', ''/api/v1/users'', RCreateUser), (''POST'', ''/api/v1/login'', RLogin), (''POST'', ''/api/v1/logout'', RLogout),
      (''POST'', ''/api/v1/totp/enroll'', REnroll), (''POST'', ''/api/v1/totp/confirm'', RConfirm),
      (''GET'', ''/api/v1/whoami'', RWhoami), (''POST'', ''/api/v1/command/submit'', RSubmit),
      (''POST'', ''/api/v1/command/cancel'', RCancel), (''GET'', ''/api/v1/command/result'', RResult),
      (''GET'', ''/api/v1/assets'', RAssets), (''GET'', ''/api/v1/sessions'', RSessions),
      (''DELETE'', ''/api/v1/sessions'', RRevoke), (''GET'', ''/api/v1/audit'', RAudit)]"

text \<open>A pattern for \<^verbatim>\<open>GET\<close> also matches \<^verbatim>\<open>HEAD\<close>. Any other request is answered by the multiplexer itself.\<close>

definition mux :: "request \<Rightarrow> route option" where
  "mux r = map_option (\<lambda>(m, p, rt). rt)
     (find (\<lambda>(m, p, rt). p = hr_Path r \<and> (m = hr_Method r \<or> m = ''GET'' \<and> hr_Method r = ''HEAD'')) routes)"

fun route_perm :: "route \<Rightarrow> string" where
  "route_perm RSubmit = PermCommandSubmit"
| "route_perm RCancel = PermCommandCancel"
| "route_perm RResult = PermCommandResult"
| "route_perm RAssets = PermAssetView"
| "route_perm RSessions = PermAdmin"
| "route_perm RRevoke = PermAdmin"
| "route_perm RAudit = PermAdmin"
| "route_perm _ = []"

fun route_action :: "route \<Rightarrow> string" where
  "route_action RLogout = ''auth.logout''"
| "route_action REnroll = ''auth.totp_enroll''"
| "route_action RConfirm = ''auth.totp_confirm''"
| "route_action RSubmit = ''command.submit''"
| "route_action RCancel = ''command.cancel''"
| "route_action RSessions = ''session.list''"
| "route_action RRevoke = ''session.revoke''"
| "route_action RAudit = ''audit.list''"
| "route_action _ = []"

fun handler :: "route \<Rightarrow> libs \<Rightarrow> api \<Rightarrow> world \<Rightarrow> request \<Rightarrow> IamStore \<Rightarrow> sessionCtx \<Rightarrow> outcome" where
  "handler RLogout L a w r st = logout L w r st"
| "handler REnroll L a w r st = totpEnroll L w r st"
| "handler RConfirm L a w r st = totpConfirm L w r st"
| "handler RSubmit L a w r st = proxy ''/admin/command'' ''command.submit'' L a w r st"
| "handler RCancel L a w r st = proxy ''/admin/cancel'' ''command.cancel'' L a w r st"
| "handler RResult L a w r st = proxy ''/admin/result'' [] L a w r st"
| "handler RAssets L a w r st = proxy ''/admin/sessions'' [] L a w r st"
| "handler RSessions L a w r st = listSessions w st"
| "handler RRevoke L a w r st = revokeSession L w r st"
| "handler RAudit L a w r st = listAudit L w r st"
| "handler _ L a w r st = whoami st"

definition serve :: "libs \<Rightarrow> api \<Rightarrow> world \<Rightarrow> request \<Rightarrow> IamStore \<Rightarrow> outcome option" where
  "serve L a w r st =
     (case mux r of
        None \<Rightarrow> None
      | Some RCreateUser \<Rightarrow> Some (createUser L w r st)
      | Some RLogin \<Rightarrow> Some (login L a w r st)
      | Some rt \<Rightarrow> Some (auth (route_perm rt) (route_action rt) (handler rt L a w r st) L w r st))"

section \<open>Who may do what\<close>

definition valid_session :: "libs \<Rightarrow> world \<Rightarrow> request \<Rightarrow> IamStore \<Rightarrow> string \<Rightarrow> string \<Rightarrow> bool" where
  "valid_session L w r st u role \<longleftrightarrow>
     (\<exists>tok row urow. hr_Authorization r = ''Bearer '' @ tok \<and> tok \<noteq> [] \<and>
        row \<in> set (is_sessions st) \<and> sw_token_hash row = TokenHash (lb_sha L) tok \<and> wd_now w 0 \<le> sw_expires_at row \<and>
        sw_username row = u \<and> map_of (is_users st) u = Some urow \<and> uw_status urow = ''active'' \<and> uw_role urow = role)"

definition credentials_ok :: "libs \<Rightarrow> world \<Rightarrow> string \<times> string \<times> string \<Rightarrow> IamStore \<Rightarrow> bool" where
  "credentials_ok L w req st \<longleftrightarrow>
     (\<exists>row. map_of (is_users st) (fst req) = Some row \<and> uw_status row = ''active'' \<and>
        VerifyPassword (lb_kdf L) (fst (snd req)) (uw_password_hash row) \<and>
        (uw_totp_confirmed row \<longrightarrow> (\<exists>secret. from_null (uw_totp_secret row) = secret \<and>
           totp_Verify (lb_hmac L) secret (snd (snd req)) (unix (wd_now w 0)))))"

definition route_needs :: "route \<Rightarrow> string \<Rightarrow> bool" where
  "route_needs rt role \<longleftrightarrow>
     (if rt = RCreateUser then HasPermission role PermUserManage else route_perm rt = [] \<or> HasPermission role (route_perm rt))"

lemmas write_defs = writeErr_def writeJSON_def

lemma CutPrefix_True: "CutPrefix s p = (tok, True) \<longleftrightarrow> s = p @ tok"
  by (auto simp: CutPrefix_def go_HasPrefix_def) (metis append_take_drop_id)

lemma FindSession_row: "FindSession db h st = Inr (u, e) \<Longrightarrow>
    \<exists>row \<in> set (is_sessions st). sw_token_hash row = h \<and> sw_username row = u \<and> sw_expires_at row = e"
  by (auto simp: FindSession_def find_Some_iff split: if_splits option.splits)

lemma FindUser_row: "FindUser db u st = Inr i \<Longrightarrow> db \<and> (\<exists>row. map_of (is_users st) u = Some row \<and>
    u_PasswordHash i = uw_password_hash row \<and> u_Role i = uw_role row \<and> u_TOTPSecret i = from_null (uw_totp_secret row) \<and>
    u_TOTPConfirmed i = uw_totp_confirmed row \<and> u_Status i = uw_status row)"
  by (auto simp: FindUser_def from_null_def split: if_splits option.splits)

lemma authenticate_Inr:
  assumes "authenticate L w r act st = Inr sess"
  shows "valid_session L w r st (sc_Username sess) (sc_Role sess)"
proof -
  obtain tok ok where c: "CutPrefix (hr_Authorization r) ''Bearer '' = (tok, ok)" by fastforce
  then obtain u e i where t: "ok" "tok \<noteq> []" "FindSession (wd_db w 0) (TokenHash (lb_sha L) tok) st = Inr (u, e)"
    "\<not> wd_now w 0 > e" "FindUser (wd_db w 1) u st = Inr i" "u_Status i = ''active''"
    "sess = \<lparr>sc_Username = u, sc_Role = u_Role i\<rparr>"
    using assms by (auto simp: authenticate_def Let_def split: if_splits sum.splits prod.splits)
  with c have "hr_Authorization r = ''Bearer '' @ tok" by (simp add: CutPrefix_True)
  with FindSession_row [OF t(3)] FindUser_row [OF t(5)] t(2,4,6,7) show ?thesis
    unfolding valid_session_def by force
qed

lemma authenticate_Inl:
  assumes "authenticate L w r act st = Inl oc"
  obtains msg where "oc_status oc = 401" "oc_store oc = st" "oc_forward oc = []" "oc_body oc = ErrBody msg"
    "oc_audit oc = [audit L r ''anonymous'' (if act = [] then ''auth.token'' else act) (target_of r) ''denied'' (Reason msg)]"
proof -
  obtain tok ok where c: "CutPrefix (hr_Authorization r) ''Bearer '' = (tok, ok)" by fastforce
  show ?thesis
    using assms that by (auto simp: authenticate_def c Let_def write_defs split: if_splits sum.splits prod.splits)
qed

lemma authenticate_complete:
  assumes "iam_ok st" "valid_session L w r st u role" "wd_db w 0" "wd_db w 1"
  shows "authenticate L w r act st = Inr \<lparr>sc_Username = u, sc_Role = role\<rparr>"
proof -
  obtain tok row urow where t: "hr_Authorization r = ''Bearer '' @ tok" "tok \<noteq> []" "row \<in> set (is_sessions st)"
    "sw_token_hash row = TokenHash (lb_sha L) tok" "wd_now w 0 \<le> sw_expires_at row" "sw_username row = u"
    "map_of (is_users st) u = Some urow" "uw_status urow = ''active''" "uw_role urow = role"
    using assms(2) unfolding valid_session_def by blast
  have "CutPrefix (hr_Authorization r) ''Bearer '' = (tok, True)" by (simp only: CutPrefix_True t(1))
  moreover have "FindSession True (TokenHash (lb_sha L) tok) st = Inr (u, sw_expires_at row)"
    using FindSession_iff [OF assms(1)] t(3,4,6) by blast
  ultimately show ?thesis using t assms(3,4) by (simp add: authenticate_def FindUser_def)
qed

lemma auth_cases:
  assumes "auth perm action nxt L w r st = oc"
  obtains (denied) "oc_status oc \<ge> 400" "oc_store oc = st" "oc_forward oc = []"
  | (allowed) sess where "valid_session L w r st (sc_Username sess) (sc_Role sess)"
      "perm = [] \<or> HasPermission (sc_Role sess) perm" "oc = nxt sess"
proof (cases "authenticate L w r action st")
  case (Inl oc')
  then have "oc' = oc" using assms by (simp add: auth_def)
  moreover obtain msg where "oc_status oc' = 401" "oc_store oc' = st" "oc_forward oc' = []" using authenticate_Inl [OF Inl] by blast
  ultimately show ?thesis by (intro denied) simp_all
next
  case (Inr sess)
  note v = authenticate_Inr [OF Inr]
  show ?thesis
  proof (cases "perm \<noteq> [] \<and> \<not> HasPermission (sc_Role sess) perm")
    case True
    then show ?thesis using assms Inr denied by (auto simp: auth_def Let_def write_defs)
  next
    case False
    then show ?thesis using assms Inr v allowed by (auto simp: auth_def)
  qed
qed

definition may_create :: "libs \<Rightarrow> world \<Rightarrow> request \<Rightarrow> nat \<Rightarrow> string \<Rightarrow> IamStore \<Rightarrow> bool" where
  "may_create L w r n role st \<longleftrightarrow>
     (if n = 0 then role = RoleAdmin else \<exists>u ur. valid_session L w r st u ur \<and> HasPermission ur PermUserManage)"

lemma createUser_checked_cases:
  assumes "createUser_checked L w r actor (username, password, role) st = oc"
  shows "oc_forward oc = [] \<and> (oc_status oc \<ge> 400 \<and> oc_store oc = st \<or>
    ValidRole role \<and> length password \<ge> 8 \<and> username \<noteq> [] \<and> oc_status oc = 201 \<and>
    (\<exists>hash. HashPassword (lb_kdf L) (wd_rnd w) password = Some hash \<and> CreateUser True username hash role st = (None, oc_store oc)))"
  using assms by (auto simp: createUser_checked_def write_defs CreateUser_def split: if_splits option.splits)

lemma createUser_rest_gate:
  assumes "createUser_rest L w r n req st = oc"
  shows "oc_status oc \<ge> 400 \<and> oc_store oc = st \<and> oc_forward oc = [] \<or>
    may_create L w r n (snd (snd req)) st \<and> (\<exists>actor. createUser_checked L w r actor req st = oc)"
proof -
  obtain username password role where req: "req = (username, password, role)" by (cases req)
  consider (admin) "n = 0" "role = RoleAdmin" | (other) "n = 0" "role \<noteq> RoleAdmin"
    | (refused) oc' where "n \<noteq> 0" "authenticate L w r ''user.create'' st = Inl oc'"
    | (session) sess where "n \<noteq> 0" "authenticate L w r ''user.create'' st = Inr sess"
    by (cases "authenticate L w r ''user.create'' st") auto
  then show ?thesis
  proof cases
    case refused
    then have "oc' = oc" using assms by (simp add: createUser_rest_def req)
    moreover obtain msg where "oc_status oc' = 401" "oc_store oc' = st" "oc_forward oc' = []"
      using authenticate_Inl [OF refused(2)] by blast
    ultimately show ?thesis by simp
  next
    case session
    then show ?thesis using assms authenticate_Inr [OF session(2)]
      by (cases "HasPermission (sc_Role sess) PermUserManage") (auto simp: createUser_rest_def req write_defs may_create_def)
  qed (use assms in \<open>auto simp: createUser_rest_def req write_defs may_create_def\<close>)
qed

lemma login_factors:
  assumes "login L a w r st = oc"
  shows "oc_status oc \<ge> 400 \<and> oc_store oc = st \<and> oc_forward oc = [] \<and> (\<exists>msg. oc_body oc = ErrBody msg) \<or>
    (\<exists>u p c actor row. lb_login L (hr_Body r) = Some (u, p, c) \<and> credentials_ok L w (u, p, c) st \<and>
       map_of (is_users st) u = Some row \<and> login_issue L a w r actor u (uw_role row) st = oc)"
proof (cases "lb_login L (hr_Body r)")
  case None
  then show ?thesis using assms by (auto simp: login_def write_defs)
next
  case (Some req)
  obtain u p c where req: "req = (u, p, c)" by (cases req)
  show ?thesis
  proof (cases "FindUser (wd_db w 0) u st")
    case (Inl e)
    then show ?thesis using assms Some req by (cases e) (auto simp: login_def write_defs)
  next
    case (Inr i)
    then obtain row where row: "map_of (is_users st) u = Some row" "u_PasswordHash i = uw_password_hash row" "u_Role i = uw_role row"
      "u_TOTPSecret i = from_null (uw_totp_secret row)" "u_TOTPConfirmed i = uw_totp_confirmed row" "u_Status i = uw_status row"
      using FindUser_row by blast
    show ?thesis
      using assms Some req Inr row
      by (auto simp: login_def credentials_ok_def write_defs Let_def split: if_splits)
  qed
qed

lemma login_issue_cases:
  assumes "login_issue L a w r actor u role st = oc"
  shows "oc_forward oc = [] \<and> (oc_status oc = 500 \<and> (\<exists>msg. oc_body oc = ErrBody msg) \<and> is_users (oc_store oc) = is_users st \<and> is_sessions (oc_store oc) = is_sessions st \<or>
    (\<exists>tok e. NewToken (wd_rnd w) = Some tok \<and> oc_status oc = 200 \<and> oc_body oc = TokenBody tok e role \<and>
       CreateSession True (wd_now w 1) u (TokenHash (lb_sha L) tok) (ap_sessionTTL a) st = (Inr e, oc_store oc)))"
  using assms
  by (cases "NewToken (wd_rnd w)") (auto simp: login_issue_def write_defs CreateSession_def Let_def split: if_splits)

lemma login_accepts:
  assumes "lb_login L (hr_Body r) = Some (u, p, c)" "map_of (is_users st) u = Some row" "uw_status row = ''active''"
    "VerifyPassword (lb_kdf L) p (uw_password_hash row)" "\<not> uw_totp_confirmed row" "wd_db w 0" "wd_db w 1"
    "NewToken (wd_rnd w) = Some tok" "\<forall>s \<in> set (is_sessions st). sw_token_hash s \<noteq> TokenHash (lb_sha L) tok"
  shows "oc_status (login L a w r st) = 200" "oc_body (login L a w r st) = TokenBody tok (wd_now w 1 + ap_sessionTTL a) (uw_role row)"
  using assms by (simp_all add: login_def FindUser_def login_issue_def CreateSession_def write_defs Let_def)

lemma createUser_cases:
  assumes "createUser L w r st = oc"
  shows "oc_status oc \<ge> 400 \<and> oc_store oc = st \<and> oc_forward oc = [] \<or>
    (\<exists>req. lb_user L (hr_Body r) = Some req \<and> createUser_rest L w r (length (is_users st)) req st = oc)"
  using assms by (auto simp: createUser_def write_defs UserCount_def split: option.splits if_splits)

lemma serve_cases:
  assumes "serve L a w r st = Some oc"
  obtains (create) "mux r = Some RCreateUser" "createUser L w r st = oc"
  | (login) "mux r = Some RLogin" "login L a w r st = oc"
  | (routed) rt where "mux r = Some rt" "rt \<noteq> RLogin" "rt \<noteq> RCreateUser"
      "auth (route_perm rt) (route_action rt) (handler rt L a w r st) L w r st = oc"
  using assms by (auto simp: serve_def split: option.splits route.splits)

text \<open>
  C8: whenever the console answers with a success, forwards a request to the connector or changes
  its tables, the request is a login with correct credentials (the password and, if the
  operator confirmed one, the second factor), or the creation of an administrator while
  there is no operator at all, or it carries the token of an unexpired session of an active
  operator whose role has the permission of the route.
\<close>

theorem console_access_control:
  assumes served: "serve L a w r st = Some oc"
    and effect: "oc_status oc < 400 \<or> oc_forward oc \<noteq> [] \<or> oc_store oc \<noteq> st"
  shows "mux r = Some RLogin \<and> (\<exists>req. lb_login L (hr_Body r) = Some req \<and> credentials_ok L w req st) \<or>
    mux r = Some RCreateUser \<and> is_users st = [] \<and> (\<exists>u p. lb_user L (hr_Body r) = Some (u, p, RoleAdmin)) \<or>
    (\<exists>rt u role. mux r = Some rt \<and> rt \<noteq> RLogin \<and> valid_session L w r st u role \<and> route_needs rt role)"
  using served
proof (cases rule: serve_cases)
  case login
  then show ?thesis using login_factors [of L a w r st oc] effect by (simp add: linorder_not_less [symmetric]) blast
next
  case create
  with createUser_cases [of L w r st oc] effect obtain req where req: "lb_user L (hr_Body r) = Some req"
    "createUser_rest L w r (length (is_users st)) req st = oc" by auto
  with createUser_rest_gate [OF this(2)] effect have "may_create L w r (length (is_users st)) (snd (snd req)) st" by auto
  then show ?thesis using create(1) req(1)
    by (cases req) (auto simp: may_create_def route_needs_def split: if_splits)
next
  case (routed rt)
  from routed(4) show ?thesis
  proof (cases rule: auth_cases)
    case denied
    then show ?thesis using effect by simp
  next
    case (allowed sess)
    then show ?thesis using routed by (auto simp: route_needs_def)
  qed
qed

section \<open>The life of a session\<close>

lemma authenticate_expired:
  assumes "iam_ok st" "hr_Authorization r = ''Bearer '' @ tok" "tok \<noteq> []" "wd_db w 0"
    "row \<in> set (is_sessions st)" "sw_token_hash row = TokenHash (lb_sha L) tok" "sw_expires_at row < wd_now w 0"
  shows "\<exists>oc. authenticate L w r act st = Inl oc \<and> oc_body oc = ErrBody ''session_expired''"
proof -
  have "CutPrefix (hr_Authorization r) ''Bearer '' = (tok, True)" by (simp only: CutPrefix_True assms(2))
  moreover have "FindSession True (TokenHash (lb_sha L) tok) st = Inr (sw_username row, sw_expires_at row)"
    using FindSession_iff [OF assms(1)] assms(5,6) by blast
  ultimately show ?thesis using assms(3,4,7) by (simp add: authenticate_def write_defs)
qed

lemma authenticate_unknown:
  assumes "hr_Authorization r = ''Bearer '' @ tok" "\<forall>row \<in> set (is_sessions st). sw_token_hash row \<noteq> TokenHash (lb_sha L) tok"
  shows "\<exists>oc. authenticate L w r act st = Inl oc \<and> oc_status oc = 401"
proof (cases "authenticate L w r act st")
  case (Inl oc)
  then show ?thesis using authenticate_Inl [OF Inl] by blast
next
  case (Inr sess)
  from authenticate_Inr [OF this] assms show ?thesis by (auto simp: valid_session_def)
qed

lemma CreateSession_row: "CreateSession db now u h ttl st = (Inr e, st') \<Longrightarrow> is_users st' = is_users st \<and>
    (\<exists>s \<in> set (is_sessions st'). sw_token_hash s = h \<and> sw_username s = u \<and> sw_expires_at s = e)"
  by (auto simp: CreateSession_def Let_def split: if_splits)


section \<open>The tables stay consistent\<close>

lemma proxy_store [simp]: "oc_store (proxy path action L a w r st sess) = st"
  by (simp add: proxy_def write_defs Let_def split: option.splits prod.splits)

lemma handler_ok:
  assumes "iam_ok st"
  shows "iam_ok (oc_store (handler rt L a w r st sess))"
proof (cases rt)
  case RLogout
  then show ?thesis using assms by (auto simp: logout_def write_defs Let_def split: option.splits prod.splits dest: iam_ops_ok)
next
  case REnroll
  then show ?thesis using assms by (auto simp: totpEnroll_def write_defs Let_def split: option.splits prod.splits dest: iam_ops_ok)
next
  case RConfirm
  then show ?thesis using assms
    by (auto simp: totpConfirm_def write_defs Let_def split: option.splits prod.splits sum.splits dest: iam_ops_ok)
next
  case RRevoke
  then show ?thesis using assms
    by (auto simp: revokeSession_def write_defs Let_def split: option.splits prod.splits iam_error.splits dest: iam_ops_ok)
qed (use assms in \<open>simp_all add: whoami_def listSessions_def listAudit_def write_defs split: sum.splits\<close>)

lemma createUser_rest_ok:
  assumes "iam_ok st" "n \<le> length (is_users st)"
  shows "iam_ok (oc_store (createUser_rest L w r n req st))"
proof -
  let ?oc = "createUser_rest L w r n req st"
  obtain u p role where req: "req = (u, p, role)" by (cases req)
  from createUser_rest_gate [of L w r n req st ?oc] consider "oc_store ?oc = st"
    | actor where "may_create L w r n role st" "createUser_checked L w r actor (u, p, role) st = ?oc"
    unfolding req by auto
  then show ?thesis
  proof cases
    case 2
    from createUser_checked_cases [OF 2(2)] consider "oc_store ?oc = st"
      | hash where "ValidRole role" "CreateUser True u hash role st = (None, oc_store ?oc)" by auto
    then show ?thesis
    proof cases
      case c: 2
      have "is_users st = [] \<longrightarrow> role = RoleAdmin" using 2(1) assms(2) by (auto simp: may_create_def)
      then show ?thesis using CreateUser_ok [OF c(2) assms(1) c(1)] by blast
    qed (use assms(1) in simp)
  qed (use assms(1) in simp)
qed

lemma login_ok: "iam_ok st \<Longrightarrow> iam_ok (oc_store (login L a w r st))"
proof -
  assume ok: "iam_ok st"
  have "iam_ok (oc_store (login_issue L a w r actor u role st))" for actor u role
    using ok by (cases "NewToken (wd_rnd w)")
      (auto simp: login_issue_def write_defs Let_def split: prod.splits sum.splits dest: iam_ops_ok)
  then show ?thesis using login_factors [of L a w r st "login L a w r st"] ok by metis
qed

text \<open>
  The tables of a running console. Requests interleave: a request to create an operator may
  act on a count of operators that is out of date, which is the step \<open>cs_race\<close>.
\<close>

inductive console_reach :: "IamStore \<Rightarrow> bool" where
  cs_start: "console_reach empty_iam"
| cs_serve: "console_reach st \<Longrightarrow> serve L a w r st = Some oc \<Longrightarrow> console_reach (oc_store oc)"
| cs_race: "console_reach st \<Longrightarrow> n \<le> length (is_users st) \<Longrightarrow> createUser_rest L w r n req st = oc \<Longrightarrow> console_reach (oc_store oc)"
| cs_audit: "console_reach st \<Longrightarrow> Audit db now e st = (x, st') \<Longrightarrow> console_reach st'"
| cs_expire: "console_reach st \<Longrightarrow> DeleteExpiredSessions db now st = (x, st') \<Longrightarrow> console_reach st'"

lemma auth_ok: "iam_ok st \<Longrightarrow> iam_ok (oc_store (auth perm action (handler rt L a w r st) L w r st))"
  using auth_cases [of perm action "handler rt L a w r st" L w r st "auth perm action (handler rt L a w r st) L w r st"]
  by (metis handler_ok)

lemma createUser_ok: "iam_ok st \<Longrightarrow> iam_ok (oc_store (createUser L w r st))"
  using createUser_cases [of L w r st "createUser L w r st"] createUser_rest_ok by (metis order_refl)

lemma serve_ok: "serve L a w r st = Some oc \<Longrightarrow> iam_ok st \<Longrightarrow> iam_ok (oc_store oc)"
  by (erule serve_cases) (auto simp: auth_ok createUser_ok login_ok)

lemma console_reach_ok: "console_reach st \<Longrightarrow> iam_ok st"
  by (induction rule: console_reach.induct) (auto intro: iam_ok_empty serve_ok createUser_rest_ok dest: iam_ops_ok)

text \<open>
  C22: in every state a console can reach, also when requests to create operators race, operator
  names, token hashes and session numbers are unique, every operator has one of the three
  roles, a confirmed second factor has a secret, and once there is an operator there is an
  administrator.
\<close>

theorem console_tables_consistent:
  assumes "console_reach st"
  shows "distinct (map fst (is_users st)) \<and> distinct (map sw_token_hash (is_sessions st)) \<and>
    distinct (map sw_session_id (is_sessions st)) \<and>
    (\<forall>(u, r) \<in> set (is_users st). ValidRole (uw_role r) \<and> (uw_totp_confirmed r \<longrightarrow> uw_totp_secret r \<noteq> None)) \<and>
    (is_users st \<noteq> [] \<longrightarrow> (\<exists>(u, r) \<in> set (is_users st). uw_role r = RoleAdmin))"
  using console_reach_ok [OF assms] unfolding iam_ok_def by blast

section \<open>Every refusal is audited\<close>

definition denial :: "request \<Rightarrow> IamStore \<Rightarrow> outcome \<Rightarrow> bool" where
  "denial r st oc \<longleftrightarrow> (\<exists>e. oc_audit oc = [e] \<and> ae_Result e = ''denied'' \<and> ae_ClientIP e = hr_RemoteAddr r) \<and> oc_store oc = st"

lemma audit_fields [simp]: "ae_Result (audit L r actor act t res d) = res" "ae_ClientIP (audit L r actor act t res d) = hr_RemoteAddr r"
  by (simp_all add: audit_def)

lemma authenticate_denial: "authenticate L w r act st = Inl oc \<Longrightarrow> denial r st oc"
  by (erule authenticate_Inl) (simp add: denial_def)

lemma handler_status:
  assumes "rt \<noteq> RLogin" "rt \<noteq> RCreateUser" "oc_forward (handler rt L a w r st sess) = []"
  shows "oc_status (handler rt L a w r st sess) \<notin> {401, 403}"
  using assms
  by (cases rt) (auto simp: proxy_def logout_def totpEnroll_def totpConfirm_def revokeSession_def whoami_def listSessions_def
      listAudit_def write_defs Let_def split: option.splits prod.splits sum.splits if_splits iam_error.splits)

lemma createUser_checked_status: "oc_status (createUser_checked L w r actor req st) \<notin> {401, 403}"
  by (auto simp: createUser_checked_def write_defs split: prod.splits option.splits iam_error.splits)

lemma createUser_denial:
  assumes "oc_status (createUser L w r st) \<in> {401, 403}"
  shows "denial r st (createUser L w r st)"
proof -
  from assms obtain req n where "createUser L w r st = createUser_rest L w r n req st"
    by (auto simp: createUser_def write_defs split: option.splits sum.splits)
  moreover have "denial r st (createUser_rest L w r n req st)" if "oc_status (createUser_rest L w r n req st) \<in> {401, 403}"
    using that createUser_checked_status
    by (auto simp: createUser_rest_def write_defs denial_def split: prod.splits sum.splits if_splits dest: authenticate_denial)
  ultimately show ?thesis using assms by simp
qed

lemma login_denial:
  assumes "oc_status (login L a w r st) \<in> {401, 403}"
  shows "denial r st (login L a w r st)"
proof -
  have "oc_status (login_issue L a w r actor u role st) \<notin> {401, 403}" for actor u role
    by (auto simp: login_issue_def write_defs Let_def split: option.splits prod.splits sum.splits)
  with assms show ?thesis
    by (auto simp: login_def write_defs denial_def Let_def split: option.splits sum.splits iam_error.splits if_splits)
qed

lemma auth_denial:
  assumes "rt \<noteq> RLogin" "rt \<noteq> RCreateUser" "auth perm action (handler rt L a w r st) L w r st = oc"
    "oc_status oc \<in> {401, 403}" "oc_forward oc = []"
  shows "denial r st oc"
  using assms handler_status [OF assms(1,2)]
  by (auto simp: auth_def Let_def write_defs denial_def split: sum.splits if_splits dest: authenticate_denial)

text \<open>
  A request that the console itself refuses for want of authentication or permission leaves
  exactly one audit entry, with result \<^verbatim>\<open>denied\<close> and the caller's address, and has no other
  effect.
\<close>

theorem refusals_are_audited:
  assumes "serve L a w r st = Some oc" "oc_status oc \<in> {401, 403}" "oc_forward oc = []"
  shows "\<exists>e. oc_audit oc = [e] \<and> ae_Result e = ''denied'' \<and> ae_ClientIP e = hr_RemoteAddr r \<and> oc_store oc = st"
proof -
  from assms(1) have "denial r st oc"
  proof (cases rule: serve_cases)
    case create
    then show ?thesis using createUser_denial assms(2) by blast
  next
    case login
    then show ?thesis using login_denial assms(2) by blast
  next
    case (routed rt)
    then show ?thesis using auth_denial assms(2,3) by blast
  qed
  then show ?thesis by (auto simp: denial_def)
qed

section \<open>Two weaknesses\<close>

text \<open>
  An operator who has confirmed a second factor loses it by enrolling again: until the new
  secret is confirmed, the password alone is enough to log in.
\<close>

theorem reenrolment_drops_second_factor:
  assumes user: "map_of (is_users st) u = Some row" "uw_totp_confirmed row" "uw_status row = ''active''"
    and enrol: "oc_status (totpEnroll L w r st sess) = 200" "sc_Username sess = u"
    and req: "lb_login L (hr_Body r') = Some (u, p, [])" "VerifyPassword (lb_kdf L) p (uw_password_hash row)"
    and w': "wd_db w' 0" "wd_db w' 1" "NewToken (wd_rnd w') = Some tok"
      "\<forall>s \<in> set (is_sessions st). sw_token_hash s \<noteq> TokenHash (lb_sha L) tok"
  shows "oc_status (login L a w' r' st) = 401 \<and> oc_status (login L a w' r' (oc_store (totpEnroll L w r st sess))) = 200"
proof -
  let ?st = "oc_store (totpEnroll L w r st sess)"
  obtain secret where st: "?st = update_user u (\<lambda>r. r\<lparr>uw_totp_secret := Some secret, uw_totp_confirmed := False\<rparr>) st"
    using enrol by (auto simp: totpEnroll_def write_defs SetTOTPSecret_def Let_def split: option.splits if_splits)
  then have "map_of (is_users ?st) u = Some (row\<lparr>uw_totp_secret := Some secret, uw_totp_confirmed := False\<rparr>)" "is_sessions ?st = is_sessions st"
    using user(1) by (simp_all add: map_of_update_user)
  with login_accepts(1) [OF req(1) this(1)] have "oc_status (login L a w' r' ?st) = 200" using req w' user(3) by simp
  moreover have "oc_status (login L a w' r' st) = 401" using user req w'(1) by (simp add: login_def FindUser_def write_defs)
  ultimately show ?thesis by blast
qed

text \<open>
  The count of operators and the insert are two statements. Two anonymous requests that both
  see an empty table both create an administrator, while the second one, had it come after
  the first, would have been refused.
\<close>

theorem bootstrap_race:
  assumes "is_users st = []" "u1 \<noteq> u2" "u1 \<noteq> []" "u2 \<noteq> []" "8 \<le> length p1" "8 \<le> length p2"
    and "HashPassword (lb_kdf L) (wd_rnd w1) p1 = Some h1" "HashPassword (lb_kdf L) (wd_rnd w2) p2 = Some h2"
    and "wd_db w1 3" "wd_db w2 3" "hr_Authorization r2 = []" "lb_user L (hr_Body r2) = Some (u2, p2, RoleAdmin)" "wd_db w2 2"
  shows "\<exists>st1 st2. oc_store (createUser_rest L w1 r1 0 (u1, p1, RoleAdmin) st) = st1 \<and>
    oc_status (createUser_rest L w2 r2 0 (u2, p2, RoleAdmin) st1) = 201 \<and>
    oc_store (createUser_rest L w2 r2 0 (u2, p2, RoleAdmin) st1) = st2 \<and> map fst (is_users st2) = [u1, u2] \<and>
    oc_status (createUser L w2 r2 st1) = 401"
  using assms
  by (simp add: createUser_rest_def createUser_checked_def CreateUser_def ValidRole_def rolePerms_def write_defs createUser_def
      UserCount_def authenticate_def CutPrefix_def go_HasPrefix_def)

section \<open>Sample runs\<close>

definition sample_libs :: libs where
  "sample_libs = \<lparr>lb_kdf = sample_kdf, lb_hmac = sample_hmac, lb_sha = (\<lambda>b. b), lb_query = (\<lambda>_ _. []),
     lb_user = (\<lambda>_. Some (''eve'', ''password2'', RoleAdmin)), lb_login = (\<lambda>_. Some (''root'', ''password1'', [])),
     lb_code = (\<lambda>_. None), lb_marshal = (\<lambda>_. None)\<rparr>"

definition calm :: world where
  "calm = \<lparr>wd_db = (\<lambda>_. True), wd_now = (\<lambda>_. 5), wd_rnd = Some [1, 2], wd_newreq = True, wd_upstream = (\<lambda>_. Some (202, [], Some []))\<rparr>"

definition sample_http :: "string \<Rightarrow> string \<Rightarrow> string \<Rightarrow> request" where
  "sample_http m p h = \<lparr>hr_Method = m, hr_Path = p, hr_RawQuery = [], hr_Authorization = h, hr_ContentType = [],
     hr_RemoteAddr = ''10.0.0.1'', hr_Body = []\<rparr>"

definition root_row :: "bool \<Rightarrow> user_row" where
  "root_row c = \<lparr>uw_password_hash = the (HashPassword sample_kdf (Some [1, 2]) ''password1''), uw_role = RoleAdmin,
     uw_totp_secret = (if c then Some ''GEZDGNBV'' else None), uw_totp_confirmed = c, uw_status = ''active''\<rparr>"

definition console_st :: "bool \<Rightarrow> IamStore" where
  "console_st c = \<lparr>is_users = [(''root'', root_row c)],
     is_sessions = [\<lparr>sw_session_id = 1, sw_token_hash = hex_encode (bytes_of ''tok''), sw_username = ''root'', sw_created_at = 0, sw_expires_at = 9\<rparr>],
     is_audit = [], is_next_session = 2, is_next_audit = 1\<rparr>"

lemma calm_up: "wd_newreq calm" "wd_upstream calm q = Some (202, [], Some [])"
  by (simp_all add: calm_def)

lemma calm_token: "NewToken (wd_rnd calm) = Some ''0102''"
  by (simp add: NewToken_def calm_def hex_digit_def char_of_def bit_0)

lemma sample_password: "VerifyPassword sample_kdf ''password1'' (uw_password_hash (root_row c))"
proof -
  obtain h where h: "HashPassword sample_kdf (Some [1, 2]) ''password1'' = Some h" by (simp add: HashPassword_def sample_kdf_def)
  have "\<forall>q s i n k. sample_kdf q s i n = Some k \<longrightarrow> length k = n" by (auto simp: sample_kdf_def)
  from VerifyPassword_hash [OF h this] show ?thesis using h by (simp add: root_row_def)
qed

lemma console_st_ok: "iam_ok (console_st c)"
  by (simp add: iam_ok_def console_st_def root_row_def ValidRole_def rolePerms_def)

theorem console_access_control_witness:
  "\<exists>oc u role. serve sample_libs \<lparr>ap_connectorAdmin = [], ap_sessionTTL = 8\<rparr> calm
       (sample_http ''POST'' ''/api/v1/command/submit'' ''Bearer tok'') (console_st False) = Some oc \<and> oc_forward oc \<noteq> [] \<and>
     valid_session sample_libs calm (sample_http ''POST'' ''/api/v1/command/submit'' ''Bearer tok'') (console_st False) u role"
proof -
  let ?a = "\<lparr>ap_connectorAdmin = [], ap_sessionTTL = 8\<rparr>" and ?r = "sample_http ''POST'' ''/api/v1/command/submit'' ''Bearer tok''"
  have m: "mux ?r = Some RSubmit" by (simp add: mux_def routes_def sample_http_def)
  have v: "authenticate sample_libs calm ?r act (console_st False) = Inr \<lparr>sc_Username = ''root'', sc_Role = RoleAdmin\<rparr>" for act
    by (simp add: authenticate_def CutPrefix_def go_HasPrefix_def sample_http_def FindSession_def FindUser_def calm_def console_st_def
        root_row_def TokenHash_def sample_libs_def)
  obtain oc where oc: "serve sample_libs ?a calm ?r (console_st False) = Some oc" "oc_forward oc \<noteq> []"
    by (simp add: serve_def m auth_def v HasPermission_def rolePerms_def proxy_def calm_up Let_def)
  from console_access_control [OF oc(1)] oc m show ?thesis by auto
qed


theorem refusals_are_audited_witness:
  "\<exists>oc e. serve sample_libs \<lparr>ap_connectorAdmin = [], ap_sessionTTL = 8\<rparr> calm (sample_http ''GET'' ''/api/v1/audit'' []) (console_st False) = Some oc \<and>
     oc_audit oc = [e] \<and> ae_Result e = ''denied''"
proof -
  let ?r = "sample_http ''GET'' ''/api/v1/audit'' []" and ?a = "\<lparr>ap_connectorAdmin = [], ap_sessionTTL = 8\<rparr>"
  have m: "mux ?r = Some RAudit" by (simp add: mux_def routes_def sample_http_def)
  have anon: "hr_Authorization ?r = []" by (simp add: sample_http_def)
  obtain oc where "serve sample_libs ?a calm ?r (console_st False) = Some oc" "oc_status oc \<in> {401, 403}" "oc_forward oc = []"
    by (simp add: serve_def m auth_def authenticate_def CutPrefix_def go_HasPrefix_def anon write_defs)
  with refusals_are_audited [of sample_libs ?a calm ?r "console_st False" oc] show ?thesis by blast
qed

lemma empty_no_users: "is_users empty_iam = []" "is_sessions empty_iam = []"
  by (simp_all add: empty_iam_def)

theorem bootstrap_race_witness:
  "\<exists>st. is_users (oc_store (createUser_rest sample_libs calm (sample_http ''POST'' ''/api/v1/users'' []) 0 (''root'', ''password1'', RoleAdmin) empty_iam))
       = st \<and> oc_status (createUser_rest sample_libs calm (sample_http ''POST'' ''/api/v1/users'' []) 0 (''eve'', ''password2'', RoleAdmin)
       (oc_store (createUser_rest sample_libs calm (sample_http ''POST'' ''/api/v1/users'' []) 0 (''root'', ''password1'', RoleAdmin) empty_iam))) = 201"
proof -
  obtain h1 h2 where "HashPassword (lb_kdf sample_libs) (wd_rnd calm) ''password1'' = Some h1"
    "HashPassword (lb_kdf sample_libs) (wd_rnd calm) ''password2'' = Some h2"
    by (simp add: HashPassword_def sample_kdf_def sample_libs_def calm_def)
  from bootstrap_race [OF empty_no_users(1) _ _ _ _ _ this, of "''root''" "''eve''" "sample_http ''POST'' ''/api/v1/users'' []"
      "sample_http ''POST'' ''/api/v1/users'' []"] show ?thesis
    by (auto simp: calm_def sample_http_def sample_libs_def)
qed

theorem reenrolment_drops_second_factor_witness:
  "oc_status (login sample_libs \<lparr>ap_connectorAdmin = [], ap_sessionTTL = 8\<rparr> calm (sample_http ''POST'' ''/api/v1/login'' [])
     (oc_store (totpEnroll sample_libs calm (sample_http ''POST'' ''/api/v1/totp/enroll'' ''Bearer tok'') (console_st True)
        \<lparr>sc_Username = ''root'', sc_Role = RoleAdmin\<rparr>))) = 200"
proof -
  have user: "map_of (is_users (console_st True)) ''root'' = Some (root_row True)" "uw_totp_confirmed (root_row True)"
    "uw_status (root_row True) = ''active''" by (simp_all add: console_st_def root_row_def)
  note t = calm_token
  have "oc_status (totpEnroll sample_libs calm (sample_http ''POST'' ''/api/v1/totp/enroll'' ''Bearer tok'') (console_st True)
      \<lparr>sc_Username = ''root'', sc_Role = RoleAdmin\<rparr>) = 200"
    by (simp add: totpEnroll_def GenerateSecret_def calm_def SetTOTPSecret_def write_defs)
  from reenrolment_drops_second_factor [OF user this _ _ _ _ _ t, of "sample_http ''POST'' ''/api/v1/login'' []" "''password1''"]
  show ?thesis using sample_password [of True]
    by (simp add: sample_libs_def calm_def console_st_def TokenHash_def bytes_of_def)
qed

theorem console_tables_consistent_witness:
  "\<exists>st. console_reach st \<and> is_users st \<noteq> [] \<and> (\<exists>(u, r) \<in> set (is_users st). uw_role r = RoleAdmin)"
proof -
  let ?oc = "createUser_rest sample_libs calm (sample_http ''POST'' ''/api/v1/users'' []) 0 (''root'', ''password1'', RoleAdmin) empty_iam"
  have r: "console_reach (oc_store ?oc)" by (rule cs_race [OF cs_start _ refl]) simp
  have "is_users (oc_store ?oc) \<noteq> []"
    by (simp add: createUser_rest_def createUser_checked_def HashPassword_def sample_libs_def sample_kdf_def calm_def CreateUser_def
        ValidRole_def rolePerms_def write_defs empty_iam_def)
  with console_tables_consistent [OF r] r show ?thesis by blast
qed

end
