(* ===== verification/Operator_Path.thy ===== *)
theory Operator_Path
  imports Console Connector
begin

text \<open>
  The operator's path through two programs: the console (\<^verbatim>\<open>cmd/console\<close>) authenticates, authorises and
  forwards; the admin interface of the connector (\<^verbatim>\<open>adminMux\<close> of \<^verbatim>\<open>cmd/connector\<close>) answers. The
  upstream the console's model leaves open is here the connector's model, over a network that
  may be down or lose the answer.
\<close>

section \<open>The admin interface as an HTTP server\<close>

fun http_code :: "http_status \<Rightarrow> nat" where
  "http_code StatusOK = 200"
| "http_code StatusAccepted = 202"
| "http_code StatusBadRequest = 400"
| "http_code StatusNotFound = 404"
| "http_code StatusConflict = 409"
| "http_code StatusInternalServerError = 500"

datatype admin_body = AdminError | AdminEmpty | AdminCmdID string | AdminResult result_view | AdminSessions "Session list"

text \<open>The standard library's parts: the values of a query, the JSON decoder, the rendering of an answer.\<close>

record admin_libs =
  al_query :: "string \<Rightarrow> string \<Rightarrow> string"
  al_decode :: "bytes \<Rightarrow> command_request option"
  al_render :: "admin_body \<Rightarrow> string \<times> bytes"

text \<open>\<open>am_down\<close>: the connector cannot be reached; \<open>am_lost\<close>: it answers, but the answer does not arrive.\<close>

record admin_world =
  am_db :: bool
  am_n1 :: int
  am_n2 :: int
  am_rnd :: bytes
  am_down :: bool
  am_lost :: bool

definition admin_sessions :: "'priv Server \<Rightarrow> Session list" where
  "admin_sessions s = Online (sv_sessions s)"

definition adminMux ::
  "admin_libs \<Rightarrow> admin_world \<Rightarrow> string \<Rightarrow> string \<Rightarrow> bytes \<Rightarrow> 'priv Server \<Rightarrow> (http_status \<times> admin_body) \<times> 'priv Server" where
  "adminMux L w path rawQuery body s =
     (let q = al_query L rawQuery in
      if path = ''/admin/command'' then
        (let (code, i, s') = admin_command (am_db w) (am_n1 w) (am_n2 w) (am_rnd w) (q ''asset_id'') (al_decode L body) s
         in ((code, if code \<noteq> StatusAccepted then AdminError else case i of None \<Rightarrow> AdminEmpty | Some j \<Rightarrow> AdminCmdID j), s'))
      else if path = ''/admin/cancel'' then
        (let (code, s') = admin_cancel (am_db w) (am_n1 w) (q ''asset_id'') (q ''cmd_id'') s
         in ((code, if code \<noteq> StatusAccepted then AdminError else AdminEmpty), s'))
      else if path = ''/admin/result'' then
        (let (code, v) = admin_result (am_db w) (q ''cmd_id'') s
         in ((code, case v of None \<Rightarrow> AdminError | Some v \<Rightarrow> AdminResult v), s))
      else if path = ''/admin/sessions'' then ((StatusOK, AdminSessions (admin_sessions s)), s)
      else ((StatusNotFound, AdminError), s))"

text \<open>The path and the query of a URL below a base.\<close>

definition url_parts :: "string \<Rightarrow> string \<Rightarrow> string \<times> string" where
  "url_parts base url =
     (let rest = drop (length base) url
      in (takeWhile (\<lambda>c. c \<noteq> CHR ''?'') rest, drop 1 (dropWhile (\<lambda>c. c \<noteq> CHR ''?'') rest)))"

text \<open>A request over the network: what the client gets, and the server afterwards.\<close>

definition connector_http ::
  "admin_libs \<Rightarrow> admin_world \<Rightarrow> string \<Rightarrow> upstream \<Rightarrow> 'priv Server \<Rightarrow> (nat \<times> string \<times> bytes option) option \<times> 'priv Server" where
  "connector_http L w base q s =
     (if am_down w then (None, s)
      else (let (path, rawQuery) = url_parts base (up_URL q);
                ((code, b), s') = adminMux L w path rawQuery (up_Body q) s;
                (ct, bs) = al_render L b
            in (if am_lost w then None else Some (http_code code, ct, Some bs), s')))"

text \<open>One request of an operator: the console's reply, and the connector after the requests forwarded to it.\<close>

definition through_console ::
  "libs \<Rightarrow> api \<Rightarrow> world \<Rightarrow> admin_libs \<Rightarrow> admin_world \<Rightarrow> request \<Rightarrow> IamStore \<Rightarrow> 'priv Server \<Rightarrow> (outcome \<times> 'priv Server) option" where
  "through_console L a w AL aw r st srv =
     (let w = w\<lparr>wd_upstream := (\<lambda>q. fst (connector_http AL aw (ap_connectorAdmin a) q srv))\<rparr>
      in map_option (\<lambda>oc. (oc, fold (\<lambda>q s. snd (connector_http AL aw (ap_connectorAdmin a) q s)) (oc_forward oc) srv)) (serve L a w r st))"

section \<open>Forwarded requests\<close>

lemma url_parts_proxy:
  assumes "CHR ''?'' \<notin> set path"
  shows "url_parts (ap_connectorAdmin a) (up_URL (proxy_request a path r)) = (path, hr_RawQuery r)"
  using assms by (simp add: url_parts_def proxy_request_def takeWhile_append dropWhile_append)

lemma valid_session_upstream [simp]: "valid_session L (w\<lparr>wd_upstream := f\<rparr>) r st u role = valid_session L w r st u role"
  by (simp add: valid_session_def)

text \<open>What a forwarding route with an audit entry does with the answer.\<close>

definition proxy_target :: "libs \<Rightarrow> request \<Rightarrow> string" where
  "proxy_target L r = (let q = lb_query L (hr_RawQuery r) in if q ''asset_id'' = [] then q ''cmd_id'' else q ''asset_id'')"

lemma proxy_unsent: "\<not> wd_newreq w \<Longrightarrow> oc_forward (proxy path action L a w r st sess) = [] \<and> oc_status (proxy path action L a w r st sess) = 500"
  by (simp add: proxy_def Let_def write_defs)

lemma proxy_answered:
  assumes "wd_newreq w" "wd_upstream w (proxy_request a path r) = Some (status, ct, Some body)" "action \<noteq> []"
  shows "proxy path action L a w r st sess =
    \<lparr>oc_status = status, oc_body = UpstreamBody ct (take (16 * 2 ^ 20) body),
     oc_audit = [audit L r (sc_Username sess) action (proxy_target L r) (if status \<ge> 400 then ''error'' else ''ok'') (UpstreamStatus status)],
     oc_forward = [proxy_request a path r], oc_store = st\<rparr>"
  using assms by (simp add: proxy_def proxy_target_def Let_def write_defs)

lemma proxy_unanswered:
  assumes "wd_newreq w" "wd_upstream w (proxy_request a path r) = None" "action \<noteq> []"
  shows "proxy path action L a w r st sess =
    \<lparr>oc_status = 502, oc_body = ErrBody ''connector_unreachable'',
     oc_audit = [audit L r (sc_Username sess) action (proxy_target L r) ''error'' (Reason ''connector_unreachable'')],
     oc_forward = [proxy_request a path r], oc_store = st\<rparr>"
  using assms by (simp add: proxy_def proxy_target_def Let_def write_defs)

lemma mux_path: "hr_Path r = p \<Longrightarrow> mux r = Some rt \<Longrightarrow> (\<exists>m. (m, p, rt) \<in> set routes)"
  by (auto simp: mux_def find_Some_iff dest!: nth_mem)

lemma mux_submit: "hr_Path r = ''/api/v1/command/submit'' \<Longrightarrow> mux r = Some rt \<Longrightarrow> rt = RSubmit"
  by (drule (1) mux_path) (auto simp: routes_def)

lemma serve_submit:
  assumes "serve L a w r st = Some oc" "hr_Path r = ''/api/v1/command/submit''"
  obtains (denied) "oc_status oc \<ge> 400" "oc_forward oc = []"
  | (allowed) sess where "valid_session L w r st (sc_Username sess) (sc_Role sess)" "HasPermission (sc_Role sess) PermCommandSubmit"
      "proxy ''/admin/command'' ''command.submit'' L a w r st sess = oc"
proof -
  obtain rt where "mux r = Some rt" using assms(1) by (auto simp: serve_def split: option.splits)
  with assms have "auth PermCommandSubmit ''command.submit'' (proxy ''/admin/command'' ''command.submit'' L a w r st) L w r st = oc"
    using mux_submit [OF assms(2)] by (auto simp: serve_def)
  then show ?thesis
  proof (cases rule: auth_cases)
    case denied
    then show ?thesis using that(1) by simp
  next
    case (allowed sess)
    then show ?thesis using that(2) by simp
  qed
qed

section \<open>From the operator's request to the ledger\<close>

text \<open>The new row of an accepted command: queued under a fresh UUID, with its one dispatch entry.\<close>

definition recorded :: "string \<Rightarrow> command_request \<Rightarrow> string \<Rightarrow> Store \<Rightarrow> 'priv Server \<Rightarrow> 'priv Server \<Rightarrow> bool" where
  "recorded asset q j pst srv srv' \<longleftrightarrow>
     (\<exists>pst' row. isUUID j \<and> srv' = srv\<lparr>sv_store := Some pst'\<rparr> \<and> store_reach pst' \<and> st_command pst j = None \<and> st_command pst' j = Some row \<and>
        cr_asset row = asset \<and> cr_action row = q_Action q \<and> cr_params row = q_Params q \<and> cr_status row = ''QUEUED'' \<and>
        cr_timeout row = (if q_TimeoutSec q \<le> 0 then 60 else q_TimeoutSec q) \<and> dispatches pst' j = [dispatch_payload j row])"

lemma adminMux_command:
  assumes "sv_store srv = Some pst" "store_reach pst" "length (am_rnd aw) = 16"
    and "adminMux AL aw ''/admin/command'' rawQuery body srv = ((code, b), srv')"
  shows "http_code code \<ge> 400 \<and> srv' = srv \<or>
    (\<exists>q j. code = StatusAccepted \<and> al_decode AL body = Some q \<and> b = AdminCmdID j \<and> recorded (al_query AL rawQuery ''asset_id'') q j pst srv srv')"
proof (cases "al_decode AL body")
  case None
  with assms(4) show ?thesis by (auto simp: adminMux_def admin_command_def)
next
  case (Some q)
  obtain code' i s' where c: "admin_command (am_db aw) (am_n1 aw) (am_n2 aw) (am_rnd aw) (al_query AL rawQuery ''asset_id'') (Some q) srv = (code', i, s')"
    by (metis prod_cases3)
  have r: "code' = code" "s' = srv'" "b = (if code \<noteq> StatusAccepted then AdminError else case i of None \<Rightarrow> AdminEmpty | Some j \<Rightarrow> AdminCmdID j)"
    using assms(4) Some c by (auto simp: adminMux_def)
  note rec = accepted_command_is_recorded [OF assms(1-3) c]
  show ?thesis
  proof (cases "code = StatusAccepted")
    case True
    with rec r(1) obtain j where "i = Some j" "recorded (al_query AL rawQuery ''asset_id'') q j pst srv s'"
      unfolding recorded_def by (simp only: simp_thms if_True) blast
    with True r Some show ?thesis by auto
  next
    case False
    moreover have "code \<noteq> StatusOK" using c r(1) assms(1) by (auto simp: admin_command_def Let_def split: if_splits prod.splits option.splits store_error.splits)
    ultimately show ?thesis using rec r(1,2) by (cases code) auto
  qed
qed

text \<open>What the operator sees of a recorded command.\<close>

definition told :: "libs \<Rightarrow> admin_libs \<Rightarrow> admin_world \<Rightarrow> request \<Rightarrow> string \<Rightarrow> string \<Rightarrow> outcome \<Rightarrow> bool" where
  "told L AL aw r u j oc \<longleftrightarrow>
     (if am_lost aw
      then oc_status oc = 502 \<and> oc_audit oc = [audit L r u ''command.submit'' (proxy_target L r) ''error'' (Reason ''connector_unreachable'')]
      else oc_status oc = 202 \<and> oc_audit oc = [audit L r u ''command.submit'' (proxy_target L r) ''ok'' (UpstreamStatus 202)] \<and>
        oc_body oc = UpstreamBody (fst (al_render AL (AdminCmdID j))) (take (16 * 2 ^ 20) (snd (al_render AL (AdminCmdID j)))))"

lemma connector_http_command:
  assumes "adminMux AL aw ''/admin/command'' (hr_RawQuery r) (hr_Body r) srv = ((code, b), s')"
  shows "connector_http AL aw (ap_connectorAdmin a) (proxy_request a ''/admin/command'' r) srv =
    (if am_down aw then (None, srv)
     else (if am_lost aw then None else Some (http_code code, fst (al_render AL b), Some (snd (al_render AL b))), s'))"
proof -
  have "url_parts (ap_connectorAdmin a) (up_URL (proxy_request a ''/admin/command'' r)) = (''/admin/command'', hr_RawQuery r)"
    by (rule url_parts_proxy) simp
  moreover have "up_Body (proxy_request a ''/admin/command'' r) = hr_Body r" by (simp add: proxy_request_def)
  ultimately show ?thesis using assms by (simp add: connector_http_def split: prod.splits)
qed

lemma proxied_command:
  assumes "proxy ''/admin/command'' ''command.submit'' L a w r st sess = oc"
    and up: "wd_upstream w = (\<lambda>q. fst (connector_http AL aw (ap_connectorAdmin a) q srv))"
    and srv': "srv' = fold (\<lambda>q s. snd (connector_http AL aw (ap_connectorAdmin a) q s)) (oc_forward oc) srv"
    and store: "sv_store srv = Some pst" "store_reach pst" "length (am_rnd aw) = 16"
  shows "oc_status oc \<ge> 400 \<and> srv' = srv \<or>
    (\<exists>q j. al_decode AL (hr_Body r) = Some q \<and> recorded (al_query AL (hr_RawQuery r) ''asset_id'') q j pst srv srv' \<and>
       told L AL aw r (sc_Username sess) j oc)"
proof (cases "wd_newreq w")
  case False
  with assms(1) proxy_unsent [of w] srv' show ?thesis by auto
next
  case sent: True
  obtain code b s' where m: "adminMux AL aw ''/admin/command'' (hr_RawQuery r) (hr_Body r) srv = ((code, b), s')" by (metis prod.collapse)
  note http = connector_http_command [OF m, of a] and mux = adminMux_command [OF store m]
  show ?thesis
  proof (cases "am_down aw \<or> am_lost aw")
    case True
    then have "wd_upstream w (proxy_request a ''/admin/command'' r) = None" by (auto simp: http up)
    from proxy_unanswered [OF sent this, of "''command.submit''" L st sess] assms(1) have oc: "oc_status oc = 502"
      "oc_forward oc = [proxy_request a ''/admin/command'' r]"
      "oc_audit oc = [audit L r (sc_Username sess) ''command.submit'' (proxy_target L r) ''error'' (Reason ''connector_unreachable'')]" by auto
    have "srv' = (if am_down aw then srv else s')" using srv' oc(2) http by simp
    with mux show ?thesis using oc True by (cases "am_down aw") (auto simp: told_def)
  next
    case False
    then have "wd_upstream w (proxy_request a ''/admin/command'' r) = Some (http_code code, fst (al_render AL b), Some (snd (al_render AL b)))"
      by (auto simp: http up)
    note oc = proxy_answered [OF sent this, of "''command.submit''" L st sess, unfolded assms(1), simplified]
    have "srv' = s'" using srv' oc http False by simp
    with mux show ?thesis using oc False by (auto simp: told_def)
  qed
qed

lemma operator_submission:
  assumes thr: "through_console L a w AL aw r st srv = Some (oc, srv')" and path: "hr_Path r = ''/api/v1/command/submit''"
    and store: "sv_store srv = Some pst" "store_reach pst" "length (am_rnd aw) = 16"
  shows "oc_status oc \<ge> 400 \<and> srv' = srv \<or>
    (\<exists>u role q j. valid_session L w r st u role \<and> HasPermission role PermCommandSubmit \<and> al_decode AL (hr_Body r) = Some q \<and>
       recorded (al_query AL (hr_RawQuery r) ''asset_id'') q j pst srv srv' \<and> told L AL aw r u j oc)"
proof -
  let ?w = "w\<lparr>wd_upstream := (\<lambda>q. fst (connector_http AL aw (ap_connectorAdmin a) q srv))\<rparr>"
  have served: "serve L a ?w r st = Some oc"
    and srv': "srv' = fold (\<lambda>q s. snd (connector_http AL aw (ap_connectorAdmin a) q s)) (oc_forward oc) srv"
    using thr by (auto simp: through_console_def Let_def)
  show ?thesis
    using served path
  proof (cases rule: serve_submit)
    case denied
    then show ?thesis using srv' by simp
  next
    case (allowed sess)
    from proxied_command [OF allowed(3) _ srv' store] allowed(1,2) show ?thesis by auto
  qed
qed

text \<open>
  C6: a submission through the console and the connector. Either the operator gets an
  error and the connector is as before, or the request carries the token of an unexpired
  session of an active operator whose role may submit commands, and the platform's ledger
  has the requested command as queued under a fresh UUID with its one dispatch entry. Then
  the operator is told the UUID and the audit log names the operator and the success; only
  when the connector's answer was lost does the operator get an error for a recorded
  command, and the audit log says so too.
\<close>

theorem operator_command_recorded:
  assumes thr: "through_console L a w AL aw r st srv = Some (oc, srv')" and path: "hr_Path r = ''/api/v1/command/submit''"
    and store: "sv_store srv = Some pst" "store_reach pst" "length (am_rnd aw) = 16"
  shows "oc_status oc \<ge> 400 \<and> srv' = srv \<or>
    (\<exists>u role q j. valid_session L w r st u role \<and> HasPermission role PermCommandSubmit \<and> al_decode AL (hr_Body r) = Some q \<and>
       recorded (al_query AL (hr_RawQuery r) ''asset_id'') q j pst srv srv' \<and> told L AL aw r u j oc)"
  using operator_submission [OF assms] .

text \<open>Conversely, an operator with a session and the permission gets the command recorded when nothing fails.\<close>

lemma operator_command_accepted:
  assumes "iam_ok st" "valid_session L w r st u role" "HasPermission role PermCommandSubmit" "wd_db w 0" "wd_db w 1" "wd_newreq w"
    and "hr_Method r = ''POST''" "hr_Path r = ''/api/v1/command/submit''"
    and "sv_store srv = Some pst" "am_db aw" "\<not> am_down aw" "\<not> am_lost aw" "al_decode AL (hr_Body r) = Some q" "q_Action q \<noteq> []"
    and "al_query AL (hr_RawQuery r) ''asset_id'' \<noteq> []" "st_command pst (if isUUID (q_CmdID q) then q_CmdID q else NewUUID (am_rnd aw)) = None"
  shows "\<exists>oc srv'. through_console L a w AL aw r st srv = Some (oc, srv') \<and> oc_status oc = 202"
proof -
  let ?up = "\<lambda>q. fst (connector_http AL aw (ap_connectorAdmin a) q srv)"
  let ?w = "w\<lparr>wd_upstream := ?up\<rparr>"
  obtain b s' where m: "adminMux AL aw ''/admin/command'' (hr_RawQuery r) (hr_Body r) srv = ((StatusAccepted, b), s')"
    using assms(9,10,13-16) by (simp add: adminMux_def admin_command_def SubmitCommand_def Let_def)
  have up: "?up (proxy_request a ''/admin/command'' r) = Some (202, fst (al_render AL b), Some (snd (al_render AL b)))"
    using connector_http_command [OF m] assms(11,12) by simp
  have mux: "mux r = Some RSubmit" using assms(7,8) by (simp add: mux_def routes_def)
  have "authenticate L ?w r ''command.submit'' st = Inr \<lparr>sc_Username = u, sc_Role = role\<rparr>"
    using assms(1,2,4,5) by (intro authenticate_complete) simp_all
  then have "serve L a ?w r st = Some (proxy ''/admin/command'' ''command.submit'' L a ?w r st \<lparr>sc_Username = u, sc_Role = role\<rparr>)"
    using mux assms(3) by (simp add: serve_def auth_def)
  moreover have "oc_status (proxy ''/admin/command'' ''command.submit'' L a ?w r st \<lparr>sc_Username = u, sc_Role = role\<rparr>) = 202"
    using proxy_answered [of ?w a "''/admin/command''" r 202] up assms(6) by simp
  ultimately show ?thesis by (simp add: through_console_def Let_def)
qed

definition sample_admin :: admin_libs where
  "sample_admin = \<lparr>al_query = (\<lambda>_ k. ''h''), al_decode = (\<lambda>_. Some \<lparr>q_CmdID = [], q_Action = ''uptime'', q_Params = [], q_TimeoutSec = 0\<rparr>),
     al_render = (\<lambda>_. ([], []))\<rparr>"

definition sample_net :: admin_world where
  "sample_net = \<lparr>am_db = True, am_n1 = 0, am_n2 = 0, am_rnd = replicate 16 0, am_down = False, am_lost = False\<rparr>"

lemma sample_session:
  "valid_session sample_libs calm (sample_http m p ''Bearer tok'') (console_st False) ''root'' RoleAdmin"
proof -
  have "authenticate sample_libs calm (sample_http m p ''Bearer tok'') [] (console_st False) =
      Inr \<lparr>sc_Username = ''root'', sc_Role = RoleAdmin\<rparr>"
    by (simp add: authenticate_def CutPrefix_def go_HasPrefix_def sample_http_def FindSession_def FindUser_def calm_def console_st_def
        root_row_def TokenHash_def sample_libs_def)
  from authenticate_Inr [OF this] show ?thesis by simp
qed

theorem operator_command_recorded_witness:
  "\<exists>oc srv' j u role. through_console sample_libs \<lparr>ap_connectorAdmin = ''c'', ap_sessionTTL = 8\<rparr> calm sample_admin sample_net
       (sample_http ''POST'' ''/api/v1/command/submit'' ''Bearer tok'') (console_st False) (SetStore (NewServer (None :: unit option)) empty_store) = Some (oc, srv') \<and>
     oc_status oc = 202 \<and> valid_session sample_libs calm (sample_http ''POST'' ''/api/v1/command/submit'' ''Bearer tok'') (console_st False) u role \<and>
     recorded ''h'' \<lparr>q_CmdID = [], q_Action = ''uptime'', q_Params = [], q_TimeoutSec = 0\<rparr> j empty_store (SetStore (NewServer None) empty_store) srv'"
proof -
  let ?r = "sample_http ''POST'' ''/api/v1/command/submit'' ''Bearer tok''" and ?a = "\<lparr>ap_connectorAdmin = ''c'', ap_sessionTTL = 8\<rparr>"
  let ?srv = "SetStore (NewServer (None :: unit option)) empty_store"
  have "\<exists>oc srv'. through_console sample_libs ?a calm sample_admin sample_net ?r (console_st False) ?srv = Some (oc, srv') \<and> oc_status oc = 202"
    by (rule operator_command_accepted [OF console_st_ok sample_session, where pst = empty_store and q = "\<lparr>q_CmdID = [], q_Action = ''uptime'', q_Params = [], q_TimeoutSec = 0\<rparr>"])
      (simp_all add: HasPermission_def rolePerms_def calm_def sample_http_def SetStore_def sample_net_def sample_admin_def empty_store_def)
  then obtain oc srv' where t: "through_console sample_libs ?a calm sample_admin sample_net ?r (console_st False) ?srv = Some (oc, srv')"
    "oc_status oc = 202" by blast
  have "sv_store ?srv = Some empty_store" "length (am_rnd sample_net) = 16" "hr_Path ?r = ''/api/v1/command/submit''"
    by (simp_all add: SetStore_def sample_net_def sample_http_def)
  from operator_command_recorded [OF t(1) this(3,1) store_empty this(2)] t sample_session show ?thesis
    by (auto simp: sample_admin_def)
qed

section \<open>From the agent's report to the operator\<close>

lemma report_item_store:
  assumes "sv_store s = Some st"
  shows "sv_store (report_item status_of k db i payload s) =
    Some (if k = KindResults then snd (CompleteCommand db st i (resultStatus status_of payload) (Some payload)) else st)"
  using assms by (simp add: report_item_def persist_def Let_def)

text \<open>The row of a command after a report whose database writes succeed; \<open>map_of\<close> finds its item.\<close>

lemma report_items_row:
  assumes "report_items status_of KindResults its ws s = (ids, True, s')" "distinct (map fst its)" "\<forall>w \<in> set ws. rw_db w"
    and "sv_store s = Some st" "st_command st j = Some row"
  shows "\<exists>st'. sv_store s' = Some st' \<and> st_command st' j = Some (case map_of its j of None \<Rightarrow> row
    | Some payload \<Rightarrow> row\<lparr>cr_status := resultStatus status_of payload, cr_result := Some payload\<rparr>)"
  using assms
proof (induction its arbitrary: ws s st row ids)
  case (Cons it its)
  obtain w ws' where w: "ws = w # ws'" using Cons.prems(1) by (cases ws) auto
  let ?s = "report_item status_of KindResults (rw_db w) (fst it) (snd it) s"
  obtain ids' where r: "report_items status_of KindResults its ws' ?s = (ids', True, s')"
    using Cons.prems(1) w by (auto simp: Let_def split: if_splits prod.splits)
  let ?st = "snd (CompleteCommand True st (fst it) (resultStatus status_of (snd it)) (Some (snd it)))"
  have st: "sv_store ?s = Some ?st" using report_item_store [OF Cons.prems(4)] Cons.prems(3) w by simp
  let ?row = "if fst it = j then row\<lparr>cr_status := resultStatus status_of (snd it), cr_result := Some (snd it)\<rparr> else row"
  have row: "st_command ?st j = Some ?row" using Cons.prems(5) by (auto simp: CompleteCommand_def split: option.splits)
  have "\<exists>st'. sv_store s' = Some st' \<and> st_command st' j = Some (case map_of its j of None \<Rightarrow> ?row
      | Some payload \<Rightarrow> ?row\<lparr>cr_status := resultStatus status_of payload, cr_result := Some payload\<rparr>)"
    using Cons.prems(2,3) w by (intro Cons.IH [OF r _ _ st row]) auto
  moreover have "map_of its j = None" if "fst it = j" using Cons.prems(2) that by (auto simp: map_of_eq_None_iff)
  ultimately show ?case by (cases it; cases "fst it = j") (simp_all cong: option.case_cong)
qed auto

lemma connector_http_proxy:
  assumes "CHR ''?'' \<notin> set path" "adminMux AL aw path (hr_RawQuery r) (hr_Body r) srv = ((code, b), s')" "\<not> am_down aw" "\<not> am_lost aw"
  shows "connector_http AL aw (ap_connectorAdmin a) (proxy_request a path r) srv =
    (Some (http_code code, fst (al_render AL b), Some (snd (al_render AL b))), s')"
  using assms url_parts_proxy [OF assms(1), of a r]
  by (simp add: connector_http_def split: prod.splits) (simp add: proxy_request_def)

text \<open>
  C7: a result on its way back. When the connector acknowledged a report of results and its
  database writes succeeded, an operator with a session and the permission who asks the
  console for one of the commands gets, for the command's asset and action, the status the
  agent reported and the agent's payload; asking changes nothing at the connector.
\<close>

theorem operator_sees_result:
  assumes rep: "reports_turn status_of KindResults its ws sendok srv = (Some ids, srv1)" "(j, payload) \<in> set its" "distinct (map fst its)"
      "\<forall>w \<in> set ws. rw_db w"
    and row: "sv_store srv = Some pst" "st_command pst j = Some row"
    and operator: "iam_ok st" "valid_session L w r st u role" "HasPermission role PermCommandResult" "wd_db w 0" "wd_db w 1" "wd_newreq w"
    and req: "hr_Method r = ''GET''" "hr_Path r = ''/api/v1/command/result''" "al_query AL (hr_RawQuery r) ''cmd_id'' = j"
    and net: "am_db aw" "\<not> am_down aw" "\<not> am_lost aw"
  shows "\<exists>oc ci. through_console L a w AL aw r st srv1 = Some (oc, srv1) \<and> oc_status oc = 200 \<and>
    oc_body oc = UpstreamBody (fst (al_render AL (AdminResult (ViewStore ci)))) (take (16 * 2 ^ 20) (snd (al_render AL (AdminResult (ViewStore ci))))) \<and>
    ci_CmdID ci = j \<and> ci_AssetID ci = cr_asset row \<and> ci_Action ci = cr_action row \<and>
    ci_Status ci = resultStatus status_of payload \<and> ci_Result ci = Some payload"
proof -
  obtain ids' where items: "report_items status_of KindResults its ws srv = (ids', True, srv1)"
    using rep(1) by (auto simp: reports_turn_def split: prod.splits if_splits)
  have "map_of its j = Some payload" using rep(2,3) by simp
  with report_items_row [OF items rep(3,4) row] obtain st' where st': "sv_store srv1 = Some st'"
    "st_command st' j = Some (row\<lparr>cr_status := resultStatus status_of payload, cr_result := Some payload\<rparr>)" by auto
  obtain ci where ci: "CommandStatus True st' j = Inr ci" "ci_CmdID ci = j" "ci_AssetID ci = cr_asset row" "ci_Action ci = cr_action row"
    "ci_Status ci = resultStatus status_of payload" "ci_Result ci = Some payload"
    using st'(2) by (simp add: CommandStatus_def)
  have m: "adminMux AL aw ''/admin/result'' (hr_RawQuery r) (hr_Body r) srv1 = ((StatusOK, AdminResult (ViewStore ci)), srv1)"
    using ci(1) st'(1) req(3) net(1) by (simp add: adminMux_def admin_result_def)
  let ?up = "\<lambda>q. fst (connector_http AL aw (ap_connectorAdmin a) q srv1)"
  let ?w = "w\<lparr>wd_upstream := ?up\<rparr>" and ?sess = "\<lparr>sc_Username = u, sc_Role = role\<rparr>"
  note http = connector_http_proxy [OF _ m net(2,3), of a]
  have mux: "mux r = Some RResult" using req(1,2) by (simp add: mux_def routes_def)
  have "authenticate L ?w r [] st = Inr ?sess" using operator(1,2,4,5) by (intro authenticate_complete) simp_all
  then have "serve L a ?w r st = Some (proxy ''/admin/result'' [] L a ?w r st ?sess)"
    using mux operator(3) by (simp add: serve_def auth_def)
  moreover have "proxy ''/admin/result'' [] L a ?w r st ?sess =
      \<lparr>oc_status = 200, oc_body = UpstreamBody (fst (al_render AL (AdminResult (ViewStore ci)))) (take (16 * 2 ^ 20) (snd (al_render AL (AdminResult (ViewStore ci))))),
       oc_audit = [], oc_forward = [proxy_request a ''/admin/result'' r], oc_store = st\<rparr>"
    using http operator(6) by (simp add: proxy_def Let_def write_defs)
  ultimately show ?thesis using ci http by (simp add: through_console_def Let_def) blast
qed

definition sample_ledger :: Store where
  "sample_ledger = snd (SubmitCommand True 0 empty_store ''h'' ''asset'' ''uptime'' [] 60 300)"

theorem operator_sees_result_witness:
  "\<exists>srv1 oc (ci :: CommandInfo). reports_turn (\<lambda>_. Some ''FAILED'') KindResults [(''h'', [7])] [\<lparr>rw_sink = True, rw_db = True\<rparr>] True
       (SetStore (NewServer (None :: unit option)) sample_ledger) = (Some [''h''], srv1) \<and>
     through_console sample_libs \<lparr>ap_connectorAdmin = ''c'', ap_sessionTTL = 8\<rparr> calm sample_admin sample_net
       (sample_http ''GET'' ''/api/v1/command/result'' ''Bearer tok'') (console_st False) srv1 = Some (oc, srv1) \<and> oc_status oc = 200 \<and>
     ci_Status ci = ''FAILED'' \<and> ci_Result ci = Some [7]"
proof -
  let ?r = "sample_http ''GET'' ''/api/v1/command/result'' ''Bearer tok''" and ?srv = "SetStore (NewServer (None :: unit option)) sample_ledger"
  let ?st = "\<lambda>_. Some ''FAILED'' :: string option" and ?ws = "[\<lparr>rw_sink = True, rw_db = True\<rparr>]"
  obtain srv1 where t: "reports_turn ?st KindResults [(''h'', [7])] ?ws True ?srv = (Some [''h''], srv1)"
    by (simp add: reports_turn_def)
  obtain row where row: "sv_store ?srv = Some sample_ledger" "st_command sample_ledger ''h'' = Some row"
    by (simp add: SetStore_def sample_ledger_def SubmitCommand_def empty_store_def Let_def)
  have o: "HasPermission RoleAdmin PermCommandResult" "wd_db calm 0" "wd_db calm 1" "wd_newreq calm" "hr_Method ?r = ''GET''"
    "hr_Path ?r = ''/api/v1/command/result''" "al_query sample_admin (hr_RawQuery ?r) ''cmd_id'' = ''h''" "am_db sample_net" "\<not> am_down sample_net" "\<not> am_lost sample_net"
    by (simp_all add: HasPermission_def rolePerms_def calm_def sample_http_def sample_admin_def sample_net_def)
  have its: "(''h'', [7]) \<in> set [(''h'', [7 :: 8 word])]" "distinct (map fst [(''h'', [7 :: 8 word])])" "\<forall>w \<in> set ?ws. rw_db w" by simp_all
  from operator_sees_result [OF t its row console_st_ok sample_session o, where a = "\<lparr>ap_connectorAdmin = ''c'', ap_sessionTTL = 8\<rparr>"]
  obtain oc and ci :: CommandInfo where "through_console sample_libs \<lparr>ap_connectorAdmin = ''c'', ap_sessionTTL = 8\<rparr> calm sample_admin sample_net ?r (console_st False) srv1 = Some (oc, srv1)"
    "oc_status oc = 200" "ci_Status ci = resultStatus ?st [7]" "ci_Result ci = Some [7]" by blast
  moreover have "resultStatus ?st [7] = ''FAILED''" by (simp add: resultStatus_def)
  ultimately show ?thesis using t by metis
qed

text \<open>
  An acknowledgement does not wait for the database: when the write of a result fails, the report is
  acknowledged all the same, the agent drops it, and the ledger, which answers the
  operators, keeps the command as it was.
\<close>

lemma acknowledged_result_lost:
  assumes "sv_store srv = Some pst"
  shows "\<exists>srv1. reports_turn status_of KindResults [(j, payload)] [\<lparr>rw_sink = True, rw_db = False\<rparr>] True srv = (Some [j], srv1) \<and>
    sv_store srv1 = Some pst"
  using report_item_store [OF assms, of status_of KindResults False j payload] by (simp add: reports_turn_def CompleteCommand_def)

end
