(* ===== verification/Host_Text.thy ===== *)
theory Host_Text
  imports Text_Codec Complex_Main
begin

text \<open>
  The parts of \<^verbatim>\<open>strings\<close>, \<^verbatim>\<open>strconv\<close>, \<^verbatim>\<open>bufio\<close> and \<^verbatim>\<open>path/filepath\<close> with which the collectors and the inventory
  read what the host tells about itself in text files. A \<^verbatim>\<open>float64\<close> is an exact rational:
  rounding is not modelled. \<^verbatim>\<open>strconv.ParseFloat\<close> is an argument of the functions that call it.
\<close>

section \<open>Functions of package strings\<close>

text \<open>White space is ASCII white space.\<close>

definition is_space :: "char \<Rightarrow> bool" where
  "is_space c \<longleftrightarrow> (of_char c :: nat) \<in> {9, 10, 11, 12, 13, 32}"

fun split_at_spaces :: "string \<Rightarrow> string list" where
  "split_at_spaces [] = [[]]"
| "split_at_spaces (c # cs) =
     (if is_space c then [] # split_at_spaces cs
      else case split_at_spaces cs of [] \<Rightarrow> [[c]] | p # ps \<Rightarrow> (c # p) # ps)"

definition go_Fields :: "string \<Rightarrow> string list" where
  "go_Fields s = filter (\<lambda>p. p \<noteq> []) (split_at_spaces s)"

definition go_TrimSuffix :: "string \<Rightarrow> string \<Rightarrow> string" where
  "go_TrimSuffix s p = (if go_HasSuffix s p then take (length s - length p) s else s)"

fun go_Index :: "string \<Rightarrow> string \<Rightarrow> nat option" where
  "go_Index [] sub = (if sub = [] then Some 0 else None)"
| "go_Index (c # cs) sub = (if go_HasPrefix (c # cs) sub then Some 0 else map_option Suc (go_Index cs sub))"

text \<open>\<^verbatim>\<open>v, _ = strconv.Atoi(s)\<close>: 0 for a syntax error, the nearest bound for an overflow.\<close>

definition atoi_value :: "string \<Rightarrow> int" where
  "atoi_value s =
     (case go_Atoi s of
        Some v \<Rightarrow> v
      | None \<Rightarrow>
          (let ds = (if s \<noteq> [] \<and> (hd s = CHR ''-'' \<or> hd s = CHR ''+'') then tl s else s)
           in if ds = [] \<or> digits_value 0 ds = None then 0
              else if hd s = CHR ''-'' then - (2 ^ 63) else 2 ^ 63 - 1))"

definition go_TrimLeft :: "(char \<Rightarrow> bool) \<Rightarrow> string \<Rightarrow> string" where
  "go_TrimLeft p s = dropWhile p s"

definition go_TrimRight :: "(char \<Rightarrow> bool) \<Rightarrow> string \<Rightarrow> string" where
  "go_TrimRight p s = rev (dropWhile p (rev s))"

definition go_TrimSpace :: "string \<Rightarrow> string" where
  "go_TrimSpace s = go_TrimRight is_space (go_TrimLeft is_space s)"

text \<open>\<^verbatim>\<open>strings.Count(s, sub)\<close> for a non-empty \<open>sub\<close>: non-overlapping occurrences from the left.\<close>

function go_Count :: "string \<Rightarrow> string \<Rightarrow> nat" where
  "go_Count [] sub = 0"
| "go_Count (c # cs) sub =
     (if sub \<noteq> [] \<and> go_HasPrefix (c # cs) sub then Suc (go_Count (drop (length sub) (c # cs)) sub) else go_Count cs sub)"
  by pat_completeness auto
termination
  by (relation "measure (\<lambda>(s, sub). length s)") auto

text \<open>\<^verbatim>\<open>strconv.ParseUint(s, 10, 64)\<close>: digits only, the value within 64 bits.\<close>

definition go_ParseUint :: "string \<Rightarrow> 64 word option" where
  "go_ParseUint s =
     (if s = [] then None
      else case digits_value 0 s of None \<Rightarrow> None | Some v \<Rightarrow> if v < 2 ^ 64 then Some (word_of_nat v) else None)"

text \<open>
  \<^verbatim>\<open>bufio.Scanner\<close> over the lines of a file: the carriage return before a line feed is dropped, the
  empty text behind the last line feed is no line, and a line of 64 KiB or more stops the
  scan with an error.
\<close>

definition drop_cr :: "string \<Rightarrow> string" where
  "drop_cr s = (if s \<noteq> [] \<and> last s = CHR 0x0D then butlast s else s)"

fun scan_from :: "string list \<Rightarrow> string list \<times> bool" where
  "scan_from [] = ([], False)"
| "scan_from (l # ls) =
     (if length l \<ge> 65536 then ([], True) else let (xs, err) = scan_from ls in (drop_cr l # xs, err))"

definition scan_lines :: "string \<Rightarrow> string list \<times> bool" where
  "scan_lines s = scan_from (let ls = go_Split (CHR 0x0A) s in if last ls = [] then butlast ls else ls)"

section \<open>Paths (\<^verbatim>\<open>path/filepath\<close>)\<close>

text \<open>Lexical cleaning: the elements seen so far are kept in reverse.\<close>

fun clean_parts :: "bool \<Rightarrow> string list \<Rightarrow> string list \<Rightarrow> string list" where
  "clean_parts rooted acc [] = rev acc"
| "clean_parts rooted acc (p # ps) =
     (if p = [] \<or> p = ''.'' then clean_parts rooted acc ps
      else if p = ''..'' then
        (if acc \<noteq> [] \<and> hd acc \<noteq> ''..'' then clean_parts rooted (tl acc) ps
         else if rooted then clean_parts rooted acc ps
         else clean_parts rooted (p # acc) ps)
      else clean_parts rooted (p # acc) ps)"

fun join_with :: "char \<Rightarrow> string list \<Rightarrow> string" where
  "join_with c [] = []"
| "join_with c [p] = p"
| "join_with c (p # q # ps) = p @ c # join_with c (q # ps)"

definition go_IsAbs :: "string \<Rightarrow> bool" where
  "go_IsAbs p \<longleftrightarrow> go_HasPrefix p ''/''"

definition go_Clean :: "string \<Rightarrow> string" where
  "go_Clean p =
     (let s = (if go_IsAbs p then ''/'' else []) @ join_with (CHR ''/'') (clean_parts (go_IsAbs p) [] (go_Split (CHR ''/'') p))
      in if s = [] then ''.'' else s)"

definition go_Join :: "string \<Rightarrow> string \<Rightarrow> string" where
  "go_Join a b = (if a \<noteq> [] then go_Clean (a @ ''/'' @ b) else if b \<noteq> [] then go_Clean b else [])"

definition go_Base :: "string \<Rightarrow> string" where
  "go_Base p =
     (if p = [] then ''.''
      else (let q = rev (dropWhile (\<lambda>c. c = CHR ''/'') (rev p))
            in if q = [] then ''/'' else last (go_Split (CHR ''/'') q)))"

section \<open>Lemmas\<close>

lemma HasPrefix_append: "length p \<le> length s \<Longrightarrow> go_HasPrefix (s @ t) p = go_HasPrefix s p"
  by (simp add: go_HasPrefix_def)

lemma HasPrefix_short: "go_HasPrefix s p \<Longrightarrow> length p \<le> length s"
  unfolding go_HasPrefix_def by (metis length_take min.cobounded1)

lemma go_Index_length: "go_Index s p = Some i \<Longrightarrow> i + length p \<le> length s"
proof (induction s arbitrary: i)
  case (Cons c s)
  then show ?case by (auto split: if_splits dest: HasPrefix_short)
qed (auto split: if_splits)

lemma go_Index_append: "go_Index s p = Some i \<Longrightarrow> go_Index (s @ t) p = Some i"
proof (induction s arbitrary: i)
  case Nil
  then show ?case by (cases t) (auto simp: go_HasPrefix_def split: if_splits)
next
  case (Cons c s)
  show ?case
  proof (cases "go_HasPrefix (c # s) p")
    case True
    then show ?thesis using Cons.prems HasPrefix_append [OF HasPrefix_short [OF True], of t] by simp
  next
    case False
    with Cons.prems obtain j where j: "go_Index s p = Some j" "i = Suc j" by auto
    then have "length p \<le> length (c # s)" using go_Index_length [OF j(1)] by simp
    with False HasPrefix_append [of p "c # s" t] Cons.IH [OF j(1)] j(2) show ?thesis by simp
  qed
qed

lemma split_at_spaces_ne: "split_at_spaces s \<noteq> []"
  by (induction s) (auto split: list.splits)

lemma split_at_spaces_no_space: "p \<in> set (split_at_spaces s) \<Longrightarrow> c \<in> set p \<Longrightarrow> \<not> is_space c"
proof (induction s arbitrary: p)
  case (Cons a s)
  note IH = Cons.IH and prems = Cons.prems
  show ?case
  proof (cases "split_at_spaces s")
    case (Cons q qs)
    then have "c \<in> set q \<Longrightarrow> \<not> is_space c" using IH [of q] by auto
    then show ?thesis using prems Cons IH [of p] by (auto split: if_splits)
  qed (use split_at_spaces_ne in blast)
qed simp

text \<open>A field is never empty and holds no white space.\<close>

lemma go_Fields_word: "f \<in> set (go_Fields s) \<Longrightarrow> f \<noteq> [] \<and> (\<forall>c \<in> set f. \<not> is_space c)"
  by (auto simp: go_Fields_def dest: split_at_spaces_no_space)

end
