(* ===== verification/Event_Runs.thy ===== *)
theory Event_Runs
  imports Agent_Prelude "HOL-Library.Sublist"
begin

text \<open>
  Runs of a component whose steps emit events, and the contracts under which properties of one
  step become properties of every run. A step that panics ends the run.
\<close>

fun run_ops :: "('op \<Rightarrow> 's \<Rightarrow> ('e list \<times> 's) option) \<Rightarrow> 'op list \<Rightarrow> 's \<Rightarrow> 'e list \<times> 's" where
  "run_ops step [] s = ([], s)"
| "run_ops step (x # xs) s =
     (case step x s of
        None \<Rightarrow> ([], s)
      | Some (ev, s') \<Rightarrow> (let (evs, t) = run_ops step xs s' in (ev @ evs, t)))"

text \<open>A component with an invariant; some facts an event reports stay true.\<close>

locale event_invariant =
  fixes step :: "'op \<Rightarrow> 's \<Rightarrow> ('e list \<times> 's) option"
    and inv :: "'s \<Rightarrow> bool"
    and fact :: "'e \<Rightarrow> 's \<Rightarrow> bool"
  assumes step_inv: "step x s = Some (ev, s') \<Longrightarrow> inv s \<Longrightarrow> inv s'"
    and step_fact: "step x s = Some (ev, s') \<Longrightarrow> inv s \<Longrightarrow> e \<in> set ev \<Longrightarrow> fact e s'"
    and step_keeps: "step x s = Some (ev, s') \<Longrightarrow> inv s \<Longrightarrow> fact e s \<Longrightarrow> fact e s'"
begin

lemma run_keeps: "run_ops step ops s = (evs, t) \<Longrightarrow> inv s \<Longrightarrow> inv t \<and> (\<forall>e. fact e s \<or> e \<in> set evs \<longrightarrow> fact e t)"
proof (induction ops arbitrary: s evs)
  case (Cons x ops)
  show ?case
  proof (cases "step x s")
    case (Some p)
    then obtain ev s' where st: "step x s = Some (ev, s')" by (cases p) auto
    obtain evs' where r: "run_ops step ops s' = (evs', t)" "evs = ev @ evs'" using Cons.prems st by (auto split: prod.splits)
    from Cons.IH [OF r(1) step_inv [OF st Cons.prems(2)]] show ?thesis
      using step_fact [OF st Cons.prems(2)] step_keeps [OF st Cons.prems(2)] by (auto simp: r(2))
  qed (use Cons.prems in simp)
qed simp

end

text \<open>A view of the state that changes only as the events say.\<close>

locale event_fold =
  fixes step :: "'op \<Rightarrow> 's \<Rightarrow> ('e list \<times> 's) option"
    and view :: "'s \<Rightarrow> 'v"
    and apply_events :: "'e list \<Rightarrow> 'v \<Rightarrow> 'v"
  assumes apply_Nil: "apply_events [] v = v"
    and apply_append: "apply_events (es @ fs) v = apply_events fs (apply_events es v)"
    and step_view: "step x s = Some (ev, s') \<Longrightarrow> view s' = apply_events ev (view s)"
begin

lemma run_view: "run_ops step ops s = (evs, t) \<Longrightarrow> view t = apply_events evs (view s)"
proof (induction ops arbitrary: s evs)
  case (Cons x ops)
  show ?case
  proof (cases "step x s")
    case (Some p)
    then obtain ev s' where st: "step x s = Some (ev, s')" by (cases p) auto
    obtain evs' where r: "run_ops step ops s' = (evs', t)" "evs = ev @ evs'" using Cons.prems st by (auto split: prod.splits)
    from Cons.IH [OF r(1)] show ?thesis by (simp add: r(2) apply_append step_view [OF st])
  qed (use Cons.prems in \<open>simp add: apply_Nil\<close>)
qed (simp add: apply_Nil)

end

text \<open>A queue: what a step hands out and leaves is what was there followed by what it accepted.\<close>

locale conserving_queue =
  fixes step :: "'op \<Rightarrow> 's \<Rightarrow> ('e list \<times> 's) option"
    and pending :: "'s \<Rightarrow> 'c list"
    and accepted :: "'e list \<Rightarrow> 'c list"
    and handed :: "'e list \<Rightarrow> 'c list"
  assumes accepted_Nil: "accepted [] = []" and accepted_append: "accepted (es @ fs) = accepted es @ accepted fs"
    and handed_Nil: "handed [] = []" and handed_append: "handed (es @ fs) = handed es @ handed fs"
    and step_conserves: "step x s = Some (ev, s') \<Longrightarrow> handed ev @ pending s' = pending s @ accepted ev"
begin

lemma run_conserves: "run_ops step ops s = (evs, t) \<Longrightarrow> handed evs @ pending t = pending s @ accepted evs"
proof (induction ops arbitrary: s evs)
  case (Cons x ops)
  show ?case
  proof (cases "step x s")
    case (Some p)
    then obtain ev s' where st: "step x s = Some (ev, s')" by (cases p) auto
    obtain evs' where r: "run_ops step ops s' = (evs', t)" "evs = ev @ evs'" using Cons.prems st by (auto split: prod.splits)
    have "handed evs @ pending t = handed ev @ pending s' @ accepted evs'" using Cons.IH [OF r(1)] by (simp add: r(2) handed_append)
    also have "\<dots> = pending s @ accepted evs" using step_conserves [OF st] by (simp add: r(2) accepted_append flip: append_assoc)
    finally show ?thesis .
  qed (use Cons.prems in \<open>simp add: accepted_Nil handed_Nil\<close>)
qed (simp add: accepted_Nil handed_Nil)

lemma handed_prefix: "run_ops step ops s = (evs, t) \<Longrightarrow> pending s = [] \<Longrightarrow> prefix (handed evs) (accepted evs)"
  using run_conserves [of ops s evs t] by (metis append_Nil prefixI)

end

end
