(* ===== verification/Plugin.thy ===== *)
theory Plugin
  imports Engine Host_Text
begin

text \<open>
  \<^verbatim>\<open>internal/plugin/plugin.go\<close>: loading the actions of managed plugins. The file system (directory
  entries, \<^verbatim>\<open>stat\<close>, file contents, the resolution of symbolic links), the YAML decoder and
  \<^verbatim>\<open>time.ParseDuration\<close> are collected in a record of parameters.
\<close>

section \<open>Manifests\<close>

record ManifestAction =
  ma_ID :: string
  ma_Risk :: string
  ma_Exec :: string
  ma_Args :: "string list"
  ma_MaxTimeout :: string
  ma_Output :: string

record Manifest =
  mf_Name :: string
  mf_Version :: string
  mf_Actions :: "ManifestAction list"

record file_stat =
  fs_Uid :: nat
  fs_Perm :: "32 word"
  fs_IsDir :: bool

record host =
  ho_entries :: "string \<Rightarrow> (string \<times> bool) list option"
  ho_stat :: "string \<Rightarrow> file_stat option"
  ho_read :: "string \<Rightarrow> bytes option"
  ho_links :: "string \<Rightarrow> string option"
  ho_yaml :: "bytes \<Rightarrow> Manifest option"
  ho_duration :: "string \<Rightarrow> int option"

datatype plugin_error =
    NotOwnedByRoot nat | WritableByOthers | StatFailed | ReadFailed | YamlFailed | BadName | DirMismatch | BadActionCount
  | BadActionID | BadRisk | BadOutput | ExecOutside | ResolveFailed | LinkEscapes | NotExecutable | BadTimeout

definition is_lower_digit :: "char \<Rightarrow> bool" where
  "is_lower_digit c \<longleftrightarrow> (CHR ''a'' \<le> c \<and> c \<le> CHR ''z'') \<or> is_digit c"

definition reName :: "string \<Rightarrow> bool" where
  "reName s \<longleftrightarrow> (case s of [] \<Rightarrow> False
     | c # cs \<Rightarrow> is_lower_digit c \<and> length cs \<le> 63 \<and> list_all (\<lambda>c. is_lower_digit c \<or> c \<in> set ''_-'') cs)"

definition reActID :: "string \<Rightarrow> bool" where
  "reActID s \<longleftrightarrow> (case s of [] \<Rightarrow> False
     | c # cs \<Rightarrow> is_lower_digit c \<and> length cs \<le> 63 \<and> list_all (\<lambda>c. is_lower_digit c \<or> c \<in> set ''_.-'') cs)"

definition reOutput :: "string \<Rightarrow> bool" where
  "reOutput s \<longleftrightarrow> s = ''result'' \<or> s = ''metrics''"

section \<open>Loading\<close>

unbundle bit_operations_syntax

definition rootOwnedStrict :: "host \<Rightarrow> string \<Rightarrow> plugin_error option" where
  "rootOwnedStrict h path =
     (case ho_stat h path of
        None \<Rightarrow> Some StatFailed
      | Some st \<Rightarrow>
          if fs_Uid st \<noteq> 0 then Some (NotOwnedByRoot (fs_Uid st))
          else if fs_Perm st AND 0x12 \<noteq> 0 then Some WritableByOthers
          else None)"

definition buildAction :: "host \<Rightarrow> string \<Rightarrow> Manifest \<Rightarrow> ManifestAction \<Rightarrow> plugin_error + Action" where
  "buildAction h dir mf a =
     (if \<not> reActID (ma_ID a) then Inl BadActionID
      else if ma_Risk a \<notin> {''low'', ''medium'', ''high''} then Inl BadRisk
      else if \<not> reOutput (if ma_Output a = [] then ''result'' else ma_Output a) then Inl BadOutput
      else if go_IsAbs (ma_Exec a) \<or> go_Contains (ma_Exec a) ''..'' then Inl ExecOutside
      else case ho_links h (go_Join dir (ma_Exec a)) of
        None \<Rightarrow> Inl ResolveFailed
      | Some resolved \<Rightarrow>
          if \<not> go_HasPrefix resolved (dir @ ''/'') then Inl LinkEscapes
          else (case rootOwnedStrict h resolved of
                  Some e \<Rightarrow> Inl e
                | None \<Rightarrow>
                    (case ho_stat h resolved of
                       None \<Rightarrow> Inl NotExecutable
                     | Some st \<Rightarrow>
                         if fs_IsDir st \<or> fs_Perm st AND 0x49 = 0 then Inl NotExecutable
                         else (let act = (\<lambda>maxTO. Inr \<lparr>act_ID = ''plugin.'' @ mf_Name mf @ ''.'' @ ma_ID a, act_Risk = ma_Risk a,
                                        act_Validate = None, act_Binary = resolved, act_Args = ma_Args a, act_Func = None,
                                        act_PluginTO = maxTO\<rparr>)
                               in if ma_MaxTimeout a = [] then act 0
                                  else case ho_duration h (ma_MaxTimeout a) of
                                         None \<Rightarrow> Inl BadTimeout
                                       | Some d \<Rightarrow> if d \<le> 0 then Inl BadTimeout else act d))))"

fun buildActions :: "host \<Rightarrow> string \<Rightarrow> Manifest \<Rightarrow> ManifestAction list \<Rightarrow> plugin_error + Action list" where
  "buildActions h dir mf [] = Inr []"
| "buildActions h dir mf (a # as) =
     (case buildAction h dir mf a of
        Inl e \<Rightarrow> Inl e
      | Inr act \<Rightarrow> (case buildActions h dir mf as of Inl e \<Rightarrow> Inl e | Inr acts \<Rightarrow> Inr (act # acts)))"

definition loadOne :: "host \<Rightarrow> string \<Rightarrow> plugin_error + Action list" where
  "loadOne h dir =
     (let mfPath = go_Join dir ''manifest.yaml''
      in case rootOwnedStrict h mfPath of
           Some e \<Rightarrow> Inl e
         | None \<Rightarrow>
             (case ho_read h mfPath of
                None \<Rightarrow> Inl ReadFailed
              | Some data \<Rightarrow>
                  (case ho_yaml h data of
                     None \<Rightarrow> Inl YamlFailed
                   | Some mf \<Rightarrow>
                       if \<not> reName (mf_Name mf) then Inl BadName
                       else if go_Base dir \<noteq> mf_Name mf then Inl DirMismatch
                       else if length (mf_Actions mf) = 0 \<or> length (mf_Actions mf) > 16 then Inl BadActionCount
                       else buildActions h dir mf (mf_Actions mf))))"

fun load_entries :: "host \<Rightarrow> string \<Rightarrow> (string \<times> bool) list \<Rightarrow> Action list" where
  "load_entries h rootDir [] = []"
| "load_entries h rootDir ((name, isDir) # es) =
     (if \<not> isDir then load_entries h rootDir es
      else case loadOne h (go_Join rootDir name) of
             Inl _ \<Rightarrow> load_entries h rootDir es
           | Inr acts \<Rightarrow> acts @ load_entries h rootDir es)"

definition LoadDir :: "host \<Rightarrow> string \<Rightarrow> Action list" where
  "LoadDir h rootDir = (case ho_entries h rootDir of None \<Rightarrow> [] | Some es \<Rightarrow> load_entries h rootDir es)"

section \<open>What is loaded\<close>

definition confined :: "host \<Rightarrow> string \<Rightarrow> Action \<Rightarrow> bool" where
  "confined h dir act \<longleftrightarrow>
     (\<exists>rest st. act_Binary act = dir @ ''/'' @ rest \<and> ho_stat h (act_Binary act) = Some st \<and> fs_Uid st = 0 \<and>
        fs_Perm st AND 0x12 = 0 \<and> fs_Perm st AND 0x49 \<noteq> 0 \<and> \<not> fs_IsDir st) \<and> act_PluginTO act \<ge> 0"

lemma rootOwnedStrict_None:
  "rootOwnedStrict h p = None \<longleftrightarrow> (\<exists>st. ho_stat h p = Some st \<and> fs_Uid st = 0 \<and> fs_Perm st AND 0x12 = 0)"
  by (auto simp: rootOwnedStrict_def split: option.splits)

lemma HasPrefix_split: "go_HasPrefix s p \<Longrightarrow> \<exists>rest. s = p @ rest"
  unfolding go_HasPrefix_def by (metis append_take_drop_id)

lemma buildAction_Inr:
  assumes "buildAction h dir mf a = Inr act"
  shows "confined h dir act \<and> act_ID act = ''plugin.'' @ mf_Name mf @ ''.'' @ ma_ID a \<and> reActID (ma_ID a) \<and>
    act_Args act = ma_Args a \<and> act_Risk act \<in> {''low'', ''medium'', ''high''}"
proof -
  obtain resolved st where r: "go_HasPrefix resolved (dir @ ''/'')" "rootOwnedStrict h resolved = None" "ho_stat h resolved = Some st"
    "\<not> fs_IsDir st" "fs_Perm st AND 0x49 \<noteq> 0" "act_Binary act = resolved"
    using assms by (auto simp: buildAction_def Let_def split: if_splits option.splits)
  have "act_PluginTO act \<ge> 0" "act_ID act = ''plugin.'' @ mf_Name mf @ ''.'' @ ma_ID a" "reActID (ma_ID a)" "act_Args act = ma_Args a"
    "act_Risk act \<in> {''low'', ''medium'', ''high''}"
    using assms by (auto simp: buildAction_def Let_def split: if_splits option.splits)
  with r HasPrefix_split [OF r(1)] show ?thesis by (auto simp: confined_def rootOwnedStrict_None)
qed

lemma buildActions_Inr:
  "buildActions h dir mf as = Inr acts \<Longrightarrow> list_all2 (\<lambda>act a. buildAction h dir mf a = Inr act) acts as"
  by (induction as arbitrary: acts) (auto split: sum.splits)

lemma loadOne_Inr:
  assumes "loadOne h dir = Inr acts" "act \<in> set acts"
  shows "\<exists>mf a. reName (mf_Name mf) \<and> go_Base dir = mf_Name mf \<and> length (mf_Actions mf) \<le> 16 \<and>
    rootOwnedStrict h (go_Join dir ''manifest.yaml'') = None \<and> a \<in> set (mf_Actions mf) \<and> buildAction h dir mf a = Inr act"
proof -
  obtain mf where mf: "reName (mf_Name mf)" "go_Base dir = mf_Name mf" "length (mf_Actions mf) \<le> 16"
    "rootOwnedStrict h (go_Join dir ''manifest.yaml'') = None" "buildActions h dir mf (mf_Actions mf) = Inr acts"
    using assms(1) by (auto simp: loadOne_def Let_def split: if_splits option.splits)
  then show ?thesis using buildActions_Inr [OF mf(5)] assms(2)
    by (auto simp: list_all2_conv_all_nth in_set_conv_nth) (metis nth_mem)
qed

lemma load_entries_mem:
  "act \<in> set (load_entries h rootDir es) \<longleftrightarrow>
     (\<exists>name acts. (name, True) \<in> set es \<and> loadOne h (go_Join rootDir name) = Inr acts \<and> act \<in> set acts)"
  by (induction h rootDir es rule: load_entries.induct) (auto split: sum.splits)

lemma reName_no_dot: "reName s \<Longrightarrow> CHR ''.'' \<notin> set s"
  by (auto simp: reName_def is_lower_digit_def is_digit_def less_eq_char_def list_all_iff split: list.splits)

lemma plugin_id_inject:
  assumes "reName n" "reName m" "''plugin.'' @ n @ ''.'' @ i = ''plugin.'' @ m @ ''.'' @ j"
  shows "n = m \<and> i = j"
proof -
  have "go_Split (CHR ''.'') (n @ CHR ''.'' # i) = n # go_Split (CHR ''.'') i"
    "go_Split (CHR ''.'') (m @ CHR ''.'' # j) = m # go_Split (CHR ''.'') j"
    using reName_no_dot assms(1,2) by (simp_all add: go_Split_at)
  with assms(3) show ?thesis by auto
qed

text \<open>
  C26: every action loaded from the plugin directory comes from a directory entry whose manifest
  belongs to root and is not writable by others; its program lies inside that plugin's own
  directory after symbolic links are resolved, belongs to root, is executable and not
  writable by others; and it is registered under the plugin's name, which no other plugin
  name and no built-in action can produce.
\<close>

theorem plugin_actions_confined:
  assumes "act \<in> set (LoadDir h rootDir)"
  shows "\<exists>entry id. let dir = go_Join rootDir entry; name = go_Base dir in
    reName name \<and> reActID id \<and> act_ID act = ''plugin.'' @ name @ ''.'' @ id \<and> confined h dir act \<and>
    rootOwnedStrict h (go_Join dir ''manifest.yaml'') = None \<and>
    (\<forall>m j. reName m \<and> act_ID act = ''plugin.'' @ m @ ''.'' @ j \<longrightarrow> m = name \<and> j = id) \<and>
    (\<forall>hooks. catalog hooks (act_ID act) = None)"
proof -
  obtain entry acts where l: "loadOne h (go_Join rootDir entry) = Inr acts" "act \<in> set acts"
    using assms by (auto simp: LoadDir_def load_entries_mem split: option.splits)
  let ?dir = "go_Join rootDir entry"
  from loadOne_Inr [OF l] obtain mf a where m: "reName (mf_Name mf)" "go_Base ?dir = mf_Name mf"
    "rootOwnedStrict h (go_Join ?dir ''manifest.yaml'') = None" "buildAction h ?dir mf a = Inr act" by blast
  note b = buildAction_Inr [OF m(4)]
  then have i: "act_ID act = ''plugin.'' @ go_Base ?dir @ ''.'' @ ma_ID a" using m(2) by simp
  have "catalog hooks (act_ID act) = None" for hooks unfolding i by (simp add: catalog_def Let_def)
  moreover have "m' = go_Base ?dir \<and> j = ma_ID a" if "reName m'" "act_ID act = ''plugin.'' @ m' @ ''.'' @ j" for m' j
  proof (rule plugin_id_inject [OF that(1)])
    show "reName (go_Base ?dir)" using m(1,2) by simp
    show "''plugin.'' @ m' @ ''.'' @ j = ''plugin.'' @ go_Base ?dir @ ''.'' @ ma_ID a" using that(2) i by simp
  qed
  moreover have "reName (go_Base ?dir)" using m(1,2) by simp
  ultimately show ?thesis unfolding Let_def using b i m(3) by blast
qed

definition sample_host :: host where
  "sample_host = \<lparr>ho_entries = (\<lambda>_. Some [(''demo'', True)]), ho_stat = (\<lambda>_. Some \<lparr>fs_Uid = 0, fs_Perm = 0x1ED, fs_IsDir = False\<rparr>),
     ho_read = (\<lambda>_. Some []), ho_links = Some,
     ho_yaml = (\<lambda>_. Some \<lparr>mf_Name = ''demo'', mf_Version = ''1'', mf_Actions = [\<lparr>ma_ID = ''run'', ma_Risk = ''low'', ma_Exec = ''run.sh'',
       ma_Args = [], ma_MaxTimeout = [], ma_Output = []\<rparr>]\<rparr>),
     ho_duration = (\<lambda>_. None)\<rparr>"

lemma sample_LoadDir: "map act_Binary (LoadDir sample_host ''/p'') = [''/p/demo/run.sh'']"
  by (simp add: LoadDir_def sample_host_def loadOne_def go_Join_def go_Clean_def go_IsAbs_def go_HasPrefix_def rootOwnedStrict_def
      reName_def is_lower_digit_def is_digit_def less_eq_char_def go_Base_def buildAction_def reActID_def reOutput_def)

theorem plugin_actions_confined_witness:
  "\<exists>act \<in> set (LoadDir sample_host ''/p''). \<exists>dir. confined sample_host dir act \<and> act_Binary act = ''/p/demo/run.sh''"
proof -
  obtain act where "act \<in> set (LoadDir sample_host ''/p'')" "act_Binary act = ''/p/demo/run.sh''"
    using sample_LoadDir by (cases "LoadDir sample_host ''/p''") auto
  with plugin_actions_confined [OF this(1)] show ?thesis by (auto simp: Let_def)
qed

text \<open>A rejected plugin contributes nothing and does not affect the others.\<close>

lemma LoadDir_independent:
  assumes "ho_entries h rootDir = Some es"
  shows "LoadDir h rootDir =
     concat (map (\<lambda>(name, isDir). case loadOne h (go_Join rootDir name) of Inl _ \<Rightarrow> [] | Inr acts \<Rightarrow> if isDir then acts else []) es)"
proof -
  have "load_entries h rootDir es =
      concat (map (\<lambda>(name, isDir). case loadOne h (go_Join rootDir name) of Inl _ \<Rightarrow> [] | Inr acts \<Rightarrow> if isDir then acts else []) es)" for es
    by (induction h rootDir es rule: load_entries.induct) (auto split: sum.splits)
  with assms show ?thesis by (simp only: LoadDir_def option.case)
qed

text \<open>Adding actions never replaces one that is in the catalogue, so plugins cannot shadow built-in actions.\<close>

lemma AddActions_keeps: "e_catalog e i = Some a \<Longrightarrow> e_catalog (AddActions e acts) i = Some a"
proof (induction e acts rule: AddActions.induct)
  case (2 e b acts)
  then show ?case by (cases "act_ID b = i") auto
qed simp

end
