(* ===== verification/Cgroup.thy ===== *)
theory Cgroup
  imports Host_Text "HOL-Library.Sublist"
begin

text \<open>
  \<^verbatim>\<open>internal/executor/cgroup.go\<close>: the control group of a command. The operations write to a
  trace of file operations; which of them the kernel refuses is an input.
\<close>

section \<open>Data\<close>

definition cgroupV2Root :: string where
  "cgroupV2Root = ''/sys/fs/cgroup''"

definition cgroupParent :: string where
  "cgroupParent = ''tom_ai_agent''"

record cgroupConf =
  cg_Enabled :: bool
  cg_MemoryMaxMB :: int
  cg_CPUQuotaPct :: int

record cgroupManager =
  cm_conf :: cgroupConf
  cm_baseDir :: string
  cm_once :: bool
  cm_usable :: bool

datatype fs_op = MkdirAll string | WriteFile string string | RemoveDir string

definition newCgroupManager :: "cgroupConf \<Rightarrow> cgroupManager" where
  "newCgroupManager conf = \<lparr>cm_conf = conf, cm_baseDir = [], cm_once = False, cm_usable = False\<rparr>"

section \<open>Operations\<close>

text \<open>
  \<open>unified\<close>: \<^verbatim>\<open>cgroup.controllers\<close> exists and is no directory. \<open>mkdir\<close>: a directory can be made.
  Failing writes are ignored by the code.
\<close>

definition cg_check :: "bool \<Rightarrow> (string \<Rightarrow> bool) \<Rightarrow> cgroupManager \<Rightarrow> bool \<times> fs_op list \<times> cgroupManager" where
  "cg_check unified mkdir m =
     (if cm_once m then (cm_usable m, [], m)
      else (let m = m\<lparr>cm_once := True\<rparr>
            in if \<not> cg_Enabled (cm_conf m) then (cm_usable m, [], m)
               else if \<not> unified then (cm_usable m, [], m)
               else (let parent = go_Join cgroupV2Root cgroupParent; base = go_Join parent ''exec''; m = m\<lparr>cm_baseDir := base\<rparr>
                     in if \<not> mkdir base then (cm_usable m, [], m)
                        else (True, [MkdirAll base, WriteFile (go_Join parent ''cgroup.subtree_control'') ''+memory'',
                                     WriteFile (go_Join parent ''cgroup.subtree_control'') ''+cpu''], m\<lparr>cm_usable := True\<rparr>))))"

text \<open>
  Letters, digits, minus and underscore are allowed. A command id is valid UTF-8 (a protobuf or JSON string): one character that is not allowed
  becomes one underscore, so continuation bytes vanish.
\<close>

definition safe_char :: "char \<Rightarrow> bool" where
  "safe_char c = (let n = of_char c :: nat in n \<in> {97..122} \<or> n \<in> {65..90} \<or> n \<in> {48..57} \<or> n = 45 \<or> n = 95)"

definition utf8_continuation :: "char \<Rightarrow> bool" where
  "utf8_continuation c \<longleftrightarrow> 128 \<le> (of_char c :: nat) \<and> (of_char c :: nat) < 192"

definition safe_id :: "string \<Rightarrow> string" where
  "safe_id cmdID = map (\<lambda>c. if safe_char c then c else CHR ''_'') (filter (\<lambda>c. \<not> utf8_continuation c) cmdID)"

text \<open>\<^verbatim>\<open>strconv.Itoa\<close> of a 64-bit integer.\<close>

definition int_digits :: "int \<Rightarrow> string" where
  "int_digits i = (if i < 0 then CHR ''-'' # dec_digits (nat (- i)) else dec_digits (nat i))"

text \<open>The directory of the command's group, when there is one, and the operations that prepare it.\<close>

definition confine :: "bool \<Rightarrow> (string \<Rightarrow> bool) \<Rightarrow> string \<Rightarrow> cgroupManager \<Rightarrow> string option \<times> fs_op list \<times> cgroupManager" where
  "confine unified mkdir cmdID m =
     (let (ok, ops, m) = cg_check unified mkdir m
      in if \<not> ok then (None, ops, m)
         else (let dir = go_Join (cm_baseDir m) (''exec-'' @ safe_id cmdID); conf = cm_conf m
               in if \<not> mkdir dir then (None, ops, m)
                  else (Some dir, ops @ [MkdirAll dir] @
                          (if cg_MemoryMaxMB conf > 0
                           then [WriteFile (go_Join dir ''memory.max'') (int_digits (wrap64 (cg_MemoryMaxMB conf * 2 ^ 20)))] else []) @
                          (if cg_CPUQuotaPct conf > 0
                           then [WriteFile (go_Join dir ''cpu.max'') (int_digits (wrap64 (cg_CPUQuotaPct conf * 1000)) @ '' 100000'')] else []), m)))"

definition cg_apply :: "string option \<Rightarrow> int \<Rightarrow> fs_op list" where
  "cg_apply dir pid = (case dir of None \<Rightarrow> [] | Some d \<Rightarrow> [WriteFile (go_Join d ''cgroup.procs'') (int_digits pid)])"

definition cg_cleanup :: "string option \<Rightarrow> fs_op list" where
  "cg_cleanup dir = (case dir of None \<Rightarrow> [] | Some d \<Rightarrow> [RemoveDir d])"

text \<open>The file operations of one external command, in the order of \<^verbatim>\<open>runExternal\<close>.\<close>

definition confined_run :: "bool \<Rightarrow> (string \<Rightarrow> bool) \<Rightarrow> string \<Rightarrow> int \<Rightarrow> cgroupManager \<Rightarrow> fs_op list \<times> cgroupManager" where
  "confined_run unified mkdir cmdID pid m =
     (let (dir, ops, m) = confine unified mkdir cmdID m in (ops @ cg_apply dir pid @ cg_cleanup dir, m))"

definition confined_runs :: "(bool \<times> (string \<Rightarrow> bool) \<times> string \<times> int) list \<Rightarrow> cgroupManager \<Rightarrow> fs_op list \<times> cgroupManager" where
  "confined_runs rs m = fold (\<lambda>(u, mk, i, pid) (ops, m). let (o1, m) = confined_run u mk i pid m in (ops @ o1, m)) rs ([], m)"

section \<open>Paths\<close>

definition base_path :: string where
  "base_path = ''/sys/fs/cgroup/tom_ai_agent/exec''"

lemma base_path_join: "go_Join (go_Join cgroupV2Root cgroupParent) ''exec'' = base_path"
  by (simp add: base_path_def cgroupV2Root_def cgroupParent_def go_Join_def go_Clean_def go_IsAbs_def go_HasPrefix_def)

lemma control_path_join:
  "go_Join (go_Join cgroupV2Root cgroupParent) ''cgroup.subtree_control'' = ''/sys/fs/cgroup/tom_ai_agent/cgroup.subtree_control''"
  by (simp add: cgroupV2Root_def cgroupParent_def go_Join_def go_Clean_def go_IsAbs_def go_HasPrefix_def)

lemma safe_id_safe: "c \<in> set (safe_id i) \<Longrightarrow> safe_char c"
  by (auto simp: safe_id_def safe_char_def)

lemma not_safe [simp]: "\<not> safe_char CHR ''/''" "\<not> safe_char CHR ''.''"
  by (simp_all add: safe_char_def)

lemma join_base:
  assumes "CHR ''/'' \<notin> set x" "x \<noteq> []" "x \<noteq> ''.''" "x \<noteq> ''..''"
  shows "go_Join base_path x = base_path @ ''/'' @ x"
  using assms by (simp add: base_path_def go_Join_def go_Clean_def go_IsAbs_def go_HasPrefix_def go_Split_none)

lemma join_dir:
  assumes "CHR ''/'' \<notin> set x" "x \<noteq> []" "x \<noteq> ''.''" "x \<noteq> ''..''" "CHR ''/'' \<notin> set y" "y \<noteq> []" "y \<noteq> ''.''" "y \<noteq> ''..''"
  shows "go_Join (base_path @ ''/'' @ x) y = base_path @ ''/'' @ x @ ''/'' @ y"
proof -
  have "go_Split (CHR ''/'') (base_path @ ''/'' @ x @ ''/'' @ y) = [[], ''sys'', ''fs'', ''cgroup'', ''tom_ai_agent'', ''exec'', x, y]"
    using assms(1,5) by (simp add: base_path_def go_Split_none go_Split_at)
  then show ?thesis using assms by (simp add: go_Join_def go_Clean_def go_IsAbs_def go_HasPrefix_def base_path_def)
qed

section \<open>Confinement\<close>

fun op_path :: "fs_op \<Rightarrow> string" where
  "op_path (MkdirAll p) = p"
| "op_path (WriteFile p v) = p"
| "op_path (RemoveDir p) = p"

definition cmd_dir :: "string \<Rightarrow> string" where
  "cmd_dir i = base_path @ ''/exec-'' @ safe_id i"

lemma safe_id_no_slash [simp]: "CHR ''/'' \<notin> set (safe_id i)"
  using safe_id_safe not_safe(1) by blast

lemma cmd_dir_join: "go_Join base_path (''exec-'' @ safe_id i) = cmd_dir i"
  by (subst join_base) (simp_all add: cmd_dir_def)

lemma cmd_file_join:
  assumes "CHR ''/'' \<notin> set y" "y \<noteq> []" "y \<noteq> ''.''" "y \<noteq> ''..''"
  shows "go_Join (cmd_dir i) y = cmd_dir i @ ''/'' @ y"
  using join_dir [of "''exec-'' @ safe_id i" y] assms by (simp add: cmd_dir_def)

definition setup_ops :: "fs_op list" where
  "setup_ops = [MkdirAll base_path, WriteFile ''/sys/fs/cgroup/tom_ai_agent/cgroup.subtree_control'' ''+memory'',
     WriteFile ''/sys/fs/cgroup/tom_ai_agent/cgroup.subtree_control'' ''+cpu'']"

definition cg_inv :: "cgroupConf \<Rightarrow> cgroupManager \<Rightarrow> bool" where
  "cg_inv conf m \<longleftrightarrow> cm_conf m = conf \<and> (cm_usable m \<longrightarrow> cm_once m \<and> cm_baseDir m = base_path \<and> cg_Enabled conf)"

lemma cg_check_spec:
  assumes "cg_inv conf m" "cg_check u mk m = (ok, ops, m')"
  shows "cg_inv conf m'" "ok = cm_usable m'" "cm_once m'" "ops = (if ok \<and> \<not> cm_once m then setup_ops else [])"
proof -
  have b: "cg_check u mk m = (if cm_once m then (cm_usable m, [], m)
      else if cg_Enabled (cm_conf m) \<and> u then
        (if mk base_path then (True, setup_ops, m\<lparr>cm_once := True, cm_baseDir := base_path, cm_usable := True\<rparr>)
         else (cm_usable m, [], m\<lparr>cm_once := True, cm_baseDir := base_path\<rparr>))
      else (cm_usable m, [], m\<lparr>cm_once := True\<rparr>))"
    by (simp add: cg_check_def Let_def base_path_join control_path_join setup_ops_def)
  show "cg_inv conf m'" "ok = cm_usable m'" "cm_once m'" "ops = (if ok \<and> \<not> cm_once m then setup_ops else [])"
    using assms by (auto simp: b cg_inv_def split: if_splits)
qed

text \<open>The limits the configuration asks for.\<close>

definition limit_ops :: "cgroupConf \<Rightarrow> string \<Rightarrow> fs_op list" where
  "limit_ops conf d =
     (if cg_MemoryMaxMB conf > 0 then [WriteFile (d @ ''/memory.max'') (int_digits (wrap64 (cg_MemoryMaxMB conf * 2 ^ 20)))] else []) @
     (if cg_CPUQuotaPct conf > 0 then [WriteFile (d @ ''/cpu.max'') (int_digits (wrap64 (cg_CPUQuotaPct conf * 1000)) @ '' 100000'')] else [])"

definition cmd_ops :: "cgroupConf \<Rightarrow> string \<Rightarrow> int \<Rightarrow> fs_op list" where
  "cmd_ops conf i pid = [MkdirAll (cmd_dir i)] @ limit_ops conf (cmd_dir i) @
     [WriteFile (cmd_dir i @ ''/cgroup.procs'') (int_digits pid), RemoveDir (cmd_dir i)]"

lemma confined_run_spec:
  assumes "cg_inv conf m" "confined_run u mk i pid m = (ops, m')"
  shows "cg_inv conf m'" "cm_once m'"
    "ops = (if cm_usable m' \<and> \<not> cm_once m then setup_ops else []) @
       (if cm_usable m' \<and> mk (cmd_dir i) then cmd_ops conf i pid else [])"
proof -
  obtain ok o1 m1 where c: "cg_check u mk m = (ok, o1, m1)" by (cases "cg_check u mk m")
  note s = cg_check_spec [OF assms(1) c]
  have conf: "cm_conf m1 = conf" "ok \<Longrightarrow> cm_baseDir m1 = base_path" using s(1,2) by (auto simp: cg_inv_def)
  have f: "go_Join (cmd_dir i) ''memory.max'' = cmd_dir i @ ''/memory.max''" "go_Join (cmd_dir i) ''cpu.max'' = cmd_dir i @ ''/cpu.max''"
    "go_Join (cmd_dir i) ''cgroup.procs'' = cmd_dir i @ ''/cgroup.procs''"
    by (simp_all add: cmd_file_join)
  have "confined_run u mk i pid m = (o1 @ (if ok \<and> mk (cmd_dir i) then cmd_ops conf i pid else []), m1)"
    by (cases ok; cases "mk (cmd_dir i)")
      (simp_all add: confined_run_def confine_def c conf cmd_dir_join [unfolded append_Cons append_Nil] Let_def cmd_ops_def cg_apply_def cg_cleanup_def limit_ops_def f)
  then have e: "ops = o1 @ (if ok \<and> mk (cmd_dir i) then cmd_ops conf i pid else [])" "m' = m1" using assms(2) by simp_all
  show "cg_inv conf m'" "cm_once m'" using s e(2) by simp_all
  show "ops = (if cm_usable m' \<and> \<not> cm_once m then setup_ops else []) @ (if cm_usable m' \<and> mk (cmd_dir i) then cmd_ops conf i pid else [])"
    unfolding e s(4) s(2) [symmetric] by simp
qed

lemma confined_runs_spec:
  assumes "cg_inv conf m"
  shows "\<forall>q \<in> set ops0. P q \<Longrightarrow> \<forall>q \<in> set setup_ops. cg_Enabled conf \<longrightarrow> P q \<Longrightarrow>
    \<forall>(u, mk, i, pid) \<in> set rs. cg_Enabled conf \<longrightarrow> (\<forall>q \<in> set (cmd_ops conf i pid). P q) \<Longrightarrow>
    \<forall>q \<in> set (fst (fold (\<lambda>(u, mk, i, pid) (ops, m). let (o1, m) = confined_run u mk i pid m in (ops @ o1, m)) rs (ops0, m))). P q"
  using assms
proof (induction rs arbitrary: ops0 m)
  case (Cons r rs)
  obtain u mk i pid where r: "r = (u, mk, i, pid)" by (cases r)
  obtain o1 m1 where c: "confined_run u mk i pid m = (o1, m1)" by (cases "confined_run u mk i pid m")
  note s = confined_run_spec [OF Cons.prems(4) c]
  have "cm_usable m1 \<Longrightarrow> cg_Enabled conf" using s(1) by (simp add: cg_inv_def)
  then have "\<forall>q \<in> set o1. P q" using Cons.prems(2,3) unfolding s(3) r by (auto split: if_splits)
  then have "\<forall>q \<in> set (ops0 @ o1). P q" using Cons.prems(1) by auto
  from Cons.IH [OF this Cons.prems(2) _ s(1)] Cons.prems(3) show ?case by (simp add: r c)
qed simp

lemma confined_runs_inv:
  "cg_inv conf m \<Longrightarrow> cg_inv conf (snd (fold (\<lambda>(u, mk, i, pid) (ops, m). let (o1, m) = confined_run u mk i pid m in (ops @ o1, m)) rs (ops0, m)))"
proof (induction rs arbitrary: ops0 m)
  case (Cons r rs)
  obtain u mk i pid where r: "r = (u, mk, i, pid)" by (cases r)
  obtain o1 m1 where c: "confined_run u mk i pid m = (o1, m1)" by (cases "confined_run u mk i pid m")
  from Cons.IH [OF confined_run_spec(1) [OF Cons.prems c]] show ?case by (simp add: r c)
qed simp

definition in_cgroup :: "string \<Rightarrow> fs_op \<Rightarrow> bool" where
  "in_cgroup i q \<longleftrightarrow> op_path q \<in> (\<lambda>f. cmd_dir i @ f) ` {[], ''/memory.max'', ''/cpu.max'', ''/cgroup.procs''}"

lemma cmd_ops_in_cgroup: "q \<in> set (cmd_ops conf i pid) \<Longrightarrow> in_cgroup i q"
  by (auto simp: cmd_ops_def limit_ops_def in_cgroup_def split: if_splits)

text \<open>
  C27: whatever command ids arrive, every file operation of the isolation layer is on its base
  directory, on the control file of its subtree or on the three files of the directory
  \<^verbatim>\<open>exec-<id>\<close> of a command, whose name holds no slash and no dot, and there is none when
  isolation is disabled. The group of a command gets its limits before the process is moved
  into it, and is removed last.
\<close>

theorem command_cgroup_confined:
  assumes "m = snd (confined_runs rs (newCgroupManager conf))" "confined_run u mk i pid m = (ops, m')"
  shows "(\<forall>q \<in> set (fst (confined_runs rs (newCgroupManager conf))).
      cg_Enabled conf \<and> (q \<in> set setup_ops \<or> (\<exists>(u, mk, i, pid) \<in> set rs. in_cgroup i q))) \<and>
    ops = (if cm_usable m' \<and> \<not> cm_once m then setup_ops else []) @
       (if cm_usable m' \<and> mk (cmd_dir i)
        then [MkdirAll (cmd_dir i)] @ limit_ops conf (cmd_dir i) @ [WriteFile (cmd_dir i @ ''/cgroup.procs'') (int_digits pid), RemoveDir (cmd_dir i)]
        else []) \<and>
    (cm_usable m' \<longrightarrow> cg_Enabled conf) \<and> CHR ''/'' \<notin> set (safe_id i) \<and> CHR ''.'' \<notin> set (safe_id i)"
proof -
  have n: "cg_inv conf (newCgroupManager conf)" by (simp add: cg_inv_def newCgroupManager_def)
  have m: "cg_inv conf m" using confined_runs_inv [OF n] assms(1) by (simp add: confined_runs_def)
  have "\<forall>q \<in> set (fst (confined_runs rs (newCgroupManager conf))).
      cg_Enabled conf \<and> (q \<in> set setup_ops \<or> (\<exists>(u, mk, i, pid) \<in> set rs. in_cgroup i q))"
    unfolding confined_runs_def
    by (rule confined_runs_spec [OF n]) (use cmd_ops_in_cgroup in fastforce)+
  moreover have "CHR ''/'' \<notin> set (safe_id i)" "CHR ''.'' \<notin> set (safe_id i)"
    using safe_id_safe not_safe by blast+
  moreover have "cm_usable m' \<longrightarrow> cg_Enabled conf" using confined_run_spec(1) [OF m assms(2)] by (simp add: cg_inv_def)
  ultimately show ?thesis using confined_run_spec(3) [OF m assms(2)] by (simp add: cmd_ops_def)
qed

theorem command_cgroup_confined_witness:
  "fst (confined_run True (\<lambda>_. True) ''../x'' 42 (newCgroupManager \<lparr>cg_Enabled = True, cg_MemoryMaxMB = 1, cg_CPUQuotaPct = 0\<rparr>)) =
   setup_ops @ [MkdirAll ''/sys/fs/cgroup/tom_ai_agent/exec/exec-___x'',
     WriteFile ''/sys/fs/cgroup/tom_ai_agent/exec/exec-___x/memory.max'' ''1048576'',
     WriteFile ''/sys/fs/cgroup/tom_ai_agent/exec/exec-___x/cgroup.procs'' ''42'', RemoveDir ''/sys/fs/cgroup/tom_ai_agent/exec/exec-___x'']"
proof -
  let ?c = "\<lparr>cg_Enabled = True, cg_MemoryMaxMB = 1, cg_CPUQuotaPct = 0\<rparr>"
  obtain ops m' where r: "confined_run True (\<lambda>_. True) ''../x'' 42 (newCgroupManager ?c) = (ops, m')"
    by (cases "confined_run True (\<lambda>_. True) ''../x'' 42 (newCgroupManager ?c)")
  have m: "newCgroupManager ?c = snd (confined_runs [] (newCgroupManager ?c))" by (simp add: confined_runs_def)
  have "cm_usable m'" using r
    by (auto simp: confined_run_def confine_def cg_check_def newCgroupManager_def Let_def split: prod.splits)
  then have "ops = setup_ops @ [MkdirAll (cmd_dir ''../x'')] @ limit_ops ?c (cmd_dir ''../x'') @
      [WriteFile (cmd_dir ''../x'' @ ''/cgroup.procs'') (int_digits 42), RemoveDir (cmd_dir ''../x'')]"
    using command_cgroup_confined [OF m r] by (simp add: newCgroupManager_def)
  moreover have "cmd_dir ''../x'' = ''/sys/fs/cgroup/tom_ai_agent/exec/exec-___x''"
    by (simp add: cmd_dir_def base_path_def safe_id_def safe_char_def utf8_continuation_def)
  moreover have "int_digits 1048576 = ''1048576''" "int_digits 42 = ''42''"
    by (simp_all add: int_digits_def dec_digits.simps dec_digit_def char_of_def bit_0)
  ultimately show ?thesis
    using r by (simp add: limit_ops_def wrap64_def)
qed

text \<open>Different command ids can share a group.\<close>

lemma cgroup_collision: "cmd_dir ''a.b'' = cmd_dir ''a:b''"
  by (simp add: cmd_dir_def safe_id_def safe_char_def utf8_continuation_def)

end
