(* ===== verification/Watchdog.thy ===== *)
theory Watchdog
  imports Agent_Prelude "HOL-Library.AList"
begin

text \<open>
  \<^verbatim>\<open>internal/watchdog/sentinel.go\<close> and the scheduler of \<^verbatim>\<open>internal/collector/collector.go\<close>: the
  sentinel watches the agent's memory and open files, degrades the scheduler above the soft
  limits and ends the process above the hard ones; a degraded scheduler skips the collectors
  that are not critical. The readings are inputs. Memory is a whole number of bytes, for
  which the comparison with the float \<^verbatim>\<open>softBytes*0.8\<close> is the comparison with four fifths.
\<close>

section \<open>The scheduler\<close>

definition nonCritical :: "string \<Rightarrow> bool" where
  "nonCritical name \<longleftrightarrow> name \<in> {''diskcap'', ''net'', ''load''}"

record CollectorConf =
  cc_Enabled :: bool
  cc_Interval :: int

record 'm Scheduler =
  sd_collectors :: "string list"
  sd_intervals :: "string \<rightharpoonup> int"
  sd_degraded :: bool
  sd_errors :: "string \<rightharpoonup> int"
  sd_latency :: "string \<rightharpoonup> int"
  sd_submitted :: "'m list list"

definition known_collectors :: "string list" where
  "known_collectors = [''cpu'', ''memory'', ''diskcap'', ''net'', ''load'']"

text \<open>\<open>order\<close> is the order in which Go iterates over the table of collectors.\<close>

definition NewScheduler :: "string list \<Rightarrow> (string \<rightharpoonup> CollectorConf) \<Rightarrow> 'm Scheduler" where
  "NewScheduler order cfg =
     (let on = filter (\<lambda>n. case cfg n of None \<Rightarrow> False | Some c \<Rightarrow> cc_Enabled c) order
      in \<lparr>sd_collectors = on, sd_intervals = (\<lambda>n. if n \<in> set on then map_option cc_Interval (cfg n) else None),
          sd_degraded = False, sd_errors = (\<lambda>n. if n \<in> set on then Some 0 else None),
          sd_latency = (\<lambda>n. if n \<in> set on then Some 0 else None), sd_submitted = []\<rparr>)"

definition SetDegraded :: "bool \<Rightarrow> 'm Scheduler \<Rightarrow> 'm Scheduler" where
  "SetDegraded on s = s\<lparr>sd_degraded := on\<rparr>"

definition sched_interval :: "'m Scheduler \<Rightarrow> string \<Rightarrow> int" where
  "sched_interval s n = (let i = (case sd_intervals s n of None \<Rightarrow> 0 | Some i \<Rightarrow> i) in if i \<le> 0 then 10 * 1000000000 else i)"

text \<open>What one call of a collector does: panic, fail, or give samples.\<close>

datatype 'm collected = CollectPanic | CollectError | Collected "'m list"

definition bump :: "(string \<rightharpoonup> int) \<Rightarrow> string \<Rightarrow> (string \<rightharpoonup> int)" where
  "bump m n = m(n \<mapsto> (case m n of None \<Rightarrow> 0 | Some k \<Rightarrow> k) + 1)"

definition runOnce :: "string \<Rightarrow> 'm collected \<Rightarrow> int \<Rightarrow> 'm Scheduler \<Rightarrow> 'm Scheduler" where
  "runOnce name result ms s =
     (if sd_degraded s \<and> nonCritical name then s
      else (let s = (case result of
                       CollectPanic \<Rightarrow> s\<lparr>sd_errors := bump (sd_errors s) name\<rparr>
                     | CollectError \<Rightarrow> s\<lparr>sd_errors := bump (sd_errors s) name\<rparr>
                     | Collected xs \<Rightarrow> if xs \<noteq> [] then s\<lparr>sd_submitted := sd_submitted s @ [xs]\<rparr> else s)
            in s\<lparr>sd_latency := (sd_latency s)(name \<mapsto> ms)\<rparr>))"

definition sched_Stats :: "'m Scheduler \<Rightarrow> (string \<rightharpoonup> int) \<times> (string \<rightharpoonup> int)" where
  "sched_Stats s = (sd_errors s, sd_latency s)"

section \<open>The sentinel\<close>

record WatchdogConf =
  wc_RSSSoftMB :: int
  wc_RSSHardMB :: int
  wc_FDLimit :: int
  wc_DegradedMode :: bool

datatype sentinel_event = SelfTerminate int int | DegradedOn int int | DegradedOff int

record 'm Sentinel =
  sn_cfg :: WatchdogConf
  sn_target :: "'m Scheduler"
  sn_degraded :: bool
  sn_events :: "sentinel_event list"
  sn_exited :: bool

definition NewSentinel :: "WatchdogConf \<Rightarrow> 'm Scheduler \<Rightarrow> 'm Sentinel" where
  "NewSentinel cfg target = \<lparr>sn_cfg = cfg, sn_target = target, sn_degraded = False, sn_events = [], sn_exited = False\<rparr>"

definition softBytes :: "WatchdogConf \<Rightarrow> int" where
  "softBytes c = wc_RSSSoftMB c * 2 ^ 20"

definition hardBytes :: "WatchdogConf \<Rightarrow> int" where
  "hardBytes c = wc_RSSHardMB c * 2 ^ 20"

definition over_hard :: "WatchdogConf \<Rightarrow> int \<Rightarrow> int \<Rightarrow> bool" where
  "over_hard c rss fds \<longleftrightarrow> rss \<ge> hardBytes c \<or> wc_FDLimit c > 0 \<and> fds \<ge> wc_FDLimit c * 2"

definition over_soft :: "WatchdogConf \<Rightarrow> int \<Rightarrow> int \<Rightarrow> bool" where
  "over_soft c rss fds \<longleftrightarrow> rss \<ge> softBytes c \<or> wc_FDLimit c > 0 \<and> fds \<ge> wc_FDLimit c"

definition emit_event :: "sentinel_event \<Rightarrow> 'm Sentinel \<Rightarrow> 'm Sentinel" where
  "emit_event e s = s\<lparr>sn_events := sn_events s @ [e]\<rparr>"

text \<open>\<open>rss = None\<close>: the status file could not be read.\<close>

definition sentinel_check :: "int option \<Rightarrow> int \<Rightarrow> 'm Sentinel \<Rightarrow> 'm Sentinel" where
  "sentinel_check rss fds s =
     (case rss of
        None \<Rightarrow> s
      | Some rss \<Rightarrow>
          if over_hard (sn_cfg s) rss fds then (emit_event (SelfTerminate rss fds) s)\<lparr>sn_exited := True\<rparr>
          else if over_soft (sn_cfg s) rss fds then
            (if \<not> sn_degraded s \<and> wc_DegradedMode (sn_cfg s)
             then emit_event (DegradedOn rss fds) (s\<lparr>sn_degraded := True, sn_target := SetDegraded True (sn_target s)\<rparr>)
             else s)
          else if sn_degraded s \<and> rss * 5 < softBytes (sn_cfg s) * 4
          then emit_event (DegradedOff rss) (s\<lparr>sn_degraded := False, sn_target := SetDegraded False (sn_target s)\<rparr>)
          else s)"

section \<open>The systemd watchdog (\<^verbatim>\<open>sdnotify.go\<close>)\<close>

text \<open>The address a message goes to, if systemd asked for messages; \<open>@\<close> marks the abstract name space.\<close>

definition sdNotify_addr :: "string \<Rightarrow> string option" where
  "sdNotify_addr sock =
     (case sock of [] \<Rightarrow> None | c # cs \<Rightarrow> Some (if c = CHR ''@'' then CHR 0x00 # cs else sock))"

datatype notified = NotAsked | NotifyFailed | Notified string string

definition sdNotify :: "bool \<Rightarrow> string \<Rightarrow> string \<Rightarrow> notified" where
  "sdNotify reachable sock state =
     (case sdNotify_addr sock of None \<Rightarrow> NotAsked | Some a \<Rightarrow> if reachable then Notified a state else NotifyFailed)"

text \<open>The heartbeat interval, if there is a heartbeat; \<open>duration\<close> is \<^verbatim>\<open>time.ParseDuration\<close>.\<close>

definition StartWatchdog :: "(string \<Rightarrow> int option) \<Rightarrow> string \<Rightarrow> string \<Rightarrow> int option" where
  "StartWatchdog duration sock usec =
     (if sock = [] \<or> usec = [] then None
      else case duration (usec @ ''us'') of None \<Rightarrow> None | Some d \<Rightarrow> if d \<le> 0 then None else Some (d div 2))"

section \<open>Runs\<close>

text \<open>Checks of the sentinel and runs of collectors, in any order, until the process ends.\<close>

datatype 'm watch_op = Check "int option" int | Run string "'m collected" int

fun watch_step :: "'m watch_op \<Rightarrow> 'm Sentinel \<Rightarrow> 'm Sentinel" where
  "watch_step (Check rss fds) s = (if sn_exited s then s else sentinel_check rss fds s)"
| "watch_step (Run n c ms) s = (if sn_exited s then s else s\<lparr>sn_target := runOnce n c ms (sn_target s)\<rparr>)"

definition watch_run :: "'m watch_op list \<Rightarrow> 'm Sentinel \<Rightarrow> 'm Sentinel" where
  "watch_run ops s = fold watch_step ops s"

fun alternates :: "bool \<Rightarrow> sentinel_event list \<Rightarrow> bool option" where
  "alternates d [] = Some d"
| "alternates d (DegradedOn _ _ # es) = (if d then None else alternates True es)"
| "alternates d (DegradedOff _ # es) = (if d then alternates False es else None)"
| "alternates d (SelfTerminate _ _ # es) = (if es = [] then Some d else None)"

lemma alternates_snoc: "alternates d es = Some b \<Longrightarrow> \<forall>x y. SelfTerminate x y \<notin> set es \<Longrightarrow>
    alternates d (es @ [e]) = alternates b [e]"
  by (induction d es rule: alternates.induct) (auto split: if_splits)

definition watch_ok :: "WatchdogConf \<Rightarrow> 'm Sentinel \<Rightarrow> bool" where
  "watch_ok c s \<longleftrightarrow> sn_cfg s = c \<and> sd_degraded (sn_target s) = sn_degraded s \<and> alternates False (sn_events s) = Some (sn_degraded s) \<and>
     (\<not> sn_exited s \<longrightarrow> (\<forall>x y. SelfTerminate x y \<notin> set (sn_events s))) \<and>
     (\<forall>e \<in> set (sn_events s). case e of
        SelfTerminate r f \<Rightarrow> over_hard c r f
      | DegradedOn r f \<Rightarrow> over_soft c r f \<and> \<not> over_hard c r f \<and> wc_DegradedMode c
      | DegradedOff r \<Rightarrow> r * 5 < softBytes c * 4)"

lemma runOnce_degraded [simp]: "sd_degraded (runOnce n x ms s) = sd_degraded s"
  by (simp add: runOnce_def Let_def split: collected.splits)

lemma sentinel_check_ok: "watch_ok c s \<Longrightarrow> \<not> sn_exited s \<Longrightarrow> watch_ok c (sentinel_check rss fds s)"
  by (auto simp: watch_ok_def sentinel_check_def emit_event_def SetDegraded_def alternates_snoc split: option.splits)

lemma watch_step_ok: "watch_ok c s \<Longrightarrow> watch_ok c (watch_step q s)"
  by (cases q) (auto simp: sentinel_check_ok, auto simp: watch_ok_def)

lemma watch_run_ok: "watch_ok c s \<Longrightarrow> watch_ok c (watch_run ops s)"
  unfolding watch_run_def by (induction ops arbitrary: s) (auto intro: watch_step_ok)

text \<open>
  C38: whatever readings and collector runs happened, the scheduler is degraded exactly when the
  sentinel says so; the sentinel's events alternate, with at most one termination, at the
  end; it degrades only at or above a soft limit with degradation enabled, recovers only
  below four fifths of the soft memory limit and ends the process only at a hard limit;
  between the two thresholds nothing changes; and while degraded, only the critical
  collectors run.
\<close>

theorem degradation_hysteresis:
  fixes sched :: "'m Scheduler"
  assumes "\<not> sd_degraded sched" and s: "s = watch_run ops (NewSentinel c sched)"
  shows "sd_degraded (sn_target s) = sn_degraded s \<and> alternates False (sn_events s) = Some (sn_degraded s) \<and>
    (\<forall>r f. DegradedOn r f \<in> set (sn_events s) \<longrightarrow> over_soft c r f \<and> \<not> over_hard c r f \<and> wc_DegradedMode c) \<and>
    (\<forall>r. DegradedOff r \<in> set (sn_events s) \<longrightarrow> r * 5 < softBytes c * 4) \<and>
    (\<forall>r f. SelfTerminate r f \<in> set (sn_events s) \<longrightarrow> over_hard c r f) \<and>
    (\<forall>r f. softBytes c * 4 \<le> r * 5 \<and> \<not> over_soft c r f \<and> \<not> over_hard c r f \<longrightarrow> sentinel_check (Some r) f s = s) \<and>
    (\<forall>n xs ms. sn_degraded s \<and> nonCritical n \<longrightarrow> runOnce n xs ms (sn_target s) = sn_target s)"
proof -
  have "watch_ok c (NewSentinel c sched)" using assms(1) by (simp add: watch_ok_def NewSentinel_def)
  then have ok: "watch_ok c s" unfolding s by (rule watch_run_ok)
  then have a: "sd_degraded (sn_target s) = sn_degraded s" "alternates False (sn_events s) = Some (sn_degraded s)" "sn_cfg s = c"
    and e: "\<forall>e \<in> set (sn_events s). case e of SelfTerminate r f \<Rightarrow> over_hard c r f
      | DegradedOn r f \<Rightarrow> over_soft c r f \<and> \<not> over_hard c r f \<and> wc_DegradedMode c | DegradedOff r \<Rightarrow> r * 5 < softBytes c * 4"
    by (simp_all add: watch_ok_def)
  have "\<forall>r f. softBytes c * 4 \<le> r * 5 \<and> \<not> over_soft c r f \<and> \<not> over_hard c r f \<longrightarrow> sentinel_check (Some r) f s = s"
    using a(3) by (simp add: sentinel_check_def)
  moreover have "\<forall>n xs ms. sn_degraded s \<and> nonCritical n \<longrightarrow> runOnce n xs ms (sn_target s) = sn_target s"
    using a(1) by (simp add: runOnce_def)
  ultimately show ?thesis using a(1,2) e by fastforce
qed

text \<open>A collector that panics or fails is counted, and touches nothing of the other collectors.\<close>

lemma runOnce_isolated:
  assumes "m \<noteq> n"
  shows "sd_errors (runOnce n x ms s) m = sd_errors s m" "sd_latency (runOnce n x ms s) m = sd_latency s m"
  using assms by (simp_all add: runOnce_def bump_def Let_def split: collected.splits)

lemma runOnce_counts:
  assumes "\<not> sd_degraded s \<or> \<not> nonCritical n" "sd_errors s n = Some k" "x = CollectPanic \<or> x = CollectError"
  shows "sd_errors (runOnce n x ms s) n = Some (k + 1)" "sd_submitted (runOnce n x ms s) = sd_submitted s"
  using assms by (auto simp: runOnce_def bump_def Let_def)

lemma NewScheduler_enabled:
  "n \<in> set (sd_collectors (NewScheduler order cfg)) \<longleftrightarrow> n \<in> set order \<and> (\<exists>c. cfg n = Some c \<and> cc_Enabled c)"
  by (auto simp: NewScheduler_def Let_def split: option.splits)

definition sample_watch :: "nat Sentinel" where
  "sample_watch = watch_run [Check (Some 170000000) 10] (NewSentinel \<lparr>wc_RSSSoftMB = 150, wc_RSSHardMB = 190, wc_FDLimit = 1024,
     wc_DegradedMode = True\<rparr> (NewScheduler known_collectors (\<lambda>_. Some \<lparr>cc_Enabled = True, cc_Interval = 0\<rparr>)))"

theorem degradation_hysteresis_witness:
  "sn_degraded sample_watch \<and> runOnce ''net'' (Collected [7]) 1 (sn_target sample_watch) = sn_target sample_watch"
proof -
  let ?c = "\<lparr>wc_RSSSoftMB = 150, wc_RSSHardMB = 190, wc_FDLimit = 1024, wc_DegradedMode = True\<rparr>"
  let ?s = "NewScheduler known_collectors (\<lambda>_. Some \<lparr>cc_Enabled = True, cc_Interval = 0\<rparr>) :: nat Scheduler"
  have d: "sn_degraded sample_watch"
    by (simp add: sample_watch_def watch_run_def sentinel_check_def NewSentinel_def over_hard_def over_soft_def softBytes_def
        hardBytes_def emit_event_def)
  have "\<not> sd_degraded ?s" by (simp add: NewScheduler_def Let_def)
  from degradation_hysteresis [OF this refl, where c = ?c and ops = "[Check (Some 170000000) 10]"] d show ?thesis
    unfolding sample_watch_def by (simp add: nonCritical_def)
qed

end
