(* ===== verification/Collectors.thy ===== *)
theory Collectors
  imports Watchdog Reporter Host_Text
begin

text \<open>
  The collectors of \<^verbatim>\<open>internal/collector\<close> (processor, load, memory, network, disk capacity) and
  the agent's own metrics of \<^verbatim>\<open>internal/watchdog/selfmonitor.go\<close>. The files of \<^verbatim>\<open>/proc\<close>, the
  answers of \<^verbatim>\<open>statfs\<close> and the clocks are inputs; the counters keep their 64 bits. \<open>pf\<close> is
  \<^verbatim>\<open>strconv.ParseFloat\<close>.
\<close>

section \<open>Samples\<close>

record Metric =
  mt_Name :: string
  mt_Timestamp :: int
  mt_Value :: rat
  mt_Labels :: "(string \<times> string) list"

definition mk_sample :: "string \<Rightarrow> int \<Rightarrow> rat \<Rightarrow> (string \<times> string) list \<Rightarrow> Metric" where
  "mk_sample n now v ls = \<lparr>mt_Name = n, mt_Timestamp = now, mt_Value = v, mt_Labels = ls\<rparr>"

datatype collect_error = FileUnreadable string | UnexpectedFormat string | NumberMalformed string | ScanTooLong

section \<open>Processor\<close>

record cpuTimes =
  ct_user :: "64 word"
  ct_nice :: "64 word"
  ct_system :: "64 word"
  ct_idle :: "64 word"
  ct_iowait :: "64 word"
  ct_irq :: "64 word"
  ct_softirq :: "64 word"
  ct_steal :: "64 word"

text \<open>The state of the collector: \<open>None\<close> before the first frame.\<close>

type_synonym CPU = "cpuTimes option"

definition readCPUTimes :: "string option \<Rightarrow> collect_error + cpuTimes" where
  "readCPUTimes data =
     (case data of
        None \<Rightarrow> Inl (FileUnreadable ''/proc/stat'')
      | Some d \<Rightarrow>
          (case find (\<lambda>line. go_HasPrefix line ''cpu '') (go_Split (CHR 0x0A) d) of
             None \<Rightarrow> Inl (UnexpectedFormat [])
           | Some line \<Rightarrow>
               (let f = go_Fields line
                in if length f < 9 then Inl (UnexpectedFormat line)
                   else case those (map go_ParseUint (take 8 (tl f))) of
                          None \<Rightarrow> Inl (NumberMalformed line)
                        | Some v \<Rightarrow> Inr \<lparr>ct_user = v ! 0, ct_nice = v ! 1, ct_system = v ! 2, ct_idle = v ! 3,
                                         ct_iowait = v ! 4, ct_irq = v ! 5, ct_softirq = v ! 6, ct_steal = v ! 7\<rparr>)))"

text \<open>A counter that went backwards counts as unchanged.\<close>

definition counter_delta :: "64 word \<Rightarrow> 64 word \<Rightarrow> rat" where
  "counter_delta a b = (if a < b then 0 else of_nat (unat (a - b)))"

definition cpu_total :: "cpuTimes \<Rightarrow> cpuTimes \<Rightarrow> rat" where
  "cpu_total cur prev =
     counter_delta (ct_user cur) (ct_user prev) + counter_delta (ct_nice cur) (ct_nice prev) +
     counter_delta (ct_system cur) (ct_system prev) + counter_delta (ct_idle cur) (ct_idle prev) +
     counter_delta (ct_iowait cur) (ct_iowait prev) + counter_delta (ct_irq cur) (ct_irq prev) +
     counter_delta (ct_softirq cur) (ct_softirq prev) + counter_delta (ct_steal cur) (ct_steal prev)"

definition cpu_Collect :: "int \<Rightarrow> string option \<Rightarrow> CPU \<Rightarrow> (collect_error + Metric list) \<times> CPU" where
  "cpu_Collect now data c =
     (case readCPUTimes data of
        Inl err \<Rightarrow> (Inl err, c)
      | Inr cur \<Rightarrow>
          (case c of
             None \<Rightarrow> (Inr [], Some cur)
           | Some prev \<Rightarrow>
               (let tot = cpu_total cur prev; pct = (\<lambda>v. v * 100 / tot);
                    d = (\<lambda>fld. counter_delta (fld cur) (fld prev))
                in if tot \<le> 0 then (Inr [], Some cur)
                   else (Inr [mk_sample ''cpu.usage.user'' now (pct (d ct_user + d ct_nice)) [],
                              mk_sample ''cpu.usage.system'' now (pct (d ct_system)) [],
                              mk_sample ''cpu.usage.iowait'' now (pct (d ct_iowait)) [],
                              mk_sample ''cpu.usage.steal'' now (pct (d ct_steal)) [],
                              mk_sample ''cpu.usage.idle'' now (pct (d ct_idle)) []], Some cur))))"

section \<open>Load\<close>

definition load_Collect :: "(string \<Rightarrow> rat option) \<Rightarrow> int \<Rightarrow> string option \<Rightarrow> collect_error + Metric list" where
  "load_Collect pf now data =
     (case data of
        None \<Rightarrow> Inl (FileUnreadable ''/proc/loadavg'')
      | Some d \<Rightarrow>
          (let f = go_Fields d
           in if length f < 3 then Inl (UnexpectedFormat d)
              else case those (map pf (take 3 f)) of
                     None \<Rightarrow> Inl (NumberMalformed d)
                   | Some v \<Rightarrow> Inr (map2 (\<lambda>n x. mk_sample n now x []) [''load.1m'', ''load.5m'', ''load.15m''] v)))"

section \<open>Memory\<close>

definition meminfo_line :: "(string \<Rightarrow> rat option) \<Rightarrow> string \<Rightarrow> (string \<rightharpoonup> rat) \<Rightarrow> (string \<rightharpoonup> rat)" where
  "meminfo_line pf line kv =
     (let f = go_Fields line
      in if length f < 2 then kv
         else case pf (f ! 1) of None \<Rightarrow> kv | Some v \<Rightarrow> kv(go_TrimSuffix (f ! 0) '':'' \<mapsto> v * 1024))"

definition meminfo :: "(string \<Rightarrow> rat option) \<Rightarrow> string \<Rightarrow> (string \<rightharpoonup> rat)" where
  "meminfo pf d = fold (meminfo_line pf) (go_Split (CHR 0x0A) d) Map.empty"

definition mem_optional :: "int \<Rightarrow> (string \<rightharpoonup> rat) \<Rightarrow> Metric list" where
  "mem_optional now kv =
     (case kv ''Buffers'' of None \<Rightarrow> [] | Some v \<Rightarrow> [mk_sample ''mem.buffers.bytes'' now v []]) @
     (case kv ''Cached'' of None \<Rightarrow> [] | Some v \<Rightarrow> [mk_sample ''mem.cached.bytes'' now v []]) @
     (case kv ''SwapTotal'' of
        None \<Rightarrow> []
      | Some st \<Rightarrow> if st > 0
                   then [mk_sample ''mem.swap.total.bytes'' now st [],
                         mk_sample ''mem.swap.used.bytes'' now (st - (case kv ''SwapFree'' of None \<Rightarrow> 0 | Some sf \<Rightarrow> sf)) []]
                   else [])"

definition mem_Collect :: "(string \<Rightarrow> rat option) \<Rightarrow> int \<Rightarrow> string option \<Rightarrow> collect_error + Metric list" where
  "mem_Collect pf now data =
     (case data of
        None \<Rightarrow> Inl (FileUnreadable ''/proc/meminfo'')
      | Some d \<Rightarrow>
          (let kv = meminfo pf d
           in case (kv ''MemTotal'', kv ''MemAvailable'') of
                (Some tot, Some avail) \<Rightarrow>
                  if tot \<le> 0 then Inl (UnexpectedFormat ''meminfo'')
                  else Inr ([mk_sample ''mem.total.bytes'' now tot [], mk_sample ''mem.available.bytes'' now avail [],
                             mk_sample ''mem.used.bytes'' now (tot - avail) [],
                             mk_sample ''mem.usage.percent'' now ((tot - avail) * 100 / tot) []] @ mem_optional now kv)
              | _ \<Rightarrow> Inl (UnexpectedFormat ''meminfo'')))"

section \<open>Network\<close>

record netCounters =
  nc_rxBytes :: "64 word"
  nc_rxPackets :: "64 word"
  nc_rxErrs :: "64 word"
  nc_rxDrop :: "64 word"
  nc_txBytes :: "64 word"
  nc_txPackets :: "64 word"
  nc_txErrs :: "64 word"
  nc_txDrop :: "64 word"

text \<open>\<open>None\<close> before the first frame; then the counters and the clock (ns) of the last one.\<close>

type_synonym Net = "((string \<rightharpoonup> netCounters) \<times> int) option"

definition excludedIface :: "string \<Rightarrow> bool" where
  "excludedIface name \<longleftrightarrow> list_ex (go_HasPrefix name) [''lo'', ''veth'', ''docker'', ''br-'', ''cni'', ''flannel'', ''kube'']"

definition netdev_line :: "string \<Rightarrow> (string \<times> netCounters) option" where
  "netdev_line line =
     (if CHR '':'' \<notin> set line then None
      else (let iface = go_TrimSpace (takeWhile (\<lambda>c. c \<noteq> CHR '':'') line);
                f = go_Fields (tl (dropWhile (\<lambda>c. c \<noteq> CHR '':'') line))
            in if excludedIface iface \<or> length f < 16 then None
               else case those (map go_ParseUint (take 16 f)) of
                      None \<Rightarrow> None
                    | Some v \<Rightarrow> Some (iface, \<lparr>nc_rxBytes = v ! 0, nc_rxPackets = v ! 1, nc_rxErrs = v ! 2, nc_rxDrop = v ! 3,
                                     nc_txBytes = v ! 8, nc_txPackets = v ! 9, nc_txErrs = v ! 10, nc_txDrop = v ! 11\<rparr>)))"

definition readNetDev :: "string option \<Rightarrow> collect_error + (string \<rightharpoonup> netCounters)" where
  "readNetDev data =
     (case data of
        None \<Rightarrow> Inl (FileUnreadable ''/proc/net/dev'')
      | Some d \<Rightarrow>
          Inr (fold (\<lambda>line m. case netdev_line line of None \<Rightarrow> m | Some (i, c) \<Rightarrow> m(i \<mapsto> c)) (go_Split (CHR 0x0A) d) Map.empty))"

definition iface_samples :: "int \<Rightarrow> rat \<Rightarrow> string \<Rightarrow> netCounters \<Rightarrow> netCounters \<Rightarrow> Metric list" where
  "iface_samples ts dt iface c p =
     (let rate = (\<lambda>fld. counter_delta (fld c) (fld p) / dt); ls = [(''iface'', iface)]
      in [mk_sample ''net.rx.bps'' ts (rate nc_rxBytes) ls, mk_sample ''net.tx.bps'' ts (rate nc_txBytes) ls,
          mk_sample ''net.rx.pps'' ts (rate nc_rxPackets) ls, mk_sample ''net.tx.pps'' ts (rate nc_txPackets) ls,
          mk_sample ''net.rx.errps'' ts (rate nc_rxErrs) ls, mk_sample ''net.tx.errps'' ts (rate nc_txErrs) ls,
          mk_sample ''net.rx.dropps'' ts (rate nc_rxDrop) ls, mk_sample ''net.tx.dropps'' ts (rate nc_txDrop) ls])"

text \<open>
  \<open>ts\<close> and \<open>ns\<close> are the clock in milliseconds and nanoseconds, \<open>order\<close> the order in which Go
  iterates over the current interfaces.
\<close>

definition net_Collect :: "int \<Rightarrow> int \<Rightarrow> string list \<Rightarrow> string option \<Rightarrow> Net \<Rightarrow> (collect_error + Metric list) \<times> Net" where
  "net_Collect ts ns order data n =
     (case readNetDev data of
        Inl err \<Rightarrow> (Inl err, n)
      | Inr cur \<Rightarrow>
          (case n of
             None \<Rightarrow> (Inr [], Some (cur, ns))
           | Some (prev, prevAt) \<Rightarrow>
               (let dt = of_int (ns - prevAt) / 10 ^ 9
                in if dt \<le> 0 then (Inr [], n)
                   else (Inr (concat (map (\<lambda>i. case (cur i, prev i) of
                                                 (Some c, Some p) \<Rightarrow> iface_samples ts dt i c p
                                               | _ \<Rightarrow> []) order)), Some (cur, ns)))))"

section \<open>Disk capacity\<close>

record Statfs =
  sf_Blocks :: "64 word"
  sf_Bavail :: "64 word"
  sf_Bsize :: int
  sf_Files :: "64 word"
  sf_Ffree :: "64 word"

definition excludeFSTypes :: "string list" where
  "excludeFSTypes =
     [''tmpfs'', ''devtmpfs'', ''overlay'', ''squashfs'', ''proc'', ''sysfs'', ''cgroup'', ''cgroup2'', ''devpts'',
      ''mqueue'', ''shm'', ''securityfs'', ''debugfs'', ''tracefs'', ''pstore'', ''bpf'', ''autofs'', ''hugetlbfs'',
      ''configfs'', ''fusectl'', ''ramfs'', ''selinuxfs'', ''nsfs'', ''efivarfs'']"

definition mount_samples :: "int \<Rightarrow> string \<Rightarrow> string \<Rightarrow> string \<Rightarrow> Statfs \<Rightarrow> Metric list" where
  "mount_samples now device mountPoint fsType st =
     (let tot = of_nat (unat (sf_Blocks st)) * of_int (sf_Bsize st);
          free = of_nat (unat (sf_Bavail st)) * of_int (sf_Bsize st);
          ls = [(''mount'', mountPoint), (''device'', device), (''fstype'', fsType)]
      in if tot \<le> 0 then []
         else [mk_sample ''disk.cap.total.bytes'' now tot ls, mk_sample ''disk.cap.free.bytes'' now free ls,
               mk_sample ''disk.cap.usage.percent'' now ((tot - free) * 100 / tot) ls] @
              (if sf_Files st > 0
               then [mk_sample ''disk.inode.usage.percent'' now
                       (of_nat (unat (sf_Files st - sf_Ffree st)) * 100 / of_nat (unat (sf_Files st))) ls]
               else []))"

fun disk_loop :: "int \<Rightarrow> (string \<Rightarrow> Statfs option) \<Rightarrow> string list \<Rightarrow> string list \<Rightarrow> Metric list" where
  "disk_loop now statfs seen [] = []"
| "disk_loop now statfs seen (line # ls) =
     (let f = go_Fields line
      in if length f < 3 then disk_loop now statfs seen ls
         else if f ! 2 \<in> set excludeFSTypes \<or> f ! 1 \<in> set seen then disk_loop now statfs seen ls
         else (case statfs (f ! 1) of None \<Rightarrow> [] | Some st \<Rightarrow> mount_samples now (f ! 0) (f ! 1) (f ! 2) st) @
              disk_loop now statfs (f ! 1 # seen) ls)"

text \<open>A scan error is returned beside the samples; the scheduler then drops them.\<close>

definition disk_Collect :: "int \<Rightarrow> (string \<Rightarrow> Statfs option) \<Rightarrow> string option \<Rightarrow> collect_error + Metric list" where
  "disk_Collect now statfs data =
     (case data of
        None \<Rightarrow> Inl (FileUnreadable ''/proc/mounts'')
      | Some d \<Rightarrow> (let (lines, err) = scan_lines d
                  in if err then Inl ScanTooLong else Inr (disk_loop now statfs [] lines)))"

section \<open>The agent itself\<close>

definition selfRSS :: "(string \<Rightarrow> rat option) \<Rightarrow> string option \<Rightarrow> rat option" where
  "selfRSS pf data =
     (case data of
        None \<Rightarrow> None
      | Some d \<Rightarrow>
          (case find (\<lambda>line. go_HasPrefix line ''VmRSS:'') (go_Split (CHR 0x0A) d) of
             None \<Rightarrow> Some 0
           | Some line \<Rightarrow>
               (let f = go_Fields line
                in if length f < 2 then Some 0 else map_option (\<lambda>kb. kb * 1024) (pf (f ! 1)))))"

definition kind_name :: "QueueKind \<Rightarrow> string" where
  "kind_name k = (case k of QueueMetrics \<Rightarrow> ''metrics'' | QueueResults \<Rightarrow> ''results'' | QueueAudit \<Rightarrow> ''audit''
                  | QueueInventory \<Rightarrow> ''inventory'')"

record self_reading =
  sr_now :: int
  sr_uptime :: rat
  sr_goroutines :: nat
  sr_status :: "string option"
  sr_order :: "QueueKind list"

text \<open>\<open>sched = None\<close>: the monitor was built without a scheduler. \<open>sr_order\<close> is the order of the queue table.\<close>

definition self_metrics :: "(string \<Rightarrow> rat option) \<Rightarrow> string \<Rightarrow> Metric Reporter \<Rightarrow> Metric Scheduler option \<Rightarrow> self_reading \<Rightarrow> Metric list" where
  "self_metrics pf version rep sched x =
     (let now = sr_now x; ls = [(''agent_version'', version)]; (depth, dropped) = rep_Stats rep
      in [mk_sample ''agent.uptime.seconds'' now (sr_uptime x) ls,
          mk_sample ''agent.self.goroutines'' now (of_nat (sr_goroutines x)) ls,
          mk_sample ''agent.buffer.depth'' now (of_nat (unat depth)) ls,
          mk_sample ''agent.buffer.dropped.total'' now (of_nat (unat dropped)) ls] @
         (case selfRSS pf (sr_status x) of None \<Rightarrow> [] | Some rss \<Rightarrow> [mk_sample ''agent.self.rss.bytes'' now rss ls]) @
         (case sched of None \<Rightarrow> [] | Some s \<Rightarrow> [mk_sample ''agent.degraded'' now (if sd_degraded s then 1 else 0) ls]) @
         concat (map (\<lambda>k. case WALPending rep k of
                            None \<Rightarrow> []
                          | Some n \<Rightarrow> [mk_sample ''agent.wal.pending.bytes'' now (of_int n) (ls @ [(''queue'', kind_name k)])])
                   (sr_order x)))"

definition self_report :: "(string \<Rightarrow> rat option) \<Rightarrow> string \<Rightarrow> Metric Scheduler option \<Rightarrow> self_reading \<Rightarrow> Metric Reporter \<Rightarrow> Metric Reporter option" where
  "self_report pf version sched x rep = rep_Submit (self_metrics pf version rep sched x) rep"

section \<open>Collection runs\<close>

text \<open>The collectors with a memory, and what a collection reads.\<close>

record collectors =
  co_cpu :: CPU
  co_net :: Net

record host_reading =
  hr_ms :: int
  hr_ns :: int
  hr_file :: "string \<Rightarrow> string option"
  hr_statfs :: "string \<Rightarrow> Statfs option"
  hr_order :: "string list"

definition new_collectors :: collectors where
  "new_collectors = \<lparr>co_cpu = None, co_net = None\<rparr>"

definition as_collected :: "collect_error + Metric list \<Rightarrow> Metric collected" where
  "as_collected r = (case r of Inl _ \<Rightarrow> CollectError | Inr xs \<Rightarrow> Collected xs)"

definition collect_once :: "(string \<Rightarrow> rat option) \<Rightarrow> string \<Rightarrow> host_reading \<Rightarrow> collectors \<Rightarrow> (collect_error + Metric list) \<times> collectors" where
  "collect_once pf name h cs =
     (if name = ''cpu'' then
        (let (r, c) = cpu_Collect (hr_ms h) (hr_file h ''/proc/stat'') (co_cpu cs) in (r, cs\<lparr>co_cpu := c\<rparr>))
      else if name = ''memory'' then (mem_Collect pf (hr_ms h) (hr_file h ''/proc/meminfo''), cs)
      else if name = ''diskcap'' then (disk_Collect (hr_ms h) (hr_statfs h) (hr_file h ''/proc/mounts''), cs)
      else if name = ''net'' then
        (let (r, n) = net_Collect (hr_ms h) (hr_ns h) (hr_order h) (hr_file h ''/proc/net/dev'') (co_net cs) in (r, cs\<lparr>co_net := n\<rparr>))
      else (load_Collect pf (hr_ms h) (hr_file h ''/proc/loadavg''), cs))"

text \<open>One tick of a collector's loop; a collector that is skipped is not called.\<close>

definition collect_turn ::
  "(string \<Rightarrow> rat option) \<Rightarrow> string \<times> host_reading \<times> int \<Rightarrow> Metric Scheduler \<times> collectors \<Rightarrow> Metric Scheduler \<times> collectors" where
  "collect_turn pf t p =
     (let (name, h, ms) = t; (s, cs) = p
      in if sd_degraded s \<and> nonCritical name then (s, cs)
         else (let (r, cs') = collect_once pf name h cs in (runOnce name (as_collected r) ms s, cs')))"

definition collect_run ::
  "(string \<Rightarrow> rat option) \<Rightarrow> (string \<times> host_reading \<times> int) list \<Rightarrow> Metric Scheduler \<Rightarrow> Metric Scheduler \<times> collectors" where
  "collect_run pf ts s = fold (collect_turn pf) ts (s, new_collectors)"

section \<open>The metric dictionary\<close>

text \<open>The metrics of the agent with their label keys.\<close>

definition metric_dictionary :: "(string \<times> string list) list" where
  "metric_dictionary =
     map (\<lambda>n. (n, [])) [''cpu.usage.user'', ''cpu.usage.system'', ''cpu.usage.iowait'', ''cpu.usage.steal'', ''cpu.usage.idle'',
       ''load.1m'', ''load.5m'', ''load.15m'', ''mem.total.bytes'', ''mem.available.bytes'', ''mem.used.bytes'', ''mem.usage.percent'',
       ''mem.buffers.bytes'', ''mem.cached.bytes'', ''mem.swap.total.bytes'', ''mem.swap.used.bytes''] @
     map (\<lambda>n. (n, [''iface''])) [''net.rx.bps'', ''net.tx.bps'', ''net.rx.pps'', ''net.tx.pps'', ''net.rx.errps'', ''net.tx.errps'',
       ''net.rx.dropps'', ''net.tx.dropps''] @
     map (\<lambda>n. (n, [''mount'', ''device'', ''fstype''])) [''disk.cap.total.bytes'', ''disk.cap.free.bytes'', ''disk.cap.usage.percent'',
       ''disk.inode.usage.percent'']"

definition well_typed :: "Metric \<Rightarrow> bool" where
  "well_typed m \<longleftrightarrow> (mt_Name m, map fst (mt_Labels m)) \<in> set metric_dictionary \<and>
     (\<forall>i. (''iface'', i) \<in> set (mt_Labels m) \<longrightarrow> \<not> excludedIface i) \<and>
     (\<forall>t. (''fstype'', t) \<in> set (mt_Labels m) \<longrightarrow> t \<notin> set excludeFSTypes)"

lemma sample_simps [simp]:
  "mt_Name (mk_sample n t v ls) = n" "mt_Timestamp (mk_sample n t v ls) = t" "mt_Value (mk_sample n t v ls) = v" "mt_Labels (mk_sample n t v ls) = ls"
  by (simp_all add: mk_sample_def)

text \<open>Usage is a percentage of the elapsed time, and a rate is never negative.\<close>

definition value_ok :: "Metric \<Rightarrow> bool" where
  "value_ok m \<longleftrightarrow> (go_HasPrefix (mt_Name m) ''cpu.usage.'' \<longrightarrow> 0 \<le> mt_Value m \<and> mt_Value m \<le> 100) \<and>
     (go_HasPrefix (mt_Name m) ''net.'' \<longrightarrow> 0 \<le> mt_Value m)"

lemma counter_delta_nonneg [simp]: "0 \<le> counter_delta a b"
proof (cases "a < b")
  case False
  then have "counter_delta a b = of_nat (unat (a - b))" unfolding counter_delta_def by (rule if_not_P)
  then show ?thesis using of_nat_0_le_iff by metis
qed (simp add: counter_delta_def)

lemma pct_bounds: "0 \<le> a \<Longrightarrow> a \<le> t \<Longrightarrow> 0 < t \<Longrightarrow> 0 \<le> a * 100 / t \<and> a * 100 / t \<le> (100 :: rat)"
  by (simp add: divide_le_eq)



section \<open>What the scheduler submits\<close>

definition sample_ok :: "int \<Rightarrow> Metric \<Rightarrow> bool" where
  "sample_ok now m \<longleftrightarrow> mt_Timestamp m = now \<and> well_typed m \<and> value_ok m"

lemma in_dictionary [simp]:
  "(''cpu.usage.user'', []) \<in> set metric_dictionary"
  "(''cpu.usage.system'', []) \<in> set metric_dictionary"
  "(''cpu.usage.iowait'', []) \<in> set metric_dictionary"
  "(''cpu.usage.steal'', []) \<in> set metric_dictionary"
  "(''cpu.usage.idle'', []) \<in> set metric_dictionary"
  "(''load.1m'', []) \<in> set metric_dictionary"
  "(''load.5m'', []) \<in> set metric_dictionary"
  "(''load.15m'', []) \<in> set metric_dictionary"
  "(''mem.total.bytes'', []) \<in> set metric_dictionary"
  "(''mem.available.bytes'', []) \<in> set metric_dictionary"
  "(''mem.used.bytes'', []) \<in> set metric_dictionary"
  "(''mem.usage.percent'', []) \<in> set metric_dictionary"
  "(''mem.buffers.bytes'', []) \<in> set metric_dictionary"
  "(''mem.cached.bytes'', []) \<in> set metric_dictionary"
  "(''mem.swap.total.bytes'', []) \<in> set metric_dictionary"
  "(''mem.swap.used.bytes'', []) \<in> set metric_dictionary"
  "(''net.rx.bps'', [''iface'']) \<in> set metric_dictionary"
  "(''net.tx.bps'', [''iface'']) \<in> set metric_dictionary"
  "(''net.rx.pps'', [''iface'']) \<in> set metric_dictionary"
  "(''net.tx.pps'', [''iface'']) \<in> set metric_dictionary"
  "(''net.rx.errps'', [''iface'']) \<in> set metric_dictionary"
  "(''net.tx.errps'', [''iface'']) \<in> set metric_dictionary"
  "(''net.rx.dropps'', [''iface'']) \<in> set metric_dictionary"
  "(''net.tx.dropps'', [''iface'']) \<in> set metric_dictionary"
  "(''disk.cap.total.bytes'', [''mount'', ''device'', ''fstype'']) \<in> set metric_dictionary"
  "(''disk.cap.free.bytes'', [''mount'', ''device'', ''fstype'']) \<in> set metric_dictionary"
  "(''disk.cap.usage.percent'', [''mount'', ''device'', ''fstype'']) \<in> set metric_dictionary"
  "(''disk.inode.usage.percent'', [''mount'', ''device'', ''fstype'']) \<in> set metric_dictionary"
  by (simp_all only: metric_dictionary_def map_append list.map set_append list.set, simp_all)

lemma sample_ok_iff:
  "sample_ok now (mk_sample n t v ls) \<longleftrightarrow> t = now \<and> (n, map fst ls) \<in> set metric_dictionary \<and>
     (\<forall>(k, x) \<in> set ls. (k = ''iface'' \<longrightarrow> \<not> excludedIface x) \<and> (k = ''fstype'' \<longrightarrow> x \<notin> set excludeFSTypes)) \<and>
     (go_HasPrefix n ''cpu.usage.'' \<longrightarrow> 0 \<le> v \<and> v \<le> 100) \<and> (go_HasPrefix n ''net.'' \<longrightarrow> 0 \<le> v)"
  by (auto simp: sample_ok_def well_typed_def value_ok_def)

lemmas sample_ok_simps = sample_ok_iff go_HasPrefix_def

lemma cpu_Collect_ok:
  assumes "fst (cpu_Collect now data c) = Inr xs" "m \<in> set xs"
  shows "sample_ok now m"
proof -
  obtain cur where cur: "readCPUTimes data = Inr cur" using assms(1) by (auto simp: cpu_Collect_def split: sum.splits)
  then obtain prev where c: "c = Some prev" using assms by (cases c) (auto simp: cpu_Collect_def)
  let ?d = "\<lambda>fld. counter_delta (fld cur) (fld prev)"
  have t: "0 < cpu_total cur prev"
    and m: "m \<in> {mk_sample ''cpu.usage.user'' now ((?d ct_user + ?d ct_nice) * 100 / cpu_total cur prev) [],
        mk_sample ''cpu.usage.system'' now (?d ct_system * 100 / cpu_total cur prev) [],
        mk_sample ''cpu.usage.iowait'' now (?d ct_iowait * 100 / cpu_total cur prev) [],
        mk_sample ''cpu.usage.steal'' now (?d ct_steal * 100 / cpu_total cur prev) [],
        mk_sample ''cpu.usage.idle'' now (?d ct_idle * 100 / cpu_total cur prev) []}"
    using assms cur c by (cases "cpu_total cur prev \<le> 0"; force simp: cpu_Collect_def Let_def)+
  have le: "?d ct_user + ?d ct_nice \<le> cpu_total cur prev" "?d ct_system \<le> cpu_total cur prev" "?d ct_iowait \<le> cpu_total cur prev"
    "?d ct_steal \<le> cpu_total cur prev" "?d ct_idle \<le> cpu_total cur prev"
    by (simp_all add: cpu_total_def add_nonneg_nonneg)
  have nn: "0 \<le> ?d ct_user + ?d ct_nice" by (intro add_nonneg_nonneg) simp_all
  have b: "0 \<le> a * 100 / cpu_total cur prev \<and> a * 100 / cpu_total cur prev \<le> 100"
    if "a \<in> {?d ct_user + ?d ct_nice, ?d ct_system, ?d ct_iowait, ?d ct_steal, ?d ct_idle}" for a
  proof -
    have "0 \<le> a" "a \<le> cpu_total cur prev" using le that nn by auto
    then show ?thesis by (rule pct_bounds [OF _ _ t])
  qed
  show ?thesis using m by (elim insertE emptyE) (simp_all add: sample_ok_iff b go_HasPrefix_def del: times_divide_eq_left distrib_right_numeral)
qed

lemma load_Collect_ok:
  assumes "load_Collect pf now data = Inr xs" "m \<in> set xs"
  shows "sample_ok now m"
proof -
  obtain v where "xs = map2 (\<lambda>n x. mk_sample n now x []) [''load.1m'', ''load.5m'', ''load.15m''] v"
    using assms(1) by (auto simp: load_Collect_def Let_def split: option.splits if_splits)
  then obtain n x where "m = mk_sample n now x []" "n \<in> {''load.1m'', ''load.5m'', ''load.15m''}"
    using assms(2) by (auto dest!: set_zip_leftD)
  then show ?thesis by (auto simp: sample_ok_simps)
qed

lemma mem_optional_ok: "list_all (sample_ok now) (mem_optional now kv)"
  by (simp add: mem_optional_def sample_ok_simps split: option.split)

lemma mem_Collect_ok:
  assumes "mem_Collect pf now data = Inr xs" "m \<in> set xs"
  shows "sample_ok now m"
proof -
  obtain tot avail kv where "xs = [mk_sample ''mem.total.bytes'' now tot [], mk_sample ''mem.available.bytes'' now avail [],
      mk_sample ''mem.used.bytes'' now (tot - avail) [], mk_sample ''mem.usage.percent'' now ((tot - avail) * 100 / tot) []] @ mem_optional now kv"
    using assms(1) unfolding mem_Collect_def Let_def by (auto split: option.splits if_splits)
  then have "list_all (sample_ok now) xs" using mem_optional_ok [of now kv] by (simp add: sample_ok_simps)
  then show ?thesis using assms(2) by (simp add: list_all_iff)
qed

lemma netdev_line_iface: "netdev_line line = Some (i, c) \<Longrightarrow> \<not> excludedIface i"
  by (auto simp: netdev_line_def Let_def split: if_splits option.splits)

lemma netdev_fold_keys:
  "fold (\<lambda>line m. case netdev_line line of None \<Rightarrow> m | Some (i, c) \<Rightarrow> m(i \<mapsto> c)) ls m0 i = Some c \<Longrightarrow>
    m0 i \<noteq> None \<longrightarrow> \<not> excludedIface i \<Longrightarrow> \<not> excludedIface i"
proof (induction ls arbitrary: m0)
  case (Cons l ls)
  let ?m = "case netdev_line l of None \<Rightarrow> m0 | Some (i, c) \<Rightarrow> m0(i \<mapsto> c)"
  have "?m i \<noteq> None \<longrightarrow> \<not> excludedIface i"
    using Cons.prems(2) netdev_line_iface by (auto split: option.splits if_splits)
  then show ?case using Cons.IH [of ?m] Cons.prems(1) by simp
qed auto

lemma readNetDev_keys: "readNetDev data = Inr cur \<Longrightarrow> cur i = Some c \<Longrightarrow> \<not> excludedIface i"
  using netdev_fold_keys [where ?m0.0 = Map.empty] by (force simp: readNetDev_def split: option.splits)

lemma iface_samples_ok: "0 < dt \<Longrightarrow> \<not> excludedIface i \<Longrightarrow> list_all (sample_ok ts) (iface_samples ts dt i c p)"
  by (simp add: iface_samples_def Let_def sample_ok_simps)

lemma net_Collect_ok:
  assumes "fst (net_Collect ts ns order data n) = Inr xs" "m \<in> set xs"
  shows "sample_ok ts m"
proof -
  obtain cur where cur: "readNetDev data = Inr cur" using assms(1) by (auto simp: net_Collect_def split: sum.splits)
  with assms obtain prev at0 where n: "n = Some (prev, at0)" by (cases n) (auto simp: net_Collect_def)
  define dt where "dt = (of_int (ns - at0) / 10 ^ 9 :: rat)"
  let ?ys = "concat (map (\<lambda>i. case (cur i, prev i) of (Some c, Some p) \<Rightarrow> iface_samples ts dt i c p | _ \<Rightarrow> []) order)"
  have "net_Collect ts ns order data n = (if dt \<le> 0 then (Inr [], n) else (Inr ?ys, Some (cur, ns)))"
    by (simp only: net_Collect_def cur n dt_def Let_def sum.case option.case prod.case)
  then have dt: "0 < dt" and xs: "xs = ?ys" using assms by (cases "dt \<le> 0"; simp)+
  from assms(2) obtain i where "m \<in> set (case (cur i, prev i) of (Some c, Some p) \<Rightarrow> iface_samples ts dt i c p | _ \<Rightarrow> [])"
    unfolding xs by auto
  then obtain c p where "cur i = Some c" "m \<in> set (iface_samples ts dt i c p)" by (cases "cur i"; cases "prev i") auto
  then show ?thesis using readNetDev_keys [OF cur] iface_samples_ok [OF dt, of i ts c p] by (simp add: list_all_iff)
qed

lemma mount_samples_ok: "t \<notin> set excludeFSTypes \<Longrightarrow> m \<in> set (mount_samples now d mp t st) \<Longrightarrow> sample_ok now m"
proof -
  assume t: "t \<notin> set excludeFSTypes" and m: "m \<in> set (mount_samples now d mp t st)"
  have "list_all (sample_ok now) (mount_samples now d mp t st)"
    unfolding mount_samples_def Let_def using t by (simp add: sample_ok_simps)
  with m show ?thesis by (simp add: list_all_iff)
qed

lemma disk_loop_ok: "m \<in> set (disk_loop now statfs seen ls) \<Longrightarrow> sample_ok now m"
  by (induction now statfs seen ls rule: disk_loop.induct)
    (auto simp: Let_def split: if_splits option.splits intro: mount_samples_ok)

lemma collect_ok:
  assumes "fst (collect_once pf name h cs) = Inr xs" "m \<in> set xs"
  shows "sample_ok (hr_ms h) m"
proof -
  have "\<lbrakk>disk_Collect (hr_ms h) (hr_statfs h) d = Inr xs\<rbrakk> \<Longrightarrow> ?thesis" for d
    using assms(2) by (auto simp: disk_Collect_def split: option.splits prod.splits if_splits intro: disk_loop_ok)
  then show ?thesis
    using assms by (auto simp: collect_once_def split: prod.splits if_splits
        intro: cpu_Collect_ok [OF arg_cong [of _ _ fst, THEN trans]] net_Collect_ok [OF arg_cong [of _ _ fst, THEN trans]] mem_Collect_ok load_Collect_ok)
qed

lemma runOnce_submitted:
  "xs \<in> set (sd_submitted (runOnce n r ms s)) \<Longrightarrow> xs \<in> set (sd_submitted s) \<or> r = Collected xs"
  by (auto simp: runOnce_def Let_def split: collected.splits if_splits)

lemma collect_run_ok:
  assumes "\<forall>xs \<in> set (sd_submitted s). \<forall>m \<in> set xs. \<exists>t \<in> set ts0. sample_ok (hr_ms (fst (snd t))) m"
  shows "\<forall>xs \<in> set (sd_submitted (fst (fold (collect_turn pf) ts (s, cs)))). \<forall>m \<in> set xs.
    \<exists>t \<in> set (ts0 @ ts). sample_ok (hr_ms (fst (snd t))) m"
  using assms
proof (induction ts arbitrary: s cs ts0)
  case (Cons t ts)
  obtain name h ms where t: "t = (name, h, ms)" by (cases t)
  obtain s' cs' where p: "collect_turn pf t (s, cs) = (s', cs')" by (cases "collect_turn pf t (s, cs)")
  have "\<exists>u \<in> set (ts0 @ [t]). sample_ok (hr_ms (fst (snd u))) m" if xs: "xs \<in> set (sd_submitted s')" "m \<in> set xs" for xs m
  proof -
    have "xs \<in> set (sd_submitted s) \<or> fst (collect_once pf name h cs) = Inr xs"
      using xs(1) p runOnce_submitted
      by (auto simp: collect_turn_def t as_collected_def split: if_splits prod.splits sum.splits dest!: runOnce_submitted)
    then show ?thesis using Cons.prems xs(2) collect_ok by (force simp: t)
  qed
  then have "\<forall>xs \<in> set (sd_submitted s'). \<forall>m \<in> set xs. \<exists>u \<in> set (ts0 @ [t]). sample_ok (hr_ms (fst (snd u))) m" by blast
  from Cons.IH [OF this, of cs'] p show ?case by simp
qed auto


definition sample_reading :: "string \<Rightarrow> host_reading" where
  "sample_reading stat = \<lparr>hr_ms = 7, hr_ns = 7, hr_file = (\<lambda>p. if p = ''/proc/stat'' then Some stat else None), hr_statfs = (\<lambda>_. None), hr_order = []\<rparr>"


end
