(* ===== verification/Inventory.thy ===== *)
theory Inventory
  imports Reporter Host_Text
begin

text \<open>
  \<^verbatim>\<open>internal/inventory\<close>: the asset report. What the host answers (file contents, the output of
  \<^verbatim>\<open>rpm\<close> and other commands, process entries, system calls) is an input; filtering, parsing,
  redaction, the assembly of the report and its submission are modelled.
\<close>

section \<open>Packages\<close>

record PackageInfo =
  pk_Name :: string
  pk_Version :: string
  pk_Arch :: string

fun matchAny :: "string \<Rightarrow> string list \<Rightarrow> bool" where
  "matchAny name [] = False"
| "matchAny name (p # ps) =
     (if go_HasSuffix p ''*''
      then (if go_HasPrefix name (go_TrimSuffix p ''*'') then True else matchAny name ps)
      else if name = p then True else matchAny name ps)"

definition package_of_line :: "string list \<Rightarrow> string \<Rightarrow> PackageInfo option" where
  "package_of_line patterns line =
     (let f = go_Fields line
      in if length f < 2 then None
         else (let p = \<lparr>pk_Name = f ! 0, pk_Version = f ! 1, pk_Arch = (if length f \<ge> 3 then f ! 2 else [])\<rparr>
               in if matchAny (pk_Name p) patterns then Some p else None))"

definition collectPackages :: "string option \<Rightarrow> string list \<Rightarrow> PackageInfo list" where
  "collectPackages out patterns =
     (case out of None \<Rightarrow> [] | Some s \<Rightarrow> List.map_filter (package_of_line patterns) (go_Split (CHR 0x0A) s))"

section \<open>Processes\<close>

record ProcessInfo =
  pi_PID :: int
  pi_PPID :: int
  pi_User :: string
  pi_Cmdline :: string

definition redact1 :: "string \<Rightarrow> string \<Rightarrow> string" where
  "redact1 cmdline p =
     (if \<not> go_HasSuffix p ''*'' then cmdline
      else (let prefix = go_TrimSuffix p ''*''
            in case go_Index cmdline prefix of
                 None \<Rightarrow> cmdline
               | Some idx \<Rightarrow>
                   (let start = idx + length prefix
                    in take start cmdline @ ''***'' @ dropWhile (\<lambda>c. c \<noteq> CHR '' '') (drop start cmdline))))"

definition redact :: "string \<Rightarrow> string list \<Rightarrow> string" where
  "redact cmdline patterns = foldl redact1 cmdline patterns"

text \<open>The text behind the last closing parenthesis, if the guards of the code hold.\<close>

definition after_paren :: "string \<Rightarrow> string option" where
  "after_paren s =
     (let tail = rev (takeWhile (\<lambda>c. c \<noteq> CHR '')'') (rev s)); i = length s - length tail
      in if CHR '')'' \<in> set s \<and> i - 1 > 0 \<and> i + 3 < length s then Some tail else None)"

record proc_entry =
  pe_name :: string
  pe_stat :: "string option"
  pe_cmdline :: "string option"
  pe_uid :: "nat option"

definition process_of :: "string list \<Rightarrow> proc_entry \<Rightarrow> ProcessInfo option" where
  "process_of patterns e =
     (case go_Atoi (pe_name e) of
        None \<Rightarrow> None
      | Some pid \<Rightarrow>
          Some \<lparr>pi_PID = pid,
            pi_PPID = (case Option.bind (pe_stat e) after_paren of
                         None \<Rightarrow> 0
                       | Some t \<Rightarrow> let f = go_Fields t in if length f \<ge> 2 then atoi_value (f ! 1) else 0),
            pi_User = (case pe_uid e of None \<Rightarrow> [] | Some u \<Rightarrow> dec_digits u),
            pi_Cmdline = (case pe_cmdline e of
                            None \<Rightarrow> []
                          | Some d \<Rightarrow>
                              (let trimmed = rev (dropWhile (\<lambda>c. c = CHR 0x00) (rev d))
                               in redact (map (\<lambda>c. if c = CHR 0x00 then CHR '' '' else c) trimmed) patterns))\<rparr>)"

section \<open>The report\<close>

record InventoryConf =
  vc_Enabled :: bool
  vc_FullInterval :: int
  vc_PackagesEnabled :: bool
  vc_Patterns :: "string list"
  vc_ProcessesEnabled :: bool
  vc_UploadEnabled :: bool
  vc_RedactPatterns :: "string list"

record StaticInfo =
  si_Hostname :: string
  si_MachineID :: string
  si_BootID :: string
  si_OS :: string
  si_Kernel :: string
  si_Arch :: string
  si_CPUModel :: string
  si_CPUCores :: nat
  si_MemTotalMB :: int
  si_BoardSN :: string

record IfaceInfo =
  if_Name :: string
  if_MAC :: string
  if_Addrs :: "string list"

record MountInfo =
  mi_MountPoint :: string
  mi_Device :: string
  mi_FSType :: string
  mi_TotalGB :: rat

record RuntimeInfo =
  ri_UptimeSec :: rat
  ri_TimeSource :: string

record Report =
  ar_ReportType :: string
  ar_CollectedAt :: int
  ar_Static :: StaticInfo
  ar_Interfaces :: "IfaceInfo list"
  ar_Mounts :: "MountInfo list"
  ar_Packages :: "PackageInfo list"
  ar_Processes :: "ProcessInfo list"
  ar_Runtime :: RuntimeInfo

text \<open>
  What the host answers to one full collection: file contents, outputs of commands, system
  calls; \<open>None\<close> is a failure. An interface has its name, loopback flag, hardware address and,
  if they can be read, its addresses.
\<close>

record net_iface =
  ni_name :: string
  ni_loopback :: bool
  ni_mac :: string
  ni_addrs :: "string list option"

record host_state =
  hs_now :: int
  hs_hostname :: "string option"
  hs_file :: "string \<Rightarrow> string option"
  hs_machine :: "string option"
  hs_dmidecode :: "string option"
  hs_timedatectl :: "string option"
  hs_ifaces :: "net_iface list option"
  hs_statfs :: "string \<Rightarrow> (64 word \<times> int) option"
  hs_rpm :: "string option"
  hs_procs :: "proc_entry list option"

definition readTrimmed :: "host_state \<Rightarrow> string \<Rightarrow> string" where
  "readTrimmed h path = (case hs_file h path of None \<Rightarrow> [] | Some d \<Rightarrow> go_TrimSpace d)"

text \<open>The machine field of \<^verbatim>\<open>uname\<close> is a zero-terminated array.\<close>

definition runtimeGOARCH :: "host_state \<Rightarrow> string" where
  "runtimeGOARCH h = (case hs_machine h of None \<Rightarrow> ''unknown'' | Some m \<Rightarrow> takeWhile (\<lambda>c. c \<noteq> CHR 0x00) m)"

definition countCPUCores :: "host_state \<Rightarrow> nat" where
  "countCPUCores h = (case hs_file h ''/proc/cpuinfo'' of None \<Rightarrow> 0 | Some d \<Rightarrow> go_Count d (''processor'' @ [CHR 0x09] @ '':''))"

text \<open>The last \<^verbatim>\<open>PRETTY_NAME\<close> line counts.\<close>

definition os_name :: "string \<Rightarrow> string" where
  "os_name d =
     foldl (\<lambda>s line. if go_HasPrefix line ''PRETTY_NAME=''
                     then go_TrimRight (\<lambda>c. c = CHR 0x22) (go_TrimLeft (\<lambda>c. c = CHR 0x22) (drop (length ''PRETTY_NAME='') line))
                     else s) [] (go_Split (CHR 0x0A) d)"

text \<open>The first matching line ends the search, also when it cannot be used.\<close>

definition cpu_model :: "string \<Rightarrow> string" where
  "cpu_model d =
     (case find (\<lambda>line. go_HasPrefix line ''model name'') (go_Split (CHR 0x0A) d) of
        None \<Rightarrow> []
      | Some line \<Rightarrow> if CHR '':'' \<in> set line then go_TrimSpace (tl (dropWhile (\<lambda>c. c \<noteq> CHR '':'') line)) else [])"

definition mem_total :: "string \<Rightarrow> int" where
  "mem_total d =
     (case find (\<lambda>line. go_HasPrefix line ''MemTotal:'') (go_Split (CHR 0x0A) d) of
        None \<Rightarrow> 0
      | Some line \<Rightarrow>
          (let f = go_Fields line
           in if length f \<ge> 2
              then (case go_Atoi (f ! 1) of None \<Rightarrow> 0 | Some kb \<Rightarrow> if kb \<ge> 0 then kb div 1024 else - ((- kb) div 1024))
              else 0))"

definition board_sn :: "string \<Rightarrow> string" where
  "board_sn out = (let sn = go_TrimSpace out in if sn \<noteq> [] \<and> \<not> go_Contains sn ''O.E.M.'' \<and> sn \<noteq> ''None'' then sn else [])"

definition collectStatic :: "host_state \<Rightarrow> StaticInfo" where
  "collectStatic h =
     \<lparr>si_Hostname = (case hs_hostname h of None \<Rightarrow> [] | Some hn \<Rightarrow> hn),
      si_MachineID = readTrimmed h ''/etc/machine-id'',
      si_BootID = readTrimmed h ''/proc/sys/kernel/random/boot_id'',
      si_OS = (case hs_file h ''/etc/os-release'' of None \<Rightarrow> [] | Some d \<Rightarrow> os_name d),
      si_Kernel = readTrimmed h ''/proc/sys/kernel/osrelease'',
      si_Arch = runtimeGOARCH h,
      si_CPUModel = (case hs_file h ''/proc/cpuinfo'' of None \<Rightarrow> [] | Some d \<Rightarrow> cpu_model d),
      si_CPUCores = countCPUCores h,
      si_MemTotalMB = (case hs_file h ''/proc/meminfo'' of None \<Rightarrow> 0 | Some d \<Rightarrow> mem_total d),
      si_BoardSN = (case hs_dmidecode h of None \<Rightarrow> [] | Some out \<Rightarrow> board_sn out)\<rparr>"

definition collectInterfaces :: "net_iface list option \<Rightarrow> IfaceInfo list" where
  "collectInterfaces ifaces =
     (case ifaces of
        None \<Rightarrow> []
      | Some ifs \<Rightarrow> map (\<lambda>i. \<lparr>if_Name = ni_name i, if_MAC = ni_mac i,
                              if_Addrs = (case ni_addrs i of None \<Rightarrow> [] | Some as \<Rightarrow> as)\<rparr>)
                     (filter (\<lambda>i. \<not> ni_loopback i) ifs))"

definition pseudoFSTypes :: "string list" where
  "pseudoFSTypes =
     [''tmpfs'', ''devtmpfs'', ''overlay'', ''squashfs'', ''proc'', ''sysfs'', ''cgroup'', ''cgroup2'', ''devpts'',
      ''mqueue'', ''shm'', ''securityfs'', ''debugfs'', ''tracefs'', ''pstore'', ''bpf'', ''autofs'', ''hugetlbfs'',
      ''configfs'', ''fusectl'', ''ramfs'', ''selinuxfs'', ''nsfs'', ''efivarfs'']"

definition mount_of_line :: "(string \<Rightarrow> (64 word \<times> int) option) \<Rightarrow> string \<Rightarrow> MountInfo option" where
  "mount_of_line statfs line =
     (let f = go_Fields line
      in if length f < 3 \<or> f ! 2 \<in> set pseudoFSTypes then None
         else case statfs (f ! 1) of
                None \<Rightarrow> None
              | Some (blocks, bsize) \<Rightarrow>
                  Some \<lparr>mi_MountPoint = f ! 1, mi_Device = f ! 0, mi_FSType = f ! 2,
                        mi_TotalGB = of_nat (unat blocks) * of_int bsize / 2 ^ 30\<rparr>)"

definition collectMounts :: "host_state \<Rightarrow> MountInfo list" where
  "collectMounts h =
     (case hs_file h ''/proc/mounts'' of
        None \<Rightarrow> []
      | Some d \<Rightarrow> List.map_filter (mount_of_line (hs_statfs h)) (fst (scan_lines d)))"

text \<open>\<open>pf\<close> is \<^verbatim>\<open>strconv.ParseFloat\<close>.\<close>

definition collectRuntime :: "(string \<Rightarrow> rat option) \<Rightarrow> host_state \<Rightarrow> RuntimeInfo" where
  "collectRuntime pf h =
     \<lparr>ri_UptimeSec = (case hs_file h ''/proc/uptime'' of
                        None \<Rightarrow> 0
                      | Some d \<Rightarrow> let f = go_Fields d
                                  in if length f \<ge> 1 then (case pf (f ! 0) of None \<Rightarrow> 0 | Some v \<Rightarrow> v) else 0),
      ri_TimeSource = (case hs_timedatectl h of None \<Rightarrow> [] | Some out \<Rightarrow> ''ntp_synced='' @ go_TrimSpace out)\<rparr>"

type_synonym inv_cache = "ProcessInfo list"

definition collectProcesses :: "string list \<Rightarrow> proc_entry list option \<Rightarrow> inv_cache \<Rightarrow> ProcessInfo list \<times> inv_cache" where
  "collectProcesses patterns ents cache =
     (case ents of None \<Rightarrow> ([], cache) | Some es \<Rightarrow> (let out = List.map_filter (process_of patterns) es in (out, out)))"

definition CollectFull ::
  "(string \<Rightarrow> rat option) \<Rightarrow> InventoryConf \<Rightarrow> host_state \<Rightarrow> inv_cache \<Rightarrow> Report \<times> inv_cache" where
  "CollectFull pf cfg h cache =
     (let (procs, cache') = (if vc_ProcessesEnabled cfg then collectProcesses (vc_RedactPatterns cfg) (hs_procs h) cache else ([], cache))
      in (\<lparr>ar_ReportType = ''full'', ar_CollectedAt = hs_now h, ar_Static = collectStatic h,
           ar_Interfaces = collectInterfaces (hs_ifaces h), ar_Mounts = collectMounts h,
           ar_Packages = (if vc_PackagesEnabled cfg then collectPackages (hs_rpm h) (vc_Patterns cfg) else []),
           ar_Processes = (if vc_ProcessesEnabled cfg \<and> vc_UploadEnabled cfg then procs else []),
           ar_Runtime = collectRuntime pf h\<rparr>, cache'))"

definition report_interval :: "InventoryConf \<Rightarrow> int" where
  "report_interval cfg = (if vc_FullInterval cfg \<le> 0 then 24 * 3600 * 1000000000 else vc_FullInterval cfg)"

record inv_module =
  im_revision :: nat
  im_cache :: inv_cache

text \<open>\<open>json\<close> encodes revision and report; \<open>n1\<close> and \<open>n2\<close> are the clock readings (milliseconds) of the id and the item.\<close>

definition reportFull ::
  "(string \<Rightarrow> rat option) \<Rightarrow> (nat \<times> Report \<Rightarrow> bytes option) \<Rightarrow> (ReliableItem \<Rightarrow> bytes option) \<Rightarrow> wal_fault \<Rightarrow> nat \<Rightarrow> int \<Rightarrow> InventoryConf \<Rightarrow>
   host_state \<Rightarrow> inv_module \<Rightarrow> 'm Reporter \<Rightarrow> rep_error option \<times> inv_module \<times> 'm Reporter" where
  "reportFull pf json marshal fault n1 n2 cfg h m r =
     (let (report, cache) = CollectFull pf cfg h (im_cache m);
          rev = Suc (im_revision m);
          i = ''inv-full-'' @ dec_digits n1 @ ''-'' @ dec_digits rev;
          (err, r') = SubmitReliable marshal fault n2 r QueueInventory i (json (rev, report))
      in (err, \<lparr>im_revision = rev, im_cache = cache\<rparr>, r'))"

section \<open>Redaction\<close>

lemma redact1_value:
  assumes "go_Index (pre @ prefix) prefix = Some (length pre)" "CHR '' '' \<notin> set v" "rest = [] \<or> hd rest = CHR '' ''"
  shows "redact1 (pre @ prefix @ v @ rest) (prefix @ ''*'') = pre @ prefix @ ''***'' @ rest"
proof -
  have "go_Index ((pre @ prefix) @ v @ rest) prefix = Some (length pre)" by (rule go_Index_append [OF assms(1)])
  moreover have "dropWhile (\<lambda>c. c \<noteq> CHR '' '') (v @ rest) = rest"
    using assms(2,3) by (cases rest) (auto simp: dropWhile_append)
  ultimately show ?thesis by (simp add: redact1_def go_HasSuffix_def go_TrimSuffix_def)
qed

text \<open>
  Redaction hides the value behind the first occurrence of a pattern's prefix: what is
  reported does not depend on it, whatever the patterns after it do. The prefix must not
  occur earlier in the command line.
\<close>

theorem redaction_hides_value:
  assumes "go_Index (pre @ prefix) prefix = Some (length pre)" "rest = [] \<or> hd rest = CHR '' ''"
    and "CHR '' '' \<notin> set v" "CHR '' '' \<notin> set v'"
  shows "redact (pre @ prefix @ v @ rest) ((prefix @ ''*'') # ps) = redact (pre @ prefix @ v' @ rest) ((prefix @ ''*'') # ps) \<and>
    redact (pre @ prefix @ v @ rest) [prefix @ ''*''] = pre @ prefix @ ''***'' @ rest"
  using redact1_value [OF assms(1,3,2)] redact1_value [OF assms(1,4,2)] by (simp add: redact_def)

theorem redaction_hides_value_witness:
  "redact ''db --password=s3cret -v'' [''--password=*''] = ''db --password=*** -v''"
  using redaction_hides_value [of "''db ''" "''--password=''" "'' -v''" "''s3cret''" "''s3cret''" "[]"]
  by (simp add: go_HasPrefix_def)

text \<open>Only the first occurrence is hidden.\<close>

lemma redaction_leaks_repeated:
  "redact ''db --password=a --password=b'' [''--password=*''] = ''db --password=*** --password=b''"
  by (simp add: redact_def redact1_def go_HasSuffix_def go_TrimSuffix_def go_HasPrefix_def)

section \<open>Reports\<close>

lemma matchAny_iff:
  "matchAny name ps \<longleftrightarrow> (\<exists>p \<in> set ps. if go_HasSuffix p ''*'' then go_HasPrefix name (go_TrimSuffix p ''*'') else name = p)"
proof (induction ps)
  case (Cons p ps)
  then show ?case by (cases "go_HasSuffix p ''*''") simp_all
qed simp

lemma collectPackages_matching: "p \<in> set (collectPackages out pats) \<Longrightarrow> matchAny (pk_Name p) pats"
  by (auto simp: collectPackages_def package_of_line_def List.map_filter_def Let_def split: option.splits if_splits)

lemma CollectFull_no_upload:
  "\<not> (vc_ProcessesEnabled cfg \<and> vc_UploadEnabled cfg) \<Longrightarrow> ar_Processes (fst (CollectFull pf cfg h cache)) = []"
  by (auto simp: CollectFull_def split: prod.splits)

lemma reportFull_ids_differ:
  assumes "i1 = ''inv-full-'' @ dec_digits a @ ''-'' @ dec_digits (Suc n)" "i2 = ''inv-full-'' @ dec_digits b @ ''-'' @ dec_digits (Suc m)" "n \<noteq> m"
  shows "i1 \<noteq> i2"
proof
  assume "i1 = i2"
  then have "go_Split (CHR ''-'') (dec_digits a @ CHR ''-'' # dec_digits (Suc n)) = go_Split (CHR ''-'') (dec_digits b @ CHR ''-'' # dec_digits (Suc m))"
    using assms(1,2) by simp
  moreover have "CHR ''-'' \<notin> set (dec_digits k)" for k by (rule dec_digits_not) simp
  ultimately have "dec_digits (Suc n) = dec_digits (Suc m)" by (simp add: go_Split_at go_Split_none)
  then show False using digits_value_dec assms(3) by (metis nat.inject option.inject)
qed

end
