(* ===== verification/Metrics_Bridge.thy ===== *)
theory Metrics_Bridge
  imports Agent_Prelude "HOL-Library.AList"
begin

text \<open>
  \<^verbatim>\<open>internal/connector/sink_kafka.go\<close> and \<^verbatim>\<open>cmd/metricsbridge/main.go\<close>: the fan-out of the
  connector's sinks and the bridge from the metrics topic to the time-series store. The
  Kafka client is not modelled: the records of a poll, the outcome of a delivery, of a commit and of
  the import request are inputs, JSON is a parameter.
\<close>

section \<open>Sinks\<close>

text \<open>A delivery to one sink: whether it succeeded, and the sink afterwards.\<close>

type_synonym ('x, 's) delivery_fn = "'x \<Rightarrow> 's \<Rightarrow> bool \<times> 's"

fun multi_send :: "('x, 's) delivery_fn list \<Rightarrow> 'x \<Rightarrow> 's list \<Rightarrow> bool \<times> 's list" where
  "multi_send (f # fs) x (s # ss) =
     (let (ok, s') = f x s
      in if \<not> ok then (False, s' # ss) else (let (ok', ss') = multi_send fs x ss in (ok', s' # ss')))"
| "multi_send fs x ss = (True, ss)"

datatype kafka_topic = TopicMetrics | TopicReports | TopicEvents

record kafka_record =
  kr_topic :: kafka_topic
  kr_key :: bytes
  kr_value :: bytes

text \<open>\<^verbatim>\<open>produce\<close>: the record reaches the topic if the broker confirms it.\<close>

definition produce :: "bool \<Rightarrow> kafka_topic \<Rightarrow> bytes \<Rightarrow> bytes \<Rightarrow> kafka_record list \<Rightarrow> bool \<times> kafka_record list" where
  "produce ok topic key value log = (if ok then (True, log @ [\<lparr>kr_topic = topic, kr_key = key, kr_value = value\<rparr>]) else (False, log))"

definition kafka_MetricBatch :: "('b \<Rightarrow> bytes option) \<Rightarrow> ('b \<Rightarrow> string) \<Rightarrow> bool \<Rightarrow> ('b, kafka_record list) delivery_fn" where
  "kafka_MetricBatch json asset ok b log =
     (case json b of None \<Rightarrow> (False, log) | Some v \<Rightarrow> produce ok TopicMetrics (bytes_of (asset b)) v log)"

definition kafka_Report ::
  "(string \<times> string \<times> int \<times> bytes \<Rightarrow> bytes option) \<Rightarrow> int \<Rightarrow> bool \<Rightarrow> (string \<times> string \<times> bytes, kafka_record list) delivery_fn" where
  "kafka_Report json now ok x log =
     (let (kind, itemID, payload) = x
      in case json (kind, itemID, now, payload) of
           None \<Rightarrow> (False, log)
         | Some v \<Rightarrow> produce ok TopicReports (bytes_of itemID) v log)"

definition kafka_Event :: "(string \<times> smap \<times> int \<Rightarrow> bytes option) \<Rightarrow> int \<Rightarrow> bool \<Rightarrow> (string \<times> smap, kafka_record list) delivery_fn" where
  "kafka_Event json now ok x log =
     (case json (fst x, snd x, now) of None \<Rightarrow> (False, log) | Some v \<Rightarrow> produce ok TopicEvents (bytes_of (fst x)) v log)"

text \<open>The fan-out succeeds exactly when every sink does, and a failure stops it at the failing sink.\<close>

lemma multi_send_iff:
  assumes "length fs = length ss"
  shows "fst (multi_send fs x ss) \<longleftrightarrow> (\<forall>i < length fs. fst ((fs ! i) x (ss ! i)))"
  using assms
proof (induction fs x ss rule: multi_send.induct)
  case (1 f fs x s ss)
  then show ?case by (auto simp: Let_def All_less_Suc2 split: prod.splits)
qed simp_all

lemma multi_send_states:
  assumes "length fs = length ss" "fst (multi_send fs x ss)" "i < length fs"
  shows "snd (multi_send fs x ss) ! i = snd ((fs ! i) x (ss ! i))"
  using assms
proof (induction fs x ss arbitrary: i rule: multi_send.induct)
  case (1 f fs x s ss)
  then show ?case by (cases i) (auto simp: Let_def split: prod.splits if_splits)
qed simp_all

section \<open>The contract of a sink\<close>

text \<open>The deliveries of a stream, one after the other, with the outcome of each.\<close>

fun send_all :: "('x, 's) delivery_fn \<Rightarrow> 'x list \<Rightarrow> 's \<Rightarrow> bool list \<times> 's" where
  "send_all send [] s = ([], s)"
| "send_all send (x # xs) s =
     (let (ok, s') = send x s; (oks, t) = send_all send xs s' in (ok # oks, t))"

text \<open>A delivery that succeeds is in the sink, and stays there.\<close>

locale delivery_sink =
  fixes send :: "('x, 's) delivery_fn"
    and has :: "'x \<Rightarrow> 's \<Rightarrow> bool"
  assumes sent_has: "send x s = (True, s') \<Longrightarrow> has x s'"
    and keeps: "has y s \<Longrightarrow> has y (snd (send x s))"
begin

lemma send_all_keeps: "has y s \<Longrightarrow> has y (snd (send_all send xs s))"
proof (induction xs arbitrary: s)
  case (Cons x xs)
  then show ?case using keeps [of y s x] Cons.IH [of "snd (send x s)"] by (simp add: Let_def case_prod_unfold)
qed simp

lemma send_all_has: "send_all send xs s = (oks, t) \<Longrightarrow> length oks = length xs \<and> (\<forall>i < length xs. oks ! i \<longrightarrow> has (xs ! i) t)"
proof (induction xs arbitrary: s oks)
  case (Cons x xs)
  obtain ok s' where f: "send x s = (ok, s')" by (cases "send x s")
  obtain oks' where r: "send_all send xs s' = (oks', t)" "oks = ok # oks'" using Cons.prems f by (auto simp: Let_def split: prod.splits)
  have "ok \<Longrightarrow> has x t" using send_all_keeps [of x s' xs] sent_has [of x s s'] f r(1) by simp
  with Cons.IH [OF r(1)] show ?case by (auto simp: r(2) nth_Cons split: nat.splits)
qed simp

end

text \<open>The fan-out to two sinks of their own kind, as \<^verbatim>\<open>MultiSink\<close> does it.\<close>

definition fanout :: "('x, 's) delivery_fn \<Rightarrow> ('x, 't) delivery_fn \<Rightarrow> ('x, 's \<times> 't) delivery_fn" where
  "fanout f g x p =
     (let (ok, s) = f x (fst p)
      in if \<not> ok then (False, (s, snd p)) else (let (ok', t) = g x (snd p) in (ok', (s, t))))"

lemma multi_send_fanout: "multi_send [f, g] x [s, t] = (let (ok, (s', t')) = fanout f g x (s, t) in (ok, [s', t']))"
  by (auto simp: fanout_def Let_def split: prod.splits)

locale two_sinks = first: delivery_sink send1 has1 + second: delivery_sink send2 has2
  for send1 :: "('x, 's) delivery_fn" and has1 and send2 :: "('x, 't) delivery_fn" and has2

sublocale two_sinks \<subseteq> both: delivery_sink "fanout send1 send2" "\<lambda>x p. has1 x (fst p) \<and> has2 x (snd p)"
proof unfold_locales
  fix x y p q
  show "has1 x (fst q) \<and> has2 x (snd q)" if "fanout send1 send2 x p = (True, q)"
    using that first.sent_has second.sent_has by (auto simp: fanout_def Let_def split: prod.splits if_splits)
  show "has1 y (fst (snd (fanout send1 send2 x p))) \<and> has2 y (snd (snd (fanout send1 send2 x p)))" if "has1 y (fst p) \<and> has2 y (snd p)"
    using that first.keeps [of y "fst p" x] second.keeps [of y "snd p" x] by (auto simp: fanout_def Let_def split: prod.splits)
qed

section \<open>Import lines\<close>

record 'v metric_sample =
  sm_Metric :: string
  sm_Timestamp :: int
  sm_Value :: 'v
  sm_Labels :: smap

record 'v metric_batch =
  bt_AssetId :: string
  bt_Samples :: "'v metric_sample list"

definition import_metric :: "string \<Rightarrow> 'v metric_sample \<Rightarrow> smap" where
  "import_metric asset s =
     foldl (\<lambda>m (k, v). AList.update k v m)
       [(''__name__'', go_ReplaceAll (sm_Metric s) ''.'' ''_''), (''asset_id'', asset)] (sm_Labels s)"

text \<open>\<open>json metric value timestamp\<close> is a line, \<open>None\<close> for a value JSON cannot express.\<close>

fun writeImportLines :: "(smap \<Rightarrow> 'v \<Rightarrow> int \<Rightarrow> bytes option) \<Rightarrow> string \<Rightarrow> 'v metric_sample list \<Rightarrow> bytes list" where
  "writeImportLines json asset [] = []"
| "writeImportLines json asset (s # ss) =
     (case json (import_metric asset s) (sm_Value s) (sm_Timestamp s) of
        None \<Rightarrow> writeImportLines json asset ss
      | Some line \<Rightarrow> (line @ [0x0A]) # writeImportLines json asset ss)"

lemma map_of_foldl_update:
  "wf_map ls \<Longrightarrow> map_of (foldl (\<lambda>m (k, v). AList.update k v m) m ls) k = (case map_of ls k of None \<Rightarrow> map_of m k | Some v \<Rightarrow> Some v)"
proof (induction ls arbitrary: m)
  case (Cons p ls)
  obtain a b where p: "p = (a, b)" by fastforce
  have "map_of ls a = None" using Cons.prems p by (auto simp: wf_map_def map_of_eq_None_iff)
  with Cons p show ?case by (auto simp: wf_map_def update_conv split: option.splits)
qed simp

text \<open>Name and asset are as intended unless a label has the same key, which then wins.\<close>

lemma import_metric_keys:
  assumes "wf_map (sm_Labels s)"
  shows "map_of (import_metric asset s) k = (case map_of (sm_Labels s) k of
      Some v \<Rightarrow> Some v
    | None \<Rightarrow> if k = ''__name__'' then Some (go_ReplaceAll (sm_Metric s) ''.'' ''_'') else if k = ''asset_id'' then Some asset else None)"
  using assms by (auto simp: import_metric_def map_of_foldl_update split: option.splits)

section \<open>The bridge\<close>

text \<open>
  One turn: the records polled, the status of the import request, if there was an answer, and whether the
  commit succeeded. The result: the lines imported, if a request succeeded, and the records committed.
\<close>

record 'r bridge_turn =
  bg_records :: "'r list"
  bg_response :: "nat option"
  bg_commit :: bool

definition bridge_post :: "nat option \<Rightarrow> bool" where
  "bridge_post response = (case response of None \<Rightarrow> False | Some status \<Rightarrow> status div 100 = 2)"

definition bridge_lines :: "('r \<Rightarrow> 'v metric_batch option) \<Rightarrow> (smap \<Rightarrow> 'v \<Rightarrow> int \<Rightarrow> bytes option) \<Rightarrow> 'r \<Rightarrow> bytes list" where
  "bridge_lines decode json r = (case decode r of None \<Rightarrow> [] | Some b \<Rightarrow> writeImportLines json (bt_AssetId b) (bt_Samples b))"

definition bridge_loop :: "('r \<Rightarrow> 'v metric_batch option) \<Rightarrow> (smap \<Rightarrow> 'v \<Rightarrow> int \<Rightarrow> bytes option) \<Rightarrow> 'r bridge_turn \<Rightarrow> bytes list \<times> 'r list" where
  "bridge_loop decode json t =
     (let records = bg_records t; body = concat (map (bridge_lines decode json) records)
      in if records = [] then ([], [])
         else if body \<noteq> [] \<and> \<not> bridge_post (bg_response t) then ([], [])
         else (body, if bg_commit t then records else []))"

definition bridge_run ::
  "('r \<Rightarrow> 'v metric_batch option) \<Rightarrow> (smap \<Rightarrow> 'v \<Rightarrow> int \<Rightarrow> bytes option) \<Rightarrow> 'r bridge_turn list \<Rightarrow> bytes list \<times> 'r list" where
  "bridge_run decode json ts =
     (concat (map (fst \<circ> bridge_loop decode json) ts), concat (map (snd \<circ> bridge_loop decode json) ts))"

text \<open>
  The bridge commits a record only after every line of it was part of a successful import:
  in any run, the lines of all committed records are among the imported ones, in order.
\<close>

theorem committed_records_imported:
  "set (concat (map (bridge_lines decode json) (snd (bridge_run decode json ts)))) \<subseteq> set (fst (bridge_run decode json ts)) \<and>
   set (snd (bridge_run decode json ts)) \<subseteq> (\<Union>t \<in> set ts. set (bg_records t))"
proof (induction ts)
  case (Cons t ts)
  then show ?case by (auto simp: bridge_run_def bridge_loop_def Let_def)
qed (simp add: bridge_run_def)

text \<open>
  A failed import is not retried within the process: the next poll continues behind the
  records polled before (that is how the client's position works), so a later turn commits
  an offset beyond records that were never imported.
\<close>

lemma failed_import_is_skipped:
  fixes offset :: "'r \<Rightarrow> nat"
  assumes "bridge_lines decode json r1 \<noteq> []" "offset r1 < offset r2"
    and "set (bridge_lines decode json r1) \<inter> set (bridge_lines decode json r2) = {}"
  shows "let out = bridge_run decode json [\<lparr>bg_records = [r1], bg_response = Some 503, bg_commit = True\<rparr>,
           \<lparr>bg_records = [r2], bg_response = Some 204, bg_commit = True\<rparr>]
    in snd out = [r2] \<and> offset r1 < offset r2 \<and> set (bridge_lines decode json r1) \<inter> set (fst out) = {}"
  using assms by (simp add: bridge_run_def bridge_loop_def bridge_post_def Let_def)

end
