(* ===== verification/Agent_Main.thy ===== *)
theory Agent_Main
  imports Collectors Inventory Uplink Agent_Register Plugin Cgroup
begin

text \<open>
  How the agent is put together: the configuration with its defaults (\<^verbatim>\<open>internal/config\<close>), the
  module life cycle (\<^verbatim>\<open>internal/core\<close>), the start and the direct sinks of the reporter, and
  \<^verbatim>\<open>cmd/agent/main.go\<close>. The YAML decoder, key files, certificates, the file system and the remote
  side are parameters or inputs.
\<close>

section \<open>Configuration\<close>

record AgentConf =
  ac_DataDir :: string
  ac_LogLevel :: string
  ac_AssetID :: string

record FullUplinkConf = UplinkConf +
  uc_Mode :: string
  uc_HTTPAddr :: string

record WALConf =
  wl_Enabled :: bool
  wl_MaxMB :: int
  wl_MetricsFallback :: bool

record ReporterConf =
  rq_BufferSize :: int
  rq_BatchSize :: int
  rq_BatchInterval :: int
  rq_WAL :: WALConf

record RegisterConf =
  rg_BootstrapToken :: string
  rg_BootstrapAddr :: string
  rg_BootstrapCAFile :: string
  rg_RotateBeforeDays :: int

record FullExecutorConf = ExecutorConf +
  x_Enabled :: bool
  x_AllowTestActions :: bool
  x_CommandPubkeyFile :: string
  x_Cgroup :: cgroupConf
  x_PluginDir :: string

record Config =
  cf_Agent :: AgentConf
  cf_Uplink :: FullUplinkConf
  cf_Collectors :: "string \<rightharpoonup> CollectorConf"
  cf_Reporter :: ReporterConf
  cf_Watchdog :: WatchdogConf
  cf_Register :: RegisterConf
  cf_Inventory :: InventoryConf
  cf_Executor :: FullExecutorConf

definition seconds :: "int \<Rightarrow> int" where
  "seconds n = n * 1000000000"

definition default_config :: Config where
  "default_config =
     \<lparr>cf_Agent = \<lparr>ac_DataDir = ''/var/lib/tom_ai_agent'', ac_LogLevel = ''info'', ac_AssetID = []\<rparr>,
      cf_Uplink = \<lparr>uc_Addr = [], uc_Insecure = False, uc_CAFile = [], uc_CertFile = [], uc_KeyFile = [], uc_ServerName = [],
        uc_Mode = ''stdout'', uc_HTTPAddr = []\<rparr>,
      cf_Collectors = [''cpu'' \<mapsto> \<lparr>cc_Enabled = True, cc_Interval = seconds 10\<rparr>,
        ''memory'' \<mapsto> \<lparr>cc_Enabled = True, cc_Interval = seconds 10\<rparr>, ''diskcap'' \<mapsto> \<lparr>cc_Enabled = True, cc_Interval = seconds 60\<rparr>,
        ''net'' \<mapsto> \<lparr>cc_Enabled = True, cc_Interval = seconds 10\<rparr>, ''load'' \<mapsto> \<lparr>cc_Enabled = True, cc_Interval = seconds 10\<rparr>],
      cf_Reporter = \<lparr>rq_BufferSize = 10000, rq_BatchSize = 500, rq_BatchInterval = seconds 1,
        rq_WAL = \<lparr>wl_Enabled = True, wl_MaxMB = 100, wl_MetricsFallback = True\<rparr>\<rparr>,
      cf_Watchdog = \<lparr>wc_RSSSoftMB = 150, wc_RSSHardMB = 190, wc_FDLimit = 1024, wc_DegradedMode = True\<rparr>,
      cf_Register = \<lparr>rg_BootstrapToken = [], rg_BootstrapAddr = [], rg_BootstrapCAFile = [], rg_RotateBeforeDays = 0\<rparr>,
      cf_Inventory = \<lparr>vc_Enabled = True, vc_FullInterval = seconds (24 * 3600), vc_PackagesEnabled = True,
        vc_Patterns = [''kylin-*'', ''bes*'', ''goldendb*'', ''gaussdb*'', ''polardb*''], vc_ProcessesEnabled = True, vc_UploadEnabled = True,
        vc_RedactPatterns = [''--password=*'', ''--token=*'', ''--secret=*'']\<rparr>,
      cf_Executor = \<lparr>x_Workers = 4, x_QueueSize = 64, x_MaxTimeout = seconds 300, x_KillGrace = seconds 3, x_OutputLimitKB = 1024,
        x_Enabled = True, x_AllowTestActions = False, x_CommandPubkeyFile = [],
        x_Cgroup = \<lparr>cg_Enabled = True, cg_MemoryMaxMB = 256, cg_CPUQuotaPct = 100\<rparr>,
        x_PluginDir = ''/usr/libexec/tom_ai_agent/plugins''\<rparr>\<rparr>"

datatype file_read = FileMissing | FileFailed | FileData bytes

datatype config_error = ConfigUnreadable | ConfigMalformed

text \<open>\<open>yaml data cfg\<close> decodes over a configuration: fields the document does not name keep their value.\<close>

definition Load :: "(bytes \<Rightarrow> Config \<Rightarrow> Config option) \<Rightarrow> file_read \<Rightarrow> config_error + Config" where
  "Load yaml f =
     (case f of
        FileMissing \<Rightarrow> Inr default_config
      | FileFailed \<Rightarrow> Inl ConfigUnreadable
      | FileData data \<Rightarrow> (case yaml data default_config of None \<Rightarrow> Inl ConfigMalformed | Some cfg \<Rightarrow> Inr cfg))"

definition rep_conf :: "Config \<Rightarrow> RepConf" where
  "rep_conf cfg = \<lparr>rc_Mode = uc_Mode (cf_Uplink cfg), rc_Addr = uc_Addr (cf_Uplink cfg), rc_AssetID = ac_AssetID (cf_Agent cfg),
     rc_BufferSize = rq_BufferSize (cf_Reporter cfg), rc_BatchSize = rq_BatchSize (cf_Reporter cfg),
     rc_WalEnabled = wl_Enabled (rq_WAL (cf_Reporter cfg)), rc_WalMaxMB = wl_MaxMB (rq_WAL (cf_Reporter cfg)),
     rc_MetricsFallback = wl_MetricsFallback (rq_WAL (cf_Reporter cfg))\<rparr>"

definition reg_conf :: "Config \<Rightarrow> RegConf" where
  "reg_conf cfg = \<lparr>gc_AssetID = ac_AssetID (cf_Agent cfg), gc_BootstrapToken = rg_BootstrapToken (cf_Register cfg),
     gc_BootstrapAddr = rg_BootstrapAddr (cf_Register cfg), gc_BootstrapCAFile = rg_BootstrapCAFile (cf_Register cfg),
     gc_RotateBeforeDays = rg_RotateBeforeDays (cf_Register cfg), gc_UplinkMode = uc_Mode (cf_Uplink cfg), gc_UplinkAddr = uc_Addr (cf_Uplink cfg),
     gc_UplinkHTTPAddr = uc_HTTPAddr (cf_Uplink cfg), gc_UplinkServerName = uc_ServerName (cf_Uplink cfg)\<rparr>"

section \<open>Module life cycle\<close>

text \<open>\<open>ap_ctx\<close>: \<open>None\<close> before \<^verbatim>\<open>Start\<close>, then whether the context is cancelled; \<open>ap_wg\<close> counts registered goroutines.\<close>

record App =
  ap_modules :: "string list"
  ap_ctx :: "bool option"
  ap_wg :: nat

definition app_New :: App where
  "app_New = \<lparr>ap_modules = [], ap_ctx = None, ap_wg = 0\<rparr>"

definition app_Add :: "string list \<Rightarrow> App \<Rightarrow> App" where
  "app_Add ms a = a\<lparr>ap_modules := ap_modules a @ ms\<rparr>"

definition app_Names :: "App \<Rightarrow> string list" where
  "app_Names a = ap_modules a"

text \<open>The modules started, and the one that failed.\<close>

fun start_modules :: "(string \<Rightarrow> bool) \<Rightarrow> string list \<Rightarrow> string list \<times> string option" where
  "start_modules ok [] = ([], None)"
| "start_modules ok (m # ms) =
     (if \<not> ok m then ([], Some m) else let (st, e) = start_modules ok ms in (m # st, e))"

text \<open>After a failure the context is cancelled; waiting for the group returns at once when nothing is registered.\<close>

definition app_Start :: "(string \<Rightarrow> bool) \<Rightarrow> App \<Rightarrow> string option \<times> string list \<times> App" where
  "app_Start ok a = (let (st, e) = start_modules ok (ap_modules a) in (e, st, a\<lparr>ap_ctx := Some (e \<noteq> None)\<rparr>))"

definition app_Wait :: "App \<Rightarrow> App" where
  "app_Wait a = a\<lparr>ap_wg := ap_wg a + 1\<rparr>"

datatype stopped = StoppedAll | StopTimeout

text \<open>\<open>ended\<close> registered goroutines end before the deadline.\<close>

definition app_Stop :: "nat \<Rightarrow> App \<Rightarrow> stopped \<times> App" where
  "app_Stop ended a =
     (let a = (case ap_ctx a of None \<Rightarrow> a | Some _ \<Rightarrow> a\<lparr>ap_ctx := Some True\<rparr>)
      in (if ap_wg a \<le> ended then StoppedAll else StopTimeout, a))"

section \<open>Start and sinks of the reporter\<close>

datatype rep_routine = FlushRoutine | ReplayRoutine QueueKind | MetricsReplayRoutine

text \<open>The goroutines \<^verbatim>\<open>Start\<close> launches; \<open>None\<close> is the panic of a ticker without a positive interval.\<close>

definition rep_Start :: "int \<Rightarrow> 'm Reporter \<Rightarrow> rep_routine list option" where
  "rep_Start batchInterval r =
     (if batchInterval \<le> 0 then None
      else Some ([FlushRoutine] @ map ReplayRoutine (filter (\<lambda>k. rp_wals r k \<noteq> None) [QueueResults, QueueAudit, QueueInventory]) @
                 (if rp_metricsWAL r \<noteq> None then [MetricsReplayRoutine] else [])))"

text \<open>
  One delivery through a sink: \<open>marshal\<close> encodes the batch, \<open>gzip\<close> compresses it, \<open>http\<close> is the
  status of a POST, if an answer came; \<open>None\<close> for the sink is a call on a nil interface.
\<close>

datatype send_result = Sent | SendFailed | SendPanic

definition http_post :: "(bytes \<Rightarrow> bytes) \<Rightarrow> (string \<Rightarrow> bytes \<Rightarrow> nat option) \<Rightarrow> string \<Rightarrow> string \<Rightarrow> bytes \<Rightarrow> send_result" where
  "http_post gzip http base path payload =
     (case http (base @ path) (gzip payload) of
        None \<Rightarrow> SendFailed
      | Some status \<Rightarrow> if status div 100 \<noteq> 2 then SendFailed else Sent)"

definition http_SendMetrics :: "('m Batch \<Rightarrow> bytes option) \<Rightarrow> (bytes \<Rightarrow> bytes) \<Rightarrow> (string \<Rightarrow> bytes \<Rightarrow> nat option) \<Rightarrow> string \<Rightarrow> 'm Batch \<Rightarrow> send_result" where
  "http_SendMetrics marshal gzip http base b =
     (case marshal b of None \<Rightarrow> SendFailed | Some data \<Rightarrow> http_post gzip http base ''/v1/metrics'' data)"

definition http_SendReliable :: "(ReliableBatch \<Rightarrow> bytes option) \<Rightarrow> (bytes \<Rightarrow> bytes) \<Rightarrow> (string \<Rightarrow> bytes \<Rightarrow> nat option) \<Rightarrow> string \<Rightarrow> ReliableBatch \<Rightarrow> send_result" where
  "http_SendReliable marshal gzip http base b =
     (case marshal b of None \<Rightarrow> SendFailed | Some data \<Rightarrow> http_post gzip http base (''/v1/'' @ kind_name (rb_Kind b)) data)"

definition stdout_Send :: "('b \<Rightarrow> bytes option) \<Rightarrow> 'b \<Rightarrow> bytes list \<Rightarrow> send_result \<times> bytes list" where
  "stdout_Send marshal b out = (case marshal b of None \<Rightarrow> (SendFailed, out) | Some data \<Rightarrow> (Sent, out @ [data]))"

section \<open>The main program\<close>

datatype log_level = LevelDebug | LevelInfo | LevelWarn | LevelError

definition log_level_of :: "string \<Rightarrow> log_level" where
  "log_level_of l = (if l = ''debug'' then LevelDebug else if l = ''warn'' then LevelWarn else if l = ''error'' then LevelError else LevelInfo)"

definition agent_version :: string where
  "agent_version = ''0.1.0-dev''"

text \<open>The text of the status action; \<open>uptime\<close> in whole seconds.\<close>

definition agent_status :: "nat \<Rightarrow> bool \<Rightarrow> 'm Reporter \<Rightarrow> string" where
  "agent_status uptime degraded rep =
     (let (depth, dropped) = rep_Stats rep
      in ''version='' @ agent_version @ '' uptime='' @ dec_digits uptime @ ''s degraded='' @ (if degraded then ''true'' else ''false'') @
         '' buffer_depth='' @ dec_digits (unat depth) @ '' buffer_dropped='' @ dec_digits (unat dropped) @ '' asset_id='' @ rp_assetID rep)"

record ('pub, 'k, 's, 'ca, 'cert) agent_world =
  aw_disk :: "QueueKind \<Rightarrow> (nat \<times> bytes) list \<times> walCursor option"
  aw_order :: "string list"
  aw_status :: "smap \<Rightarrow> string \<times> exec_error option"
  aw_pem :: "bytes \<Rightarrow> bytes option"
  aw_pkix :: "bytes \<Rightarrow> 'pub parsed_key option"
  aw_plugins :: Plugin.host
  aw_csr :: "'k \<Rightarrow> string \<Rightarrow> bytes"
  aw_pair :: "'k \<Rightarrow> bytes \<Rightarrow> bool"
  aw_now :: int
  aw_rotation :: "('k, 's) rot_world"
  aw_enrollID :: string
  aw_attempts :: "('k, 's) attempt list"
  aw_data :: "'k datadir"
  aw_remote :: 's
  aw_read :: "string \<Rightarrow> bytes option"
  aw_pool :: "bytes \<Rightarrow> 'ca option"
  aw_keypair :: "string \<Rightarrow> string \<Rightarrow> 'cert option"
  aw_split :: "string \<Rightarrow> string option"

record ('pub, 'k, 's, 'ca, 'cert) agent =
  ag_rep :: "Metric Reporter"
  ag_sched :: "Metric Scheduler"
  ag_engine :: "'pub Engine"
  ag_app :: App
  ag_uplink :: "('ca, 'cert) credentials option"
  ag_handler :: bool
  ag_data :: "'k datadir"
  ag_remote :: 's

datatype agent_failure = InitReporter rep_error | InitExecutor key_error | BootstrapFailed | InitUplink dial_error

definition agent_hooks :: "(smap \<Rightarrow> string \<times> exec_error option) \<Rightarrow> Config \<Rightarrow> Hooks" where
  "agent_hooks status cfg =
     \<lparr>AgentStatus = status, InventoryRefresh = (\<lambda>_. (''inventory full report triggered'', None)),
      AllowTestActions = x_AllowTestActions (cf_Executor cfg)\<rparr>"

text \<open>\<^verbatim>\<open>NewEngine\<close> with the key file of the configuration.\<close>

definition load_engine ::
  "(string \<Rightarrow> key_error + 'pub) \<Rightarrow> (smap \<Rightarrow> string \<times> exec_error option) \<Rightarrow> Config \<Rightarrow> key_error + 'pub Engine" where
  "load_engine loadKey status cfg =
     (let x = cf_Executor cfg; h = agent_hooks status cfg; e = NewEngine (ExecutorConf.truncate x) None h
      in if x_CommandPubkeyFile x = [] then Inr e
         else case loadKey (x_CommandPubkeyFile x) of Inl err \<Rightarrow> Inl err | Inr k \<Rightarrow> Inr (e\<lparr>e_verifyKey := Some k\<rparr>))"

definition with_plugins :: "Plugin.host \<Rightarrow> Config \<Rightarrow> 'pub Engine \<Rightarrow> 'pub Engine" where
  "with_plugins h cfg e =
     (let dir = x_PluginDir (cf_Executor cfg) in if dir \<noteq> [] then AddActions e (LoadDir h dir) else e)"

text \<open>The synchronous registration before the uplink is built: the reporter, the uplink files, the data directory.\<close>

definition needs_bootstrap :: "Config \<Rightarrow> bool" where
  "needs_bootstrap cfg \<longleftrightarrow> uc_Mode (cf_Uplink cfg) = ''grpc'' \<and> uc_CertFile (cf_Uplink cfg) = [] \<and> ac_AssetID (cf_Agent cfg) = []"

definition bootstrap_identity ::
  "('pub, 'k, 's, 'ca, 'cert) agent_world \<Rightarrow> Config \<Rightarrow> 'm Reporter \<Rightarrow> ('m Reporter \<times> UplinkConf \<times> 'k datadir \<times> 's) option" where
  "bootstrap_identity w cfg rep =
     (let up = UplinkConf.truncate (cf_Uplink cfg)
      in if \<not> needs_bootstrap cfg then Some (rep, up, aw_data w, aw_remote w)
         else (let (r, d, srv) = EnsureIdentity (aw_csr w) (aw_pair w) (reg_conf cfg) (aw_now w) (aw_rotation w) (aw_enrollID w) (aw_attempts w)
                                   (aw_data w) (aw_remote w);
                   pki = go_Join (ac_DataDir (cf_Agent cfg)) ''pki'';
                   up' = (if PKIPaths d then up\<lparr>uc_CAFile := go_Join pki ''ca.crt'', uc_CertFile := go_Join pki ''agent.crt'',
                                                uc_KeyFile := go_Join pki ''agent.key''\<rparr> else up)
               in case r of
                    EnsureReady i \<Rightarrow> Some (SetAssetID rep i, up', d, srv)
                  | EnsureSkipped \<Rightarrow> Some (rep, up', d, srv)
                  | _ \<Rightarrow> None))"

definition base_modules :: "string list" where
  "base_modules = [''register'', ''reporter'', ''collector-scheduler'', ''self-monitor'', ''resource-sentinel'', ''inventory'']"

text \<open>Everything up to \<^verbatim>\<open>app.Start\<close>.\<close>

definition agent_main ::
  "('pub, 'k, 's, 'ca, 'cert) agent_world \<Rightarrow> Config \<Rightarrow> agent_failure + ('pub, 'k, 's, 'ca, 'cert) agent" where
  "agent_main w cfg =
     (case rep_New (aw_disk w) (rep_conf cfg) of
        Inl err \<Rightarrow> Inl (InitReporter err)
      | Inr rep \<Rightarrow>
     (case load_engine (LoadPublicKeyPEM (aw_read w) (aw_pem w) (aw_pkix w)) (aw_status w) cfg of
        Inl err \<Rightarrow> Inl (InitExecutor err)
      | Inr e \<Rightarrow>
     (case bootstrap_identity w cfg rep of
        None \<Rightarrow> Inl BootstrapFailed
      | Some (rep, up, d, srv) \<Rightarrow>
          (let e = with_plugins (aw_plugins w) cfg e;
               app = app_Add base_modules app_New;
               app = (if x_Enabled (cf_Executor cfg) then app_Add [''executor''] app else app);
               a = \<lparr>ag_rep = rep, ag_sched = NewScheduler (aw_order w) (cf_Collectors cfg), ag_engine = e, ag_app = app,
                    ag_uplink = None, ag_handler = False, ag_data = d, ag_remote = srv\<rparr>
           in if uc_Mode (cf_Uplink cfg) = ''grpc'' then
                (case dialOption (aw_read w) (aw_pool w) (aw_keypair w) (aw_split w) up of
                   Inl err \<Rightarrow> Inl (InitUplink err)
                 | Inr creds \<Rightarrow>
                     Inr (a\<lparr>ag_rep := SetSink rep UplinkSink, ag_app := app_Add [''grpc-uplink''] app, ag_uplink := Some creds,
                            ag_handler := x_Enabled (cf_Executor cfg)\<rparr>))
              else if uc_Mode (cf_Uplink cfg) = ''http'' \<and> x_Enabled (cf_Executor cfg)
              then Inr (a\<lparr>ag_app := app_Add [''command-poller''] app\<rparr>)
              else Inr a))))"

text \<open>The materials sent along with an enrolment; \<open>arch\<close> is the architecture of the build.\<close>

definition collectMaterials :: "string \<Rightarrow> host_state \<Rightarrow> smap" where
  "collectMaterials arch h =
     (case hs_file h ''/etc/machine-id'' of None \<Rightarrow> [] | Some d \<Rightarrow> [(''machine_id'', go_TrimSpace d)]) @
     (case hs_hostname h of None \<Rightarrow> [] | Some n \<Rightarrow> [(''hostname'', n)]) @
     (case hs_file h ''/proc/sys/kernel/osrelease'' of None \<Rightarrow> [] | Some d \<Rightarrow> [(''kernel'', go_TrimSpace d)]) @
     [(''arch'', arch)] @
     (case hs_file h ''/etc/os-release'' of
        None \<Rightarrow> []
      | Some d \<Rightarrow> if list_ex (\<lambda>l. go_HasPrefix l ''PRETTY_NAME='') (go_Split (CHR 0x0A) d) then [(''os'', os_name d)] else [])"

section \<open>What the wiring guarantees\<close>

lemma start_modules_prefix:
  "start_modules ok ms = (st, e) \<Longrightarrow> (case e of None \<Rightarrow> st = ms | Some m \<Rightarrow> \<exists>rest. ms = st @ m # rest \<and> \<not> ok m) \<and> (\<forall>m \<in> set st. ok m)"
  by (induction ok ms arbitrary: st e rule: start_modules.induct) (auto split: if_splits prod.splits option.splits)

text \<open>No code calls \<^verbatim>\<open>Wait\<close>, so the group is empty and stopping never waits.\<close>

lemma app_Stop_unregistered: "ap_wg a = 0 \<Longrightarrow> fst (app_Stop n a) = StoppedAll"
  by (simp add: app_Stop_def Let_def split: option.splits)

lemma rep_New_sink: "rep_New disk c = Inr r \<Longrightarrow> rp_sink r = NilSink \<longleftrightarrow> rc_Mode c = ''grpc''"
  by (auto simp: rep_New_def rep_sink_def Let_def split: sum.splits if_splits)

lemma rep_New_modes: "rep_New disk c = Inr r \<Longrightarrow> rc_Mode c \<in> {[], ''stdout'', ''http'', ''grpc''}"
  by (auto simp: rep_New_def rep_sink_def Let_def split: sum.splits if_splits)

lemma bootstrap_identity_sink: "bootstrap_identity w cfg rep = Some (rep', up, d, srv) \<Longrightarrow> rp_sink rep' = rp_sink rep"
  by (auto simp: bootstrap_identity_def SetAssetID_def Let_def split: if_splits prod.splits ensured.splits)

lemma load_engine_spec:
  "load_engine loadKey st cfg = Inr e \<Longrightarrow> e_catalog e = catalog (agent_hooks st cfg) \<and>
     (x_CommandPubkeyFile (cf_Executor cfg) \<noteq> [] \<longrightarrow> (\<exists>k. loadKey (x_CommandPubkeyFile (cf_Executor cfg)) = Inr k \<and> e_verifyKey e = Some k))"
  by (auto simp: load_engine_def NewEngine_def Let_def split: if_splits sum.splits)

lemma AddActions_verifyKey: "e_verifyKey (AddActions e acts) = e_verifyKey e"
  by (induction e acts rule: AddActions.induct) auto

lemma with_plugins_spec:
  "e_verifyKey (with_plugins h cfg e) = e_verifyKey e"
  "e_catalog e i = Some a \<Longrightarrow> e_catalog (with_plugins h cfg e) i = Some a"
  by (auto simp: with_plugins_def Let_def AddActions_verifyKey intro: AddActions_keeps)

lemma dialOption_plaintext: "dialOption rd pool pair split cfg = Inr InsecureCredentials \<Longrightarrow> uc_Insecure cfg"
  by (auto simp: dialOption_def split: if_splits option.splits)

lemma bootstrap_identity_insecure:
  "bootstrap_identity w cfg rep = Some (rep', up, d, srv) \<Longrightarrow> uc_Insecure up = uc_Insecure (cf_Uplink cfg)"
  by (auto simp: bootstrap_identity_def UplinkConf.truncate_def Let_def split: if_splits prod.splits ensured.splits)


definition sample_aworld :: "(unit, unit, unit, unit, unit) agent_world" where
  "sample_aworld =
     \<lparr>aw_disk = (\<lambda>_. ([], None)), aw_order = known_collectors, aw_status = (\<lambda>_. ([], None)), aw_pem = Some, aw_pkix = (\<lambda>_. Some (Ed25519Key ())),
      aw_plugins = \<lparr>ho_entries = (\<lambda>_. None), ho_stat = (\<lambda>_. None), ho_read = (\<lambda>_. None), ho_links = (\<lambda>_. None), ho_yaml = (\<lambda>_. None), ho_duration = (\<lambda>_. None)\<rparr>,
      aw_csr = (\<lambda>_ _. []), aw_pair = (\<lambda>_ _. True), aw_now = 0,
      aw_rotation = \<lparr>ro_key = None, ro_caOK = False, ro_host = None, ro_dial = False, ro_rpc = (\<lambda>_ s. (None, s)), ro_persist = 0, ro_save = False\<rparr>,
      aw_enrollID = [], aw_attempts = [], aw_data = \<lparr>dd_identity = None, dd_key = None, dd_cert = None, dd_ca = None\<rparr>, aw_remote = (),
      aw_read = (\<lambda>_. Some []), aw_pool = (\<lambda>_. None), aw_keypair = (\<lambda>_ _. None), aw_split = (\<lambda>_. None)\<rparr>"

definition sample_config :: Config where
  "sample_config = default_config\<lparr>cf_Uplink := (cf_Uplink default_config)\<lparr>uc_Mode := ''grpc'', uc_Insecure := True\<rparr>,
     cf_Executor := (cf_Executor default_config)\<lparr>x_CommandPubkeyFile := ''/etc/cmd.pub''\<rparr>\<rparr>"


lemma rep_Submit_total: "0 < rp_bufferSize r \<Longrightarrow> \<exists>r'. rep_Submit ms r = Some r'"
  by (induction ms r rule: rep_Submit.induct) (auto split: if_splits)

lemma rep_New_stdout:
  assumes "rc_Mode c = ''stdout''" "rc_WalEnabled c" "rc_MetricsFallback c"
  shows "\<exists>rep. rep_New disk c = Inr rep \<and> rp_sink rep = StdoutSink \<and> rp_bufferSize rep = rc_BufferSize c \<and>
    dom (rp_wals rep) = {QueueResults, QueueAudit, QueueInventory} \<and> rp_metricsWAL rep \<noteq> None"
  using assms by (auto simp: rep_New_def rep_sink_def Let_def)

lemma default_collectors:
  "(case cf_Collectors default_config n of None \<Rightarrow> False | Some c \<Rightarrow> cc_Enabled c) \<longleftrightarrow> n \<in> set known_collectors"
proof (cases "n \<in> set known_collectors")
  case False
  then have "cf_Collectors default_config n = None" unfolding known_collectors_def by (simp add: default_config_def)
  with False show ?thesis by simp
next
  case True
  then have "n = ''cpu'' \<or> n = ''memory'' \<or> n = ''diskcap'' \<or> n = ''net'' \<or> n = ''load''" by (simp add: known_collectors_def)
  then show ?thesis using True by (elim disjE) (simp_all add: default_config_def)
qed

text \<open>
  Without a configuration file the agent starts whatever the logs of an earlier run hold:
  output goes to standard output, every known collector is scheduled, all modules start, the
  reporter's loops are launched with its three reliable queues, and handing it samples never
  panics.
\<close>

theorem default_config_runs:
  fixes w :: "('pub, 'k, 's, 'ca, 'cert) agent_world"
  shows "\<exists>(a :: ('pub, 'k, 's, 'ca, 'cert) agent) cfg. Load yaml FileMissing = Inr cfg \<and> agent_main w cfg = Inr a \<and> rp_sink (ag_rep a) = StdoutSink \<and>
    sd_collectors (ag_sched a) = filter (\<lambda>n. n \<in> set known_collectors) (aw_order w) \<and>
    app_Start (\<lambda>_. True) (ag_app a) = (None, base_modules @ [''executor''], (ag_app a)\<lparr>ap_ctx := Some False\<rparr>) \<and>
    rep_Start (rq_BatchInterval (cf_Reporter cfg)) (ag_rep a) =
      Some [FlushRoutine, ReplayRoutine QueueResults, ReplayRoutine QueueAudit, ReplayRoutine QueueInventory, MetricsReplayRoutine] \<and>
    (\<forall>ms. \<exists>r. rep_Submit ms (ag_rep a) = Some r)"
proof -
  have c: "rc_Mode (rep_conf default_config) = ''stdout''" "rc_WalEnabled (rep_conf default_config)" "rc_MetricsFallback (rep_conf default_config)"
    "rc_BufferSize (rep_conf default_config) = 10000"
    by (simp_all add: rep_conf_def default_config_def)
  obtain rep :: "Metric Reporter" where r: "rep_New (aw_disk w) (rep_conf default_config) = Inr rep" "rp_sink rep = StdoutSink"
    "rp_bufferSize rep = 10000" "dom (rp_wals rep) = {QueueResults, QueueAudit, QueueInventory}" "rp_metricsWAL rep \<noteq> None"
    using rep_New_stdout [OF c(1,2,3)] c(4) by metis
  obtain e where e: "load_engine (LoadPublicKeyPEM (aw_read w) (aw_pem w) (aw_pkix w)) (aw_status w) default_config = Inr e"
    by (simp add: load_engine_def default_config_def Let_def)
  have b: "bootstrap_identity w default_config rep = Some (rep, UplinkConf.truncate (cf_Uplink default_config), aw_data w, aw_remote w)"
    by (simp add: bootstrap_identity_def needs_bootstrap_def default_config_def)
  define a :: "('pub, 'k, 's, 'ca, 'cert) agent" where "a = \<lparr>ag_rep = rep, ag_sched = NewScheduler (aw_order w) (cf_Collectors default_config),
    ag_engine = with_plugins (aw_plugins w) default_config e, ag_app = app_Add [''executor''] (app_Add base_modules app_New), ag_uplink = None,
    ag_handler = False, ag_data = aw_data w, ag_remote = aw_remote w\<rparr>"
  have m: "agent_main w default_config = Inr a"
    by (simp add: agent_main_def r(1) e b a_def) (simp add: default_config_def)
  have s: "sd_collectors (ag_sched a) = filter (\<lambda>n. n \<in> set known_collectors) (aw_order w)"
    by (simp add: a_def NewScheduler_def default_collectors Let_def)
  have "app_Start (\<lambda>_. True) (ag_app a) = (None, base_modules @ [''executor''], (ag_app a)\<lparr>ap_ctx := Some False\<rparr>)"
    by (simp add: a_def app_Start_def app_Add_def app_New_def base_modules_def)
  moreover have "rep_Start (rq_BatchInterval (cf_Reporter default_config)) (ag_rep a) =
      Some [FlushRoutine, ReplayRoutine QueueResults, ReplayRoutine QueueAudit, ReplayRoutine QueueInventory, MetricsReplayRoutine]"
    using r(5) domD [of _ "rp_wals rep"] unfolding r(4) by (auto simp: rep_Start_def a_def default_config_def seconds_def)
  moreover have "\<forall>ms. \<exists>r. rep_Submit ms (ag_rep a) = Some r" using r(3) by (simp add: a_def rep_Submit_total)
  ultimately show ?thesis using m s r(2) by (intro exI [of _ a] exI [of _ default_config]) (simp add: Load_def a_def)
qed

end
