(* ===== verification/Connector_Main.thy ===== *)
theory Connector_Main
  imports Connector Bootstrap Metrics_Bridge Host_Text
begin

text \<open>
  \<^verbatim>\<open>cmd/connector/main.go\<close>: how the connector is put together from its flags. The database, the
  key and certificate files, the Kafka client and the listening sockets are parameters; a
  call of \<^verbatim>\<open>log.Fatalf\<close> is an error value.
\<close>

section \<open>Files and lists\<close>

definition splitTrim :: "string \<Rightarrow> string list" where
  "splitTrim s = filter (\<lambda>p. p \<noteq> []) (map go_TrimSpace (go_Split (CHR '','') s))"

datatype fatal =
    OpenStoreFailed | SignKeyFailed key_error | KafkaFailed | CACertFailed | CAKeyFailed key_error | BootstrapIncomplete | MTLSFailed | ListenFailed
  | BootstrapListenFailed | ServerCertFailed

definition loadSigner :: "(string \<Rightarrow> key_error + 'priv) \<Rightarrow> string \<Rightarrow> fatal + 'priv option" where
  "loadSigner loadKey path =
     (if path = [] then Inr None else case loadKey path of Inl err \<Rightarrow> Inl (SignKeyFailed err) | Inr k \<Rightarrow> Inr (Some k))"

text \<open>\<open>pem\<close> is the content of the first PEM block, \<open>x509\<close> parses a certificate.\<close>

definition loadCACert :: "(string \<Rightarrow> bytes option) \<Rightarrow> (bytes \<Rightarrow> bytes option) \<Rightarrow> (bytes \<Rightarrow> 'cert option) \<Rightarrow> string \<Rightarrow> ('cert \<times> bytes) option" where
  "loadCACert rd pem x509 path =
     (case rd path of
        None \<Rightarrow> None
      | Some caPEM \<Rightarrow>
          (case pem caPEM of
             None \<Rightarrow> None
           | Some der \<Rightarrow> (case x509 der of None \<Rightarrow> None | Some cert \<Rightarrow> Some (cert, der))))"

datatype client_auth = NoClientCert | RequireAndVerifyClientCert

record ('pair, 'pool) server_tls =
  tl_Certificate :: 'pair
  tl_ClientCAs :: "'pool option"
  tl_ClientAuth :: client_auth

definition serverMTLS ::
  "(string \<Rightarrow> bytes option) \<Rightarrow> (bytes \<Rightarrow> 'pool option) \<Rightarrow> (string \<Rightarrow> string \<Rightarrow> 'pair option) \<Rightarrow> string \<Rightarrow> string \<Rightarrow> string \<Rightarrow>
   ('pair, 'pool) server_tls option" where
  "serverMTLS rd certs keypair caFile certFile keyFile =
     (case rd caFile of
        None \<Rightarrow> None
      | Some caPEM \<Rightarrow>
          (case certs caPEM of
             None \<Rightarrow> None
           | Some pool \<Rightarrow>
               (case keypair certFile keyFile of
                  None \<Rightarrow> None
                | Some cert \<Rightarrow> Some \<lparr>tl_Certificate = cert, tl_ClientCAs = Some pool, tl_ClientAuth = RequireAndVerifyClientCert\<rparr>)))"

definition serverAuthTLS :: "(string \<Rightarrow> string \<Rightarrow> 'pair option) \<Rightarrow> string \<Rightarrow> string \<Rightarrow> ('pair, 'pool) server_tls option" where
  "serverAuthTLS keypair certFile keyFile =
     map_option (\<lambda>cert. \<lparr>tl_Certificate = cert, tl_ClientCAs = None, tl_ClientAuth = NoClientCert\<rparr>) (keypair certFile keyFile)"

section \<open>The log sink\<close>

text \<open>A line is its kind and the values it prints; writing a line does not fail.\<close>

datatype log_line = MetricsLine string "64 word" nat | ReportLine string string nat | EventLine string smap

definition logSink_MetricBatch :: "(string \<times> 64 word \<times> nat, log_line list) delivery_fn" where
  "logSink_MetricBatch b out = (case b of (asset, seq, n) \<Rightarrow> (True, out @ [MetricsLine asset seq n]))"

definition logSink_Report :: "(string \<times> string \<times> bytes, log_line list) delivery_fn" where
  "logSink_Report r out = (case r of (kind, i, payload) \<Rightarrow> (True, out @ [ReportLine kind i (length payload)]))"

definition logSink_Event :: "(string \<times> smap, log_line list) delivery_fn" where
  "logSink_Event e out = (case e of (t, attrs) \<Rightarrow> (True, out @ [EventLine t attrs]))"

text \<open>A report with the clock and the broker's answer of its delivery, for both sinks.\<close>

type_synonym report_delivery = "(string \<times> string \<times> bytes) \<times> int \<times> bool"

definition log_delivery :: "(report_delivery, log_line list) delivery_fn" where
  "log_delivery d = logSink_Report (fst d)"

definition kafka_delivery :: "(string \<times> string \<times> int \<times> bytes \<Rightarrow> bytes option) \<Rightarrow> (report_delivery, kafka_record list) delivery_fn" where
  "kafka_delivery json d = kafka_Report json (fst (snd d)) (snd (snd d)) (fst d)"

definition in_log :: "report_delivery \<Rightarrow> log_line list \<Rightarrow> bool" where
  "in_log d out \<longleftrightarrow> (case fst d of (kind, i, payload) \<Rightarrow> ReportLine kind i (length payload) \<in> set out)"

definition in_topic :: "(string \<times> string \<times> int \<times> bytes \<Rightarrow> bytes option) \<Rightarrow> report_delivery \<Rightarrow> kafka_record list \<Rightarrow> bool" where
  "in_topic json d topic \<longleftrightarrow>
     (case d of ((kind, i, payload), now, _) \<Rightarrow>
        \<exists>v. json (kind, i, now, payload) = Some v \<and> \<lparr>kr_topic = TopicReports, kr_key = bytes_of i, kr_value = v\<rparr> \<in> set topic)"

interpretation report_sinks: two_sinks log_delivery in_log "kafka_delivery json" "in_topic json" for json
  by unfold_locales
    (auto simp: log_delivery_def logSink_Report_def in_log_def kafka_delivery_def kafka_Report_def produce_def in_topic_def Let_def
      split: prod.splits option.splits if_splits)

text \<open>
  C29: with Kafka configured, every report of a stream whose delivery is reported as
  successful is in the reports topic, under its id and with its envelope, and in the log,
  whatever the later deliveries do; a delivery fails only when its envelope cannot be
  encoded or the broker refuses it.
\<close>

theorem fanout_report_delivered:
  assumes "send_all (fanout log_delivery (kafka_delivery json)) ds (out, topic) = (oks, (out', topic'))"
  shows "length oks = length ds \<and> (\<forall>i < length ds. oks ! i \<longrightarrow> in_log (ds ! i) out' \<and> in_topic json (ds ! i) topic') \<and>
    (\<forall>d p. fst (fanout log_delivery (kafka_delivery json) d p) \<longleftrightarrow>
       (case d of ((kind, i, payload), now, ok) \<Rightarrow> ok \<and> json (kind, i, now, payload) \<noteq> None))"
  using report_sinks.both.send_all_has [OF assms]
  by (auto simp: fanout_def log_delivery_def logSink_Report_def kafka_delivery_def kafka_Report_def produce_def Let_def
      split: prod.splits option.splits if_splits)

theorem fanout_report_delivered_witness:
  "let json = (\<lambda>(k, i, n, p). Some p);
       (oks, out, topic) = send_all (fanout log_delivery (kafka_delivery json)) [((''results'', ''c1'', [1]), 5, True), ((''results'', ''c2'', [2]), 6, False)] ([], [])
   in oks = [True, False] \<and> in_topic json ((''results'', ''c1'', [1]), 5, True) topic"
proof -
  let ?json = "\<lambda>(k :: string, i :: string, n :: int, p :: bytes). Some p"
  let ?ds = "[((''results'', ''c1'', [1]), 5, True), ((''results'', ''c2'', [2]), 6, False)] :: report_delivery list"
  obtain oks out topic where r: "send_all (fanout log_delivery (kafka_delivery ?json)) ?ds ([], []) = (oks, (out, topic))" by (metis prod.exhaust)
  moreover have "oks = [True, False]" using r
    by (simp add: fanout_def log_delivery_def logSink_Report_def kafka_delivery_def kafka_Report_def produce_def)
  ultimately show ?thesis using fanout_report_delivered [OF r] by (auto simp: Let_def)
qed

section \<open>Start-up\<close>

record connector_flags =
  fl_grpc :: string
  fl_bootstrap :: string
  fl_tlsCA :: string
  fl_tlsCert :: string
  fl_tlsKey :: string
  fl_signKey :: string
  fl_dsn :: string
  fl_caKey :: string
  fl_bootstrapToken :: string
  fl_gatewayAddr :: string
  fl_kafkaBrokers :: string

record ('priv, 'cert, 'pair, 'pool) connector_world =
  cw_openStore :: "string \<Rightarrow> Store option"
  cw_pkcs8 :: "bytes \<Rightarrow> 'priv parsed_key option"
  cw_kafka :: "string list \<Rightarrow> bool"
  cw_read :: "string \<Rightarrow> bytes option"
  cw_pem :: "bytes \<Rightarrow> bytes option"
  cw_x509 :: "bytes \<Rightarrow> 'cert option"
  cw_certs :: "bytes \<Rightarrow> 'pool option"
  cw_keypair :: "string \<Rightarrow> string \<Rightarrow> 'pair option"
  cw_listen :: "string \<Rightarrow> bool"
  cw_sha :: "bytes \<Rightarrow> bytes"

definition load_key :: "('priv, 'cert, 'pair, 'pool) connector_world \<Rightarrow> string \<Rightarrow> key_error + 'priv" where
  "load_key w = LoadPrivateKeyPEM (cw_read w) (cw_pem w) (cw_pkcs8 w)"

datatype sink_kind = LogSink | KafkaSink "string list"

record ('priv, 'cert, 'pair, 'pool) connector_app =
  cn_server :: "'priv Server"
  cn_sinks :: "sink_kind list"
  cn_dispatcher :: bool
  cn_bootstrap :: "(BootstrapServer \<times> 'cert \<times> 'priv) option"
  cn_agentTLS :: "('pair, 'pool) server_tls"
  cn_bootstrapTLS :: "('pair, 'pool) server_tls option"

definition open_store :: "(string \<Rightarrow> Store option) \<Rightarrow> string \<Rightarrow> fatal + Store option" where
  "open_store openStore dsn =
     (if dsn = [] then Inr None else case openStore dsn of None \<Rightarrow> Inl OpenStoreFailed | Some st \<Rightarrow> Inr (Some st))"

definition choose_sinks :: "(string list \<Rightarrow> bool) \<Rightarrow> string \<Rightarrow> fatal + sink_kind list" where
  "choose_sinks kafka brokers =
     (if brokers = [] then Inr [LogSink]
      else if kafka (splitTrim brokers) then Inr [LogSink, KafkaSink (splitTrim brokers)]
      else Inl KafkaFailed)"

definition make_bootstrap ::
  "('priv, 'cert, 'pair, 'pool) connector_world \<Rightarrow> connector_flags \<Rightarrow> Store option \<Rightarrow> fatal + (BootstrapServer \<times> 'cert \<times> 'priv) option" where
  "make_bootstrap w f store =
     (if store \<noteq> None \<and> fl_caKey f \<noteq> [] \<and> fl_bootstrapToken f \<noteq> []
      then (case loadCACert (cw_read w) (cw_pem w) (cw_x509 w) (fl_tlsCA f) of
              None \<Rightarrow> Inl CACertFailed
            | Some (cert, der) \<Rightarrow>
                (case load_key w (fl_caKey f) of
                   Inl err \<Rightarrow> Inl (CAKeyFailed err)
                 | Inr key \<Rightarrow>
                     (let adv = (if fl_gatewayAddr f = [] then fl_grpc f else fl_gatewayAddr f)
                      in Inr (Some (NewBootstrapServer (cw_sha w) der (fl_bootstrapToken f) adv (90 * 24 * 3600), cert, key)))))
      else Inr None)"

text \<open>The transports, after the services exist.\<close>

definition open_listeners ::
  "('priv, 'cert, 'pair, 'pool) connector_world \<Rightarrow> connector_flags \<Rightarrow> fatal + ('pair, 'pool) server_tls \<times> ('pair, 'pool) server_tls option" where
  "open_listeners w f =
     (case serverMTLS (cw_read w) (cw_certs w) (cw_keypair w) (fl_tlsCA f) (fl_tlsCert f) (fl_tlsKey f) of
        None \<Rightarrow> Inl MTLSFailed
      | Some tls \<Rightarrow>
          if \<not> cw_listen w (fl_grpc f) then Inl ListenFailed
          else if fl_bootstrap f = [] then Inr (tls, None)
          else if \<not> cw_listen w (fl_bootstrap f) then Inl BootstrapListenFailed
          else (case serverAuthTLS (cw_keypair w) (fl_tlsCert f) (fl_tlsKey f) of
                  None \<Rightarrow> Inl ServerCertFailed
                | Some btls \<Rightarrow> Inr (tls, Some btls)))"

definition connector_main ::
  "('priv, 'cert, 'pair, 'pool) connector_world \<Rightarrow> connector_flags \<Rightarrow> fatal + ('priv, 'cert, 'pair, 'pool) connector_app" where
  "connector_main w f =
     (case open_store (cw_openStore w) (fl_dsn f) of Inl e \<Rightarrow> Inl e | Inr store \<Rightarrow>
     (case loadSigner (load_key w) (fl_signKey f) of Inl e \<Rightarrow> Inl e | Inr signer \<Rightarrow>
     (case choose_sinks (cw_kafka w) (fl_kafkaBrokers f) of Inl e \<Rightarrow> Inl e | Inr sinks \<Rightarrow>
     (case make_bootstrap w f store of Inl e \<Rightarrow> Inl e | Inr bs \<Rightarrow>
        if fl_bootstrap f \<noteq> [] \<and> bs = None then Inl BootstrapIncomplete
        else (case open_listeners w f of Inl e \<Rightarrow> Inl e | Inr (tls, btls) \<Rightarrow>
           Inr \<lparr>cn_server = (case store of None \<Rightarrow> NewServer signer | Some st \<Rightarrow> SetStore (NewServer signer) st), cn_sinks = sinks,
                cn_dispatcher = (store \<noteq> None), cn_bootstrap = bs, cn_agentTLS = tls, cn_bootstrapTLS = btls\<rparr>)))))"

text \<open>One tick of the sweep that reports sessions as suspect.\<close>

definition offline_tick :: "int \<Rightarrow> int \<Rightarrow> 'priv Server \<Rightarrow> (string \<times> string) list" where
  "offline_tick now timeout s = map (\<lambda>x. (se_AssetID x, se_SessionID x)) (OfflineSweep now (sv_sessions s) timeout)"

section \<open>What a started connector guarantees\<close>

text \<open>
  C25: a connector that starts serves agents only over mutual TLS with verified client
  certificates; commands are signed with the key of the flag exactly when one is given;
  commands are persisted and dispatched from the outbox exactly when a database is
  configured; the registration service exists only with database, authority key and token,
  never with an empty token, and a registration port is opened only with that service;
  with Kafka every delivery goes to both sinks.
\<close>

theorem connector_boot_secure:
  assumes "connector_main w f = Inr c"
  shows "tl_ClientAuth (cn_agentTLS c) = RequireAndVerifyClientCert \<and> tl_ClientCAs (cn_agentTLS c) \<noteq> None \<and>
    (fl_signKey f = [] \<longrightarrow> sv_signer (cn_server c) = None) \<and>
    (fl_signKey f \<noteq> [] \<longrightarrow> (\<exists>k. load_key w (fl_signKey f) = Inr k \<and> sv_signer (cn_server c) = Some k)) \<and>
    (sv_store (cn_server c) \<noteq> None \<longleftrightarrow> fl_dsn f \<noteq> []) \<and> cn_dispatcher c = (fl_dsn f \<noteq> []) \<and>
    (cn_bootstrap c \<noteq> None \<longleftrightarrow> fl_dsn f \<noteq> [] \<and> fl_caKey f \<noteq> [] \<and> fl_bootstrapToken f \<noteq> []) \<and>
    (\<forall>bs cert key. cn_bootstrap c = Some (bs, cert, key) \<longrightarrow> bs_tokenHash bs = cw_sha w (bytes_of (fl_bootstrapToken f)) \<and> fl_bootstrapToken f \<noteq> []) \<and>
    (cn_bootstrapTLS c \<noteq> None \<longrightarrow> cn_bootstrap c \<noteq> None) \<and>
    cn_sinks c = LogSink # (if fl_kafkaBrokers f = [] then [] else [KafkaSink (splitTrim (fl_kafkaBrokers f))])"
proof -
  from assms obtain store signer sinks bs tls btls where m:
    "open_store (cw_openStore w) (fl_dsn f) = Inr store" "loadSigner (load_key w) (fl_signKey f) = Inr signer"
    "choose_sinks (cw_kafka w) (fl_kafkaBrokers f) = Inr sinks" "make_bootstrap w f store = Inr bs" "\<not> (fl_bootstrap f \<noteq> [] \<and> bs = None)"
    "open_listeners w f = Inr (tls, btls)"
    "c = \<lparr>cn_server = (case store of None \<Rightarrow> NewServer signer | Some st \<Rightarrow> SetStore (NewServer signer) st), cn_sinks = sinks,
          cn_dispatcher = (store \<noteq> None), cn_bootstrap = bs, cn_agentTLS = tls, cn_bootstrapTLS = btls\<rparr>"
    by (auto simp: connector_main_def split: sum.splits if_splits prod.splits)
  have "store \<noteq> None \<longleftrightarrow> fl_dsn f \<noteq> []" using m(1) by (auto simp: open_store_def split: if_splits option.splits dest: sym)
  moreover have "fl_signKey f = [] \<longrightarrow> signer = None" "fl_signKey f \<noteq> [] \<longrightarrow> (\<exists>k. load_key w (fl_signKey f) = Inr k \<and> signer = Some k)"
    using m(2) by (auto simp: loadSigner_def split: if_splits sum.splits)
  moreover have "sinks = LogSink # (if fl_kafkaBrokers f = [] then [] else [KafkaSink (splitTrim (fl_kafkaBrokers f))])"
    using m(3) by (auto simp: choose_sinks_def split: if_splits)
  moreover have "bs \<noteq> None \<longleftrightarrow> store \<noteq> None \<and> fl_caKey f \<noteq> [] \<and> fl_bootstrapToken f \<noteq> []"
    "\<forall>b cert key. bs = Some (b, cert, key) \<longrightarrow> bs_tokenHash b = cw_sha w (bytes_of (fl_bootstrapToken f)) \<and> fl_bootstrapToken f \<noteq> []"
    using m(4) by (auto simp: make_bootstrap_def NewBootstrapServer_def Let_def split: if_splits option.splits sum.splits)
  moreover have "tl_ClientAuth tls = RequireAndVerifyClientCert" "tl_ClientCAs tls \<noteq> None" "btls \<noteq> None \<Longrightarrow> fl_bootstrap f \<noteq> []"
    using m(6) by (auto simp: open_listeners_def serverMTLS_def split: if_splits option.splits)
  ultimately show ?thesis using m(5,7) by (cases store; cases btls) (auto simp: NewServer_def SetStore_def)
qed

definition sample_flags :: connector_flags where
  "sample_flags = \<lparr>fl_grpc = '':18091'', fl_bootstrap = [], fl_tlsCA = ''ca'', fl_tlsCert = ''crt'', fl_tlsKey = ''key'', fl_signKey = ''sk'',
     fl_dsn = [], fl_caKey = [], fl_bootstrapToken = [], fl_gatewayAddr = [], fl_kafkaBrokers = '' a:1 , ,b:2''\<rparr>"

definition sample_cworld :: "(unit, unit, unit, unit) connector_world" where
  "sample_cworld = \<lparr>cw_openStore = (\<lambda>_. None), cw_pkcs8 = (\<lambda>_. Some (Ed25519Key ())), cw_kafka = (\<lambda>_. True), cw_read = (\<lambda>_. Some []), cw_pem = Some,
     cw_x509 = (\<lambda>_. Some ()), cw_certs = (\<lambda>_. Some ()), cw_keypair = (\<lambda>_ _. Some ()), cw_listen = (\<lambda>_. True), cw_sha = (\<lambda>b. b)\<rparr>"

theorem connector_boot_secure_witness:
  "\<exists>c. connector_main sample_cworld sample_flags = Inr c \<and> sv_signer (cn_server c) = Some () \<and> cn_sinks c = [LogSink, KafkaSink [''a:1'', ''b:2'']]"
proof -
  obtain c where c: "connector_main sample_cworld sample_flags = Inr c"
    by (simp add: connector_main_def sample_cworld_def sample_flags_def open_store_def loadSigner_def load_key_def LoadPrivateKeyPEM_def choose_sinks_def make_bootstrap_def
        open_listeners_def serverMTLS_def)
  have "splitTrim '' a:1 , ,b:2'' = [''a:1'', ''b:2'']"
    by (simp add: splitTrim_def go_TrimSpace_def go_TrimLeft_def go_TrimRight_def is_space_def)
  with c connector_boot_secure [OF c] show ?thesis by (simp add: sample_flags_def sample_cworld_def load_key_def LoadPrivateKeyPEM_def)
qed

lemma TrimRight_ends: "go_TrimRight p s = [] \<or> \<not> p (last (go_TrimRight p s))"
proof (cases "dropWhile p (rev s)")
  case (Cons c cs)
  then have "\<not> p c" by (metis hd_dropWhile list.distinct(1) list.sel(1))
  with Cons show ?thesis by (simp add: go_TrimRight_def)
qed (simp add: go_TrimRight_def)

lemma splitTrim_clean: "b \<in> set (splitTrim s) \<Longrightarrow> b \<noteq> [] \<and> \<not> is_space (last b)"
  using TrimRight_ends by (fastforce simp: splitTrim_def go_TrimSpace_def)

end
