(* ===== verification/Mock_Gateway.thy ===== *)
theory Mock_Gateway
  imports Agent_Main Event_Runs
begin

text \<open>
  \<^verbatim>\<open>tools/mockgateway\<close>: the gateway developers test agents against, with its HTTP endpoints
  (\<^verbatim>\<open>main.go\<close>) and gRPC streams (\<^verbatim>\<open>grpc.go\<close>) on shared tables. Every critical section is one step;
  decoded requests, clocks, random bytes and failing sends are inputs.
\<close>

section \<open>State\<close>

record mockCommand =
  mo_CmdID :: string
  mo_Action :: string
  mo_Params :: smap
  mo_TimeoutSec :: int

text \<open>An absent queue is the empty list. The registry keeps its entries in the order they were made.\<close>

record 'priv mock =
  mk_counters :: "string \<rightharpoonup> 64 word"
  mk_registry :: "(string \<times> string) list"
  mk_cmdQueues :: "string \<Rightarrow> mockCommand list"
  mk_cancels :: "string \<Rightarrow> string list"
  mk_results :: "string \<rightharpoonup> bytes"
  mk_sessionSeq :: "64 word"
  mk_signerKey :: "'priv option"

definition mock_init :: "'priv option \<Rightarrow> 'priv mock" where
  "mock_init key = \<lparr>mk_counters = [''metrics'' \<mapsto> 0, ''results'' \<mapsto> 0, ''audit'' \<mapsto> 0, ''inventory'' \<mapsto> 0], mk_registry = [],
     mk_cmdQueues = (\<lambda>_. []), mk_cancels = (\<lambda>_. []), mk_results = Map.empty, mk_sessionSeq = 0, mk_signerKey = key\<rparr>"

section \<open>Command channel over HTTP\<close>

text \<open>One round of the long poll: an answer, or \<open>None\<close> to sleep and try again.\<close>

definition commandsHandler :: "string \<Rightarrow> bool \<Rightarrow> 'priv mock \<Rightarrow> (mockCommand list \<times> string list) option \<times> 'priv mock" where
  "commandsHandler assetID afterDeadline s =
     (let cmds = mk_cmdQueues s assetID; cs = mk_cancels s assetID
      in if cmds \<noteq> [] \<or> cs \<noteq> []
         then (Some (cmds, cs), s\<lparr>mk_cmdQueues := (mk_cmdQueues s)(assetID := []), mk_cancels := (mk_cancels s)(assetID := [])\<rparr>)
         else if afterDeadline then (Some ([], []), s)
         else (None, s))"

text \<open>A response is its status; \<open>None\<close> for a request is a body that cannot be decoded.\<close>

definition adminCommandHandler :: "string \<Rightarrow> mockCommand option \<Rightarrow> 'priv mock \<Rightarrow> nat \<times> 'priv mock" where
  "adminCommandHandler assetID req s =
     (case req of
        None \<Rightarrow> (400, s)
      | Some cmd \<Rightarrow>
          if assetID = [] \<or> mo_CmdID cmd = [] \<or> mo_Action cmd = [] then (400, s)
          else (202, s\<lparr>mk_cmdQueues := (mk_cmdQueues s)(assetID := mk_cmdQueues s assetID @ [cmd])\<rparr>))"

definition adminCancelHandler :: "string \<Rightarrow> string \<Rightarrow> 'priv mock \<Rightarrow> nat \<times> 'priv mock" where
  "adminCancelHandler assetID cmdID s =
     (if assetID = [] \<or> cmdID = [] then (400, s)
      else (202, s\<lparr>mk_cancels := (mk_cancels s)(assetID := mk_cancels s assetID @ [cmdID])\<rparr>))"

definition adminResultHandler :: "string \<Rightarrow> 'priv mock \<Rightarrow> nat \<times> bytes option" where
  "adminResultHandler cmdID s = (case mk_results s cmdID of Some res \<Rightarrow> (200, Some res) | None \<Rightarrow> (404, None))"

section \<open>Reports over HTTP\<close>

definition store_results :: "(string \<times> bytes) list \<Rightarrow> (string \<rightharpoonup> bytes) \<Rightarrow> (string \<rightharpoonup> bytes)" where
  "store_results items m = foldl (\<lambda>m (i, p). m(i \<mapsto> p)) m items"

definition bump_counter :: "string \<Rightarrow> 'priv mock \<Rightarrow> 'priv mock" where
  "bump_counter k s = s\<lparr>mk_counters := (mk_counters s)(k := map_option (\<lambda>n. n + 1) (mk_counters s k))\<rparr>"

text \<open>
  \<open>body\<close> is what arrives after decompression, if it can be read; \<open>items\<close> decodes the entries of a
  batch, as far as it can be decoded.
\<close>

definition resultsHandler :: "(bytes \<Rightarrow> (string \<times> bytes) list) \<Rightarrow> bytes option \<Rightarrow> 'priv mock \<Rightarrow> nat \<times> 'priv mock" where
  "resultsHandler items body s =
     (case body of
        None \<Rightarrow> (400, s)
      | Some data \<Rightarrow> (let s = bump_counter ''results'' s in (204, s\<lparr>mk_results := store_results (items data) (mk_results s)\<rparr>)))"

definition mock_handler :: "string \<Rightarrow> bytes option \<Rightarrow> 'priv mock \<Rightarrow> nat \<times> 'priv mock" where
  "mock_handler kind body s =
     (case mk_counters s kind of
        None \<Rightarrow> (404, s)
      | Some _ \<Rightarrow> (case body of None \<Rightarrow> (400, s) | Some data \<Rightarrow> (204, bump_counter kind s)))"

section \<open>Registration over HTTP\<close>

text \<open>\<^verbatim>\<open>%06d\<close>\<close>

definition pad6 :: "nat \<Rightarrow> string" where
  "pad6 n = (let d = dec_digits n in replicate (6 - length d) (CHR ''0'') @ d)"

datatype register_answer = BadRequest | TokenRequired | AssetAnswer string

definition registerHandler :: "(string \<times> string) option \<Rightarrow> 'priv mock \<Rightarrow> register_answer \<times> 'priv mock" where
  "registerHandler req s =
     (case req of
        None \<Rightarrow> (BadRequest, s)
      | Some (enrollID, token) \<Rightarrow>
          if token = [] then (TokenRequired, s)
          else (case map_of (mk_registry s) enrollID of
                  Some i \<Rightarrow> (AssetAnswer i, s)
                | None \<Rightarrow> (let i = ''a-mock-'' @ pad6 (length (mk_registry s) + 1)
                          in (AssetAnswer i, s\<lparr>mk_registry := mk_registry s @ [(enrollID, i)]\<rparr>))))"

section \<open>gRPC streams\<close>

text \<open>The buffer of twenty bytes is filled from its end; \<open>None\<close> is an index below zero.\<close>

function itoa_loop :: "64 word \<Rightarrow> nat \<Rightarrow> string \<Rightarrow> string option" where
  "itoa_loop v i acc =
     (if v = 0 then Some acc
      else if i = 0 then None
      else itoa_loop (v div 10) (i - 1) (char_of (48 + unat (v mod 10)) # acc))"
  by pat_completeness auto
termination
  by (relation "measure (\<lambda>(v, i, acc). i)") auto

declare itoa_loop.simps [simp del]

definition itoa :: "64 word \<Rightarrow> string option" where
  "itoa v = (if v = 0 then Some ''0'' else itoa_loop v 20 [])"

definition mock_newSessionID :: "string \<Rightarrow> 'priv mock \<Rightarrow> string option \<times> 'priv mock" where
  "mock_newSessionID clock s =
     (let n = mk_sessionSeq s + 1
      in (map_option (\<lambda>d. ''s-'' @ clock @ ''-'' @ d) (itoa n), s\<lparr>mk_sessionSeq := n\<rparr>))"

datatype mock_frame = MockWelcome string | MockCommand CommandEnvelope | MockCancel string

datatype control_end = NotHello | CertMismatch | WelcomeFailed

text \<open>Up to the welcome: \<open>hello\<close> the claimed asset, \<open>cn\<close> the name in the client's certificate, if there is one.\<close>

definition mock_control_open :: "string option \<Rightarrow> string option \<Rightarrow> string \<Rightarrow> bool \<Rightarrow> 'priv mock \<Rightarrow> (control_end + string \<times> mock_frame) \<times> 'priv mock" where
  "mock_control_open hello cn clock sent s =
     (case hello of
        None \<Rightarrow> (Inl NotHello, s)
      | Some assetID \<Rightarrow>
          if cn \<noteq> None \<and> cn \<noteq> Some assetID then (Inl CertMismatch, s)
          else (let (i, s) = mock_newSessionID clock s
                in if \<not> sent then (Inl WelcomeFailed, s) else (Inr (assetID, MockWelcome (case i of None \<Rightarrow> [] | Some i \<Rightarrow> i)), s)))"

definition mock_envelope :: "('priv \<Rightarrow> bytes \<Rightarrow> bytes) \<Rightarrow> 'priv option \<Rightarrow> int \<Rightarrow> bytes \<Rightarrow> mockCommand \<Rightarrow> CommandEnvelope" where
  "mock_envelope sign key now rnd c =
     (let env = \<lparr>env_CmdId = mo_CmdID c, env_Action = mo_Action c, env_Params = mo_Params c, env_TimeoutSec = word_of_int (mo_TimeoutSec c),
                 env_IssuedAt = word_of_int now, env_ExpiresAt = word_of_int (now + 300000), env_Nonce = [], env_Signature = []\<rparr>
      in case key of None \<Rightarrow> env | Some priv \<Rightarrow> Sign sign priv (env\<lparr>env_Nonce := rnd\<rparr>))"

text \<open>
  One tick of the push loop: the queues are emptied under the lock, then the frames are sent
  until a send fails. \<open>sent\<close> is the number of sends that succeed, \<open>rnd\<close> the nonce of the n-th
  command, \<open>now\<close> the clock, read once per tick.
\<close>

definition control_tick :: "('priv \<Rightarrow> bytes \<Rightarrow> bytes) \<Rightarrow> int \<Rightarrow> (nat \<Rightarrow> bytes) \<Rightarrow> nat \<Rightarrow> string \<Rightarrow> 'priv mock \<Rightarrow> mock_frame list \<times> bool \<times> 'priv mock" where
  "control_tick sign now rnd sent assetID s =
     (let cmds = mk_cmdQueues s assetID; cs = mk_cancels s assetID;
          frames = map (\<lambda>(n, c). MockCommand (mock_envelope sign (mk_signerKey s) now (rnd n) c)) (enumerate 0 cmds) @ map MockCancel cs
      in (take sent frames, length frames \<le> sent,
          s\<lparr>mk_cmdQueues := (mk_cmdQueues s)(assetID := []), mk_cancels := (mk_cancels s)(assetID := [])\<rparr>))"

definition mock_metrics :: "64 word \<Rightarrow> 'priv mock \<Rightarrow> 64 word \<times> 'priv mock" where
  "mock_metrics seq s = (seq, bump_counter ''metrics'' s)"

definition mock_kindName :: "ReportKind \<Rightarrow> string" where
  "mock_kindName k = (case k of KindResults \<Rightarrow> ''results'' | KindAudit \<Rightarrow> ''audit'' | KindInventory \<Rightarrow> ''inventory'' | KindOther _ \<Rightarrow> ''unknown'')"

text \<open>\<open>None\<close> is the panic of counting a kind that has no counter.\<close>

definition mock_reports :: "ReportKind \<Rightarrow> (string \<times> bytes) list \<Rightarrow> 'priv mock \<Rightarrow> ((ReportKind \<times> string list) \<times> 'priv mock) option" where
  "mock_reports kind items s =
     (if mk_counters s (mock_kindName kind) = None then None
      else (let s = bump_counter (mock_kindName kind) s;
                s = (if kind = KindResults then s\<lparr>mk_results := store_results items (mk_results s)\<rparr> else s)
            in Some ((kind, map fst items), s)))"

section \<open>Decimal printing\<close>

lemma itoa_loop_dec:
  assumes "v \<noteq> 0" "unat v < 10 ^ i"
  shows "itoa_loop v i acc = Some (dec_digits (unat v) @ acc)"
  using assms
proof (induction i arbitrary: v acc)
  case 0
  then show ?case by (simp add: word_unat_eq_iff)
next
  case (Suc i)
  have u: "unat (v div 10) = unat v div 10" "unat (v mod 10) = unat v mod 10" by (simp_all add: unat_div unat_mod)
  have d: "dec_digit (unat v mod 10) = char_of (48 + unat (v mod 10))" by (simp add: dec_digit_def u add.commute)
  show ?case
  proof (cases "v div 10 = 0")
    case True
    then have "unat v < 10" using u(1) by (simp add: word_unat_eq_iff div_eq_0_iff)
    then show ?thesis using Suc.prems(1) True d by (simp add: itoa_loop.simps [of v] itoa_loop.simps [of 0] dec_digits.simps [of "unat v"])
  next
    case False
    then have "\<not> unat v < 10" using u(1) by (metis div_less unat_eq_zero)
    moreover have "unat (v div 10) < 10 ^ i" using Suc.prems(2) u(1) by (simp add: less_mult_imp_div_less mult.commute)
    ultimately show ?thesis
      using Suc.prems(1) Suc.IH [OF False] u(1) d by (simp add: itoa_loop.simps [of v] dec_digits.simps [of "unat v"])
  qed
qed

text \<open>
  The hand-written number printer agrees with ordinary decimal notation for every 64-bit
  value, and its buffer of twenty bytes is always long enough.
\<close>

theorem itoa_is_decimal: "itoa v = Some (dec_digits (unat v))"
proof (cases "v = 0")
  case True
  then show ?thesis by (simp add: itoa_def dec_digits.simps dec_digit_def char_of_def bit_0)
next
  case False
  have "unat v < 2 ^ 64" using unsigned_less [of v] by simp
  also have "\<dots> < 10 ^ 20" by simp
  finally show ?thesis using False itoa_loop_dec [of v 20 "[]"] by (simp add: itoa_def)
qed

section \<open>Runs\<close>

datatype mock_op =
    AdminCommand string "mockCommand option" | AdminCancel string string | Poll string bool
  | Tick string int "nat \<Rightarrow> bytes" nat | Results "bytes option" | Other string "bytes option"
  | Enrol "(string \<times> string) option" | Open "string option" "string option" string bool
  | MetricsBatch "64 word" | ReportsBatch ReportKind "(string \<times> bytes) list"

datatype mock_event =
    Queued string mockCommand | CancelQueued string string | HandedOut string "mockCommand list" "string list"
  | Enrolled string string | Stored "(string \<times> bytes) list"

fun mock_step :: "('priv \<Rightarrow> bytes \<Rightarrow> bytes) \<Rightarrow> (bytes \<Rightarrow> (string \<times> bytes) list) \<Rightarrow> mock_op \<Rightarrow> 'priv mock \<Rightarrow> (mock_event list \<times> 'priv mock) option" where
  "mock_step sign items (AdminCommand a req) s =
     (let (st, s') = adminCommandHandler a req s
      in Some (case req of None \<Rightarrow> [] | Some c \<Rightarrow> if st = 202 then [Queued a c] else [], s'))"
| "mock_step sign items (AdminCancel a i) s =
     (let (st, s') = adminCancelHandler a i s in Some (if st = 202 then [CancelQueued a i] else [], s'))"
| "mock_step sign items (Poll a late) s =
     (let (r, s') = commandsHandler a late s in Some (case r of None \<Rightarrow> [] | Some (cmds, cs) \<Rightarrow> [HandedOut a cmds cs], s'))"
| "mock_step sign items (Tick a now rnd sent) s =
     (let (_, _, s') = control_tick sign now rnd sent a s in Some ([HandedOut a (mk_cmdQueues s a) (mk_cancels s a)], s'))"
| "mock_step sign items (Results body) s =
     (let (st, s') = resultsHandler items body s in Some (case body of None \<Rightarrow> [] | Some d \<Rightarrow> [Stored (items d)], s'))"
| "mock_step sign items (Other kind body) s = Some ([], snd (mock_handler kind body s))"
| "mock_step sign items (Enrol req) s =
     (let (r, s') = registerHandler req s
      in Some (case (req, r) of (Some (e, _), AssetAnswer i) \<Rightarrow> [Enrolled e i] | _ \<Rightarrow> [], s'))"
| "mock_step sign items (Open hello cn clock sent) s = Some ([], snd (mock_control_open hello cn clock sent s))"
| "mock_step sign items (MetricsBatch seq) s = Some ([], snd (mock_metrics seq s))"
| "mock_step sign items (ReportsBatch kind its) s =
     map_option (\<lambda>(_, s'). (if kind = KindResults then [Stored its] else [], s')) (mock_reports kind its s)"

text \<open>A panic ends the process.\<close>

definition mock_run :: "('priv \<Rightarrow> bytes \<Rightarrow> bytes) \<Rightarrow> (bytes \<Rightarrow> (string \<times> bytes) list) \<Rightarrow> mock_op list \<Rightarrow> 'priv mock \<Rightarrow> mock_event list \<times> 'priv mock" where
  "mock_run sign items = run_ops (mock_step sign items)"

definition mg_queued :: "string \<Rightarrow> mock_event list \<Rightarrow> mockCommand list" where
  "mg_queued a evs = concat (map (\<lambda>e. case e of Queued b c \<Rightarrow> if b = a then [c] else [] | _ \<Rightarrow> []) evs)"

definition mg_handed :: "string \<Rightarrow> mock_event list \<Rightarrow> mockCommand list" where
  "mg_handed a evs = concat (map (\<lambda>e. case e of HandedOut b cs _ \<Rightarrow> if b = a then cs else [] | _ \<Rightarrow> []) evs)"

definition mg_cancels_queued :: "string \<Rightarrow> mock_event list \<Rightarrow> string list" where
  "mg_cancels_queued a evs = concat (map (\<lambda>e. case e of CancelQueued b c \<Rightarrow> if b = a then [c] else [] | _ \<Rightarrow> []) evs)"

definition mg_cancels_handed :: "string \<Rightarrow> mock_event list \<Rightarrow> string list" where
  "mg_cancels_handed a evs = concat (map (\<lambda>e. case e of HandedOut b _ cs \<Rightarrow> if b = a then cs else [] | _ \<Rightarrow> []) evs)"

definition mg_stored :: "mock_event list \<Rightarrow> (string \<times> bytes) list" where
  "mg_stored evs = concat (map (\<lambda>e. case e of Stored its \<Rightarrow> its | _ \<Rightarrow> []) evs)"

lemmas log_defs = mg_queued_def mg_handed_def mg_cancels_queued_def mg_cancels_handed_def mg_stored_def

lemma log_simps [simp]:
  "mg_queued a (es @ fs) = mg_queued a es @ mg_queued a fs" "mg_handed a (es @ fs) = mg_handed a es @ mg_handed a fs"
  "mg_cancels_queued a (es @ fs) = mg_cancels_queued a es @ mg_cancels_queued a fs" "mg_cancels_handed a (es @ fs) = mg_cancels_handed a es @ mg_cancels_handed a fs"
  "mg_stored (es @ fs) = mg_stored es @ mg_stored fs"
  "mg_queued a [] = []" "mg_handed a [] = []" "mg_cancels_queued a [] = []" "mg_cancels_handed a [] = []" "mg_stored [] = []"
  by (simp_all add: log_defs)

text \<open>What a step does to the queues, the results and the registry.\<close>

lemma mock_step_queues:
  assumes "mock_step sign items x s = Some (ev, s')"
  shows "mg_handed a ev @ mk_cmdQueues s' a = mk_cmdQueues s a @ mg_queued a ev" "mg_cancels_handed a ev @ mk_cancels s' a = mk_cancels s a @ mg_cancels_queued a ev"
  using assms
  by (cases x; auto simp: log_defs adminCommandHandler_def adminCancelHandler_def commandsHandler_def control_tick_def resultsHandler_def
      mock_handler_def bump_counter_def registerHandler_def mock_control_open_def mock_newSessionID_def mock_metrics_def mock_reports_def Let_def
      split: option.splits if_splits prod.splits)+

lemma store_results_append: "store_results (xs @ ys) m = store_results ys (store_results xs m)"
  by (simp add: store_results_def)

lemma mock_step_results:
  assumes "mock_step sign items x s = Some (ev, s')"
  shows "mk_results s' = store_results (mg_stored ev) (mk_results s)"
  using assms
  by (cases x; auto simp: mg_stored_def store_results_def adminCommandHandler_def adminCancelHandler_def commandsHandler_def control_tick_def
      resultsHandler_def mock_handler_def bump_counter_def registerHandler_def mock_control_open_def mock_newSessionID_def mock_metrics_def
      mock_reports_def Let_def split: option.splits if_splits prod.splits)

lemma digits_value_pad: "digits_value 0 (replicate k (CHR ''0'') @ d) = digits_value 0 d"
  by (induction k) (simp_all add: digit_value_def)

lemma pad6_inject: "pad6 m = pad6 n \<Longrightarrow> m = n"
  using digits_value_pad digits_value_dec unfolding pad6_def Let_def by (metis option.inject)

definition registry_ok :: "'priv mock \<Rightarrow> bool" where
  "registry_ok s \<longleftrightarrow> distinct (map fst (mk_registry s)) \<and>
     map snd (mk_registry s) = map (\<lambda>n. ''a-mock-'' @ pad6 (n + 1)) [0..<length (mk_registry s)]"

lemma registry_ok_distinct: "registry_ok s \<Longrightarrow> distinct (map snd (mk_registry s))"
  unfolding registry_ok_def by (auto simp: distinct_map inj_on_def dest: pad6_inject)

lemma registerHandler_registry:
  assumes "registerHandler req s = (r, s')" "registry_ok s"
  shows "registry_ok s' \<and> map_of (mk_registry s) \<subseteq>\<^sub>m map_of (mk_registry s') \<and>
    (\<forall>e t i. req = Some (e, t) \<and> r = AssetAnswer i \<longrightarrow> map_of (mk_registry s') e = Some i)"
proof (cases "\<exists>e t. req = Some (e, t) \<and> t \<noteq> [] \<and> map_of (mk_registry s) e = None")
  case True
  then obtain e t where q: "req = Some (e, t)" "t \<noteq> []" "map_of (mk_registry s) e = None" by blast
  let ?i = "''a-mock-'' @ pad6 (length (mk_registry s) + 1)"
  have e: "r = AssetAnswer ?i" "s' = s\<lparr>mk_registry := mk_registry s @ [(e, ?i)]\<rparr>"
    using assms(1) q by (auto simp: registerHandler_def Let_def)
  have "e \<notin> fst ` set (mk_registry s)" using q(3) by (simp add: map_of_eq_None_iff)
  then show ?thesis using assms(2) q by (auto simp: e registry_ok_def map_le_def map_add_Some_iff)
next
  case False
  then have "s' = s" "\<forall>e t i. req = Some (e, t) \<and> r = AssetAnswer i \<longrightarrow> map_of (mk_registry s) e = Some i"
    using assms(1) by (auto simp: registerHandler_def Let_def split: option.splits if_splits prod.splits)
  then show ?thesis using assms(2) by simp
qed

lemma mock_step_registry:
  assumes "mock_step sign items x s = Some (ev, s')" "registry_ok s"
  shows "registry_ok s'" "map_of (mk_registry s) \<subseteq>\<^sub>m map_of (mk_registry s')" "Enrolled e i \<in> set ev \<Longrightarrow> map_of (mk_registry s') e = Some i"
proof -
  have "registry_ok s' \<and> map_of (mk_registry s) \<subseteq>\<^sub>m map_of (mk_registry s') \<and> (\<forall>e i. Enrolled e i \<in> set ev \<longrightarrow> map_of (mk_registry s') e = Some i)"
  proof (cases "\<exists>req. x = Enrol req")
    case True
    then obtain req where x: "x = Enrol req" by blast
    obtain r t where r: "registerHandler req s = (r, t)" by (cases "registerHandler req s")
    with assms(1) x have "t = s'" "ev = (case (req, r) of (Some (e, _), AssetAnswer i) \<Rightarrow> [Enrolled e i] | _ \<Rightarrow> [])" by simp_all
    with registerHandler_registry [OF r assms(2)] show ?thesis by (cases r; cases req) auto
  next
    case False
    then have "mk_registry s' = mk_registry s \<and> (\<forall>e i. Enrolled e i \<notin> set ev)"
      using assms(1)
      by (cases x; auto simp: adminCommandHandler_def adminCancelHandler_def commandsHandler_def control_tick_def resultsHandler_def
          mock_handler_def bump_counter_def mock_control_open_def mock_newSessionID_def mock_metrics_def mock_reports_def Let_def
          split: option.splits if_splits prod.splits)
    then show ?thesis using assms(2) by (simp add: registry_ok_def)
  qed
  then show "registry_ok s'" "map_of (mk_registry s) \<subseteq>\<^sub>m map_of (mk_registry s')" "Enrolled e i \<in> set ev \<Longrightarrow> map_of (mk_registry s') e = Some i"
    by blast+
qed

interpretation mock_commands: conserving_queue "mock_step sign items" "\<lambda>s. mk_cmdQueues s a" "mg_queued a" "mg_handed a" for sign items a
  by unfold_locales (simp_all add: mock_step_queues)

interpretation mock_cancels: conserving_queue "mock_step sign items" "\<lambda>s. mk_cancels s a" "mg_cancels_queued a" "mg_cancels_handed a" for sign items a
  by unfold_locales (simp_all add: mock_step_queues)

interpretation mock_result_table: event_fold "mock_step sign items" mk_results "\<lambda>evs. store_results (mg_stored evs)" for sign items
  by unfold_locales (simp_all add: store_results_append mock_step_results, simp add: store_results_def)

definition enrolled_fact :: "mock_event \<Rightarrow> 'priv mock \<Rightarrow> bool" where
  "enrolled_fact e s \<longleftrightarrow> (case e of Enrolled x i \<Rightarrow> map_of (mk_registry s) x = Some i | _ \<Rightarrow> True)"

interpretation mock_registry: event_invariant "mock_step sign items" registry_ok enrolled_fact for sign items
proof unfold_locales
  fix x ev e and s s' :: "'a mock"
  assume st: "mock_step sign items x s = Some (ev, s')" and inv: "registry_ok s"
  note S = mock_step_registry [OF st inv]
  show "registry_ok s'" by (rule S)
  show "enrolled_fact e s'" if "e \<in> set ev" using that S(3) by (auto simp: enrolled_fact_def split: mock_event.splits)
  show "enrolled_fact e s'" if "enrolled_fact e s" using that S(2) by (auto simp: enrolled_fact_def map_le_def dom_def split: mock_event.splits)
qed



text \<open>A report of an unspecified kind ends the gateway's process.\<close>

lemma unknown_kind_panics: "mock_reports (KindOther n) items (mock_init key) = None"
  by (simp add: mock_reports_def mock_kindName_def mock_init_def)

section \<open>An agent in HTTP mode\<close>

text \<open>The gateway behind the HTTP sink; \<open>gunzip\<close> decompresses a body.\<close>

definition mock_http :: "(bytes \<Rightarrow> bytes option) \<Rightarrow> (bytes \<Rightarrow> (string \<times> bytes) list) \<Rightarrow> string \<Rightarrow> bytes \<Rightarrow> 'priv mock \<Rightarrow> nat \<times> 'priv mock" where
  "mock_http gunzip items path body s =
     (if path = ''/v1/results'' then resultsHandler items (gunzip body) s
      else if path \<in> {''/v1/metrics'', ''/v1/audit'', ''/v1/inventory''} then mock_handler (drop 4 path) (gunzip body) s
      else (404, s))"

text \<open>
  A batch of results that an agent in HTTP mode sends to the gateway is accepted, and
  the admin interface then returns the payload of every item. Compression and the JSON
  encoding of a batch are reversible; the items have different ids.
\<close>

theorem http_result_reaches_admin:
  assumes "\<And>p. gunzip (gzip p) = Some p" "marshal b = Some d" "items d = map (\<lambda>it. (it_ID it, it_Payload it)) (rb_Items b)"
    and "rb_Kind b = QueueResults" "it \<in> set (rb_Items b)" "distinct (map it_ID (rb_Items b))"
    and "s' = snd (mock_http gunzip items ''/v1/results'' (gzip d) s)"
  shows "http_SendReliable marshal gzip (\<lambda>url body. Some (fst (mock_http gunzip items url body s))) [] b = Sent \<and>
    adminResultHandler (it_ID it) s' = (200, Some (it_Payload it))"
proof -
  have "mk_results s' = store_results (map (\<lambda>it. (it_ID it, it_Payload it)) (rb_Items b)) (mk_results s)"
    by (simp add: assms(1,3,7) mock_http_def resultsHandler_def bump_counter_def)
  moreover have "store_results (map (\<lambda>it. (it_ID it, it_Payload it)) xs) m (it_ID it) = Some (it_Payload it)"
    if "it \<in> set xs" "distinct (map it_ID xs)" for xs m
    using that
  proof (induction xs rule: rev_induct)
    case (snoc x xs)
    then have "x \<noteq> it \<Longrightarrow> it_ID it \<noteq> it_ID x" by (auto, metis image_eqI)
    with snoc show ?case by (cases "x = it") (auto simp: store_results_def)
  qed simp
  ultimately have "adminResultHandler (it_ID it) s' = (200, Some (it_Payload it))" using assms(5,6) by (simp add: adminResultHandler_def)
  then show ?thesis
    by (simp add: http_SendReliable_def http_post_def assms(1,2,4) kind_name_def mock_http_def resultsHandler_def Let_def)
qed

theorem http_result_reaches_admin_witness:
  "let it = \<lparr>it_ID = ''c1'', it_Kind = QueueResults, it_CreatedAt = 0, it_Payload = [1, 2]\<rparr>;
       b = \<lparr>rb_AssetID = ''a'', rb_Kind = QueueResults, rb_SentAt = 0, rb_Items = [it]\<rparr>;
       items = (\<lambda>_. [(''c1'', [1, 2])])
   in adminResultHandler ''c1'' (snd (mock_http Some items ''/v1/results'' [9] (mock_init (None :: unit option)))) = (200, Some [1, 2])"
proof -
  let ?it = "\<lparr>it_ID = ''c1'', it_Kind = QueueResults, it_CreatedAt = 0, it_Payload = [1, 2]\<rparr>"
  let ?b = "\<lparr>rb_AssetID = ''a'', rb_Kind = QueueResults, rb_SentAt = 0, rb_Items = [?it]\<rparr>"
  show ?thesis
    using http_result_reaches_admin [where gunzip = Some and gzip = "\<lambda>p. p" and marshal = "\<lambda>_. Some [9]" and b = ?b and d = "[9]"
        and items = "\<lambda>_. [(''c1'', [1, 2])]" and it = ?it and s = "mock_init (None :: unit option)"
        and s' = "snd (mock_http Some (\<lambda>_. [(''c1'', [1, 2])]) ''/v1/results'' [9] (mock_init (None :: unit option)))"]
    by simp
qed

end
