(* ===== verification/Programs.thy ===== *)
theory Programs
  imports Agent_Main Watchdog Connector_Main Metrics_Bridge Mock_Gateway Console Uplink_Session
begin

text \<open>
  The \<^verbatim>\<open>main\<close> functions around the parts modelled elsewhere: the life of the agent's process
  (\<^verbatim>\<open>cmd/agent\<close>), and how the console, the metrics bridge and the test gateway are set up from
  their flags. Flags, the environment and what the operating system answers are arguments.
\<close>

section \<open>The agent's process\<close>

datatype agent_signal = SIGTERM | SIGINT | SIGHUP

text \<open>The signal loop: \<^verbatim>\<open>SIGHUP\<close> is only logged; \<open>None\<close>: it still waits.\<close>

fun await_shutdown :: "agent_signal list \<Rightarrow> agent_signal option" where
  "await_shutdown [] = None"
| "await_shutdown (s # ss) = (if s = SIGHUP then await_shutdown ss else Some s)"

record agent_env =
  ae_file :: file_read
  ae_yaml :: "bytes \<Rightarrow> Config \<Rightarrow> Config option"
  ae_starts :: "string \<Rightarrow> bool"
  ae_sock :: string
  ae_usec :: string
  ae_duration :: "string \<Rightarrow> int option"
  ae_reachable :: bool
  ae_nano :: nat
  ae_now :: int
  ae_event :: "string \<Rightarrow> bytes option"
  ae_marshal :: "ReliableItem \<Rightarrow> bytes option"
  ae_fault :: wal_fault
  ae_signals :: "agent_signal list"
  ae_ended :: nat

record ('pub, 'k, 's, 'ca, 'cert) agent_process =
  pr_agent :: "('pub, 'k, 's, 'ca, 'cert) agent"
  pr_ready :: notified
  pr_heartbeat :: "int option"
  pr_startEvent :: "rep_error option"

datatype ('pub, 'k, 's, 'ca, 'cert) agent_outcome =
    ShownVersion string
  | ConfigFailed config_error
  | InitFailed agent_failure
  | StartFailed string
  | Serving "('pub, 'k, 's, 'ca, 'cert) agent_process"
  | Ended stopped "('pub, 'k, 's, 'ca, 'cert) agent_process"

definition agent_buildTime :: string where
  "agent_buildTime = ''unknown''"

definition agent_program ::
  "bool \<Rightarrow> agent_env \<Rightarrow> ('pub, 'k, 's, 'ca, 'cert) agent_world \<Rightarrow> ('pub, 'k, 's, 'ca, 'cert) agent_outcome" where
  "agent_program showVersion en w =
     (if showVersion then ShownVersion (''tom_ai_agent '' @ agent_version @ '' (built '' @ agent_buildTime @ '')'')
      else case Load (ae_yaml en) (ae_file en) of Inl e \<Rightarrow> ConfigFailed e | Inr cfg \<Rightarrow>
      (case agent_main w cfg of Inl e \<Rightarrow> InitFailed e | Inr a \<Rightarrow>
      (case app_Start (ae_starts en) (ag_app a) of
         (Some m, _, _) \<Rightarrow> StartFailed m
       | (None, _, app) \<Rightarrow>
           (let ready = sdNotify (ae_reachable en) (ae_sock en) ''READY=1'';
                heartbeat = StartWatchdog (ae_duration en) (ae_sock en) (ae_usec en);
                (err, rep) = SubmitReliable (ae_marshal en) (ae_fault en) (ae_now en) (ag_rep a) QueueAudit
                  (''agent.start-'' @ dec_digits (ae_nano en)) (ae_event en agent_version);
                p = \<lparr>pr_agent = a\<lparr>ag_rep := rep, ag_app := app\<rparr>, pr_ready = ready, pr_heartbeat = heartbeat, pr_startEvent = err\<rparr>
            in case await_shutdown (ae_signals en) of
                 None \<Rightarrow> Serving p
               | Some _ \<Rightarrow>
                   (let (st, app) = app_Stop (ae_ended en) app
                    in Ended st (p\<lparr>pr_agent := (pr_agent p)\<lparr>ag_app := app\<rparr>\<rparr>))))))"

section \<open>The console\<close>

record console_flags =
  cl_dsn :: string
  cl_connectorAdmin :: string
  cl_sessionTTL :: int

datatype console_failure = DsnRequired | OpenFailed

text \<open>\<^verbatim>\<open>OpenStore\<close>: \<open>driver\<close> opens a handle, \<open>ping\<close> looks for the database behind it and its tables.\<close>

definition iam_OpenStore :: "(string \<Rightarrow> 'db option) \<Rightarrow> ('db \<Rightarrow> IamStore option) \<Rightarrow> string \<Rightarrow> IamStore option" where
  "iam_OpenStore driver ping dsn = (case driver dsn of None \<Rightarrow> None | Some db \<Rightarrow> ping db)"

definition console_main ::
  "(string \<Rightarrow> 'db option) \<Rightarrow> ('db \<Rightarrow> IamStore option) \<Rightarrow> console_flags \<Rightarrow> console_failure + api \<times> IamStore" where
  "console_main driver ping f =
     (if cl_dsn f = [] then Inl DsnRequired
      else case iam_OpenStore driver ping (cl_dsn f) of
        None \<Rightarrow> Inl OpenFailed
      | Some st \<Rightarrow> Inr (\<lparr>ap_connectorAdmin = go_TrimRight (\<lambda>c. c = CHR ''/'') (cl_connectorAdmin f), ap_sessionTTL = cl_sessionTTL f\<rparr>, st))"

section \<open>The metrics bridge\<close>

record bridge_client =
  kc_seeds :: "string list"
  kc_group :: string
  kc_topic :: string
  kc_autoCommit :: bool

definition bridge_main :: "(bridge_client \<Rightarrow> bool) \<Rightarrow> string \<Rightarrow> string \<Rightarrow> string \<Rightarrow> string \<Rightarrow> (bridge_client \<times> string) option" where
  "bridge_main connects brokers topic grp vmURL =
     (let c = \<lparr>kc_seeds = go_Split (CHR '','') brokers, kc_group = grp, kc_topic = topic, kc_autoCommit = False\<rparr>
      in if connects c then Some (c, go_TrimRight (\<lambda>c. c = CHR ''/'') vmURL @ ''/api/v1/import'') else None)"

section \<open>The test gateway\<close>

record mock_flags =
  mf_tlsCA :: string
  mf_tlsCert :: string
  mf_tlsKey :: string
  mf_signKey :: string

datatype mock_failure = SignKeyFailed key_error | GrpcListenFailed | MtlsFailed

definition mock_serverMTLS ::
  "(string \<Rightarrow> bytes option) \<Rightarrow> (bytes \<Rightarrow> 'pool option) \<Rightarrow> (string \<Rightarrow> string \<Rightarrow> 'pair option) \<Rightarrow> string \<Rightarrow> string \<Rightarrow> string \<Rightarrow>
   ('pair, 'pool) server_tls option" where
  "mock_serverMTLS rd certs keypair caFile certFile keyFile =
     Option.bind (rd caFile) (\<lambda>caPEM. Option.bind (certs caPEM) (\<lambda>pool.
       map_option (\<lambda>cert. \<lparr>tl_Certificate = cert, tl_ClientCAs = Some pool, tl_ClientAuth = RequireAndVerifyClientCert\<rparr>)
         (keypair certFile keyFile)))"

text \<open>The gateway's tables and the transport of its gRPC port: \<open>None\<close> is plain text.\<close>

definition mock_main ::
  "('priv, 'cert, 'pair, 'pool) connector_world \<Rightarrow> string \<Rightarrow> mock_flags \<Rightarrow> mock_failure + 'priv mock \<times> ('pair, 'pool) server_tls option" where
  "mock_main w grpcAddr f =
     (let start = (\<lambda>key.
        if \<not> cw_listen w grpcAddr then Inl GrpcListenFailed
        else if mf_tlsCA f = [] then Inr (mock_init key, None)
        else (case mock_serverMTLS (cw_read w) (cw_certs w) (cw_keypair w) (mf_tlsCA f) (mf_tlsCert f) (mf_tlsKey f) of
                None \<Rightarrow> Inl MtlsFailed
              | Some tls \<Rightarrow> Inr (mock_init key, Some tls)))
      in if mf_signKey f = [] then start None
         else (case LoadPrivateKeyPEM (cw_read w) (cw_pem w) (cw_pkcs8 w) (mf_signKey f) of
                 Inl e \<Rightarrow> Inl (SignKeyFailed e)
               | Inr k \<Rightarrow> start (Some k)))"

section \<open>The connectivity probe\<close>

record probe_flags =
  pf_ca :: string
  pf_cert :: string
  pf_key :: string
  pf_serverName :: string
  pf_asset :: string

datatype probe_result = ProbeFatal | ProbeNoWelcome | ProbeOK string "64 word" int

definition probe_hello :: "string \<Rightarrow> SentHello" where
  "probe_hello asset = \<lparr>h_AssetId = asset, h_AgentVersion = ''probe-0'', h_CatalogVersion = [], h_BootId = ''probe'', h_ProtoMin = 0, h_ProtoMax = 0\<rparr>"

text \<open>
  \<open>certs\<close> gives the authorities in a PEM file, none for an unusable one, which the probe does not
  notice; \<open>exchange\<close> dials, opens the control stream, sends the greeting and receives one frame.
\<close>

definition mtlsprobe ::
  "(string \<Rightarrow> bytes option) \<Rightarrow> (bytes \<Rightarrow> 'pool) \<Rightarrow> (string \<Rightarrow> string \<Rightarrow> 'pair option) \<Rightarrow>
   ('pool \<Rightarrow> 'pair \<Rightarrow> string \<Rightarrow> SentHello \<Rightarrow> gw_frame option) \<Rightarrow> probe_flags \<Rightarrow> probe_result" where
  "mtlsprobe rd certs keypair exchange f =
     (case rd (pf_ca f) of None \<Rightarrow> ProbeFatal | Some caPEM \<Rightarrow>
     (case keypair (pf_cert f) (pf_key f) of None \<Rightarrow> ProbeFatal | Some c \<Rightarrow>
     (case exchange (certs caPEM) c (pf_serverName f) (probe_hello (pf_asset f)) of
        None \<Rightarrow> ProbeFatal
      | Some (WelcomeFrame sid epoch t _) \<Rightarrow> ProbeOK sid epoch t
      | Some _ \<Rightarrow> ProbeNoWelcome)))"

text \<open>The exchange with a connector: \<open>cn\<close> is the name in a certificate, \<open>trusts\<close> whether both sides accept the other's.\<close>

definition connector_exchange ::
  "('pair \<Rightarrow> string) \<Rightarrow> ('pool \<Rightarrow> 'pair \<Rightarrow> string \<Rightarrow> bool) \<Rightarrow> int \<Rightarrow> int \<Rightarrow> int \<Rightarrow> string \<Rightarrow> 'priv Server \<Rightarrow>
   'pool \<Rightarrow> 'pair \<Rightarrow> string \<Rightarrow> SentHello \<Rightarrow> gw_frame option" where
  "connector_exchange cn trusts n1 n2 n3 sid srv pool c serverName h =
     (if \<not> trusts pool c serverName then None
      else case control_open n1 n2 n3 True sid (Some (cn c)) (FirstHello (AgentHello.truncate h)) srv of
        Some (Inr (_, f), _) \<Rightarrow> Some f
      | _ \<Rightarrow> None)"

section \<open>The life of the agent's process\<close>

lemma await_shutdown_None: "await_shutdown ss = None \<longleftrightarrow> set ss \<subseteq> {SIGHUP}"
  by (induction ss) auto

lemma start_modules_all: "start_modules ok ms = (st, None) \<Longrightarrow> st = ms \<and> (\<forall>m \<in> set ms. ok m)"
  by (induction ok ms arbitrary: st rule: start_modules.induct) (auto simp: Let_def split: if_splits prod.splits)

text \<open>No module registers its goroutines with the group.\<close>

lemma agent_main_wg: "agent_main w cfg = Inr a \<Longrightarrow> ap_wg (ag_app a) = 0"
  by (auto simp: agent_main_def app_Add_def app_New_def Let_def split: sum.splits option.splits if_splits)

lemma SubmitReliable_recorded:
  assumes "SubmitReliable marshal fault now r kind i raw = (None, r')"
  shows "\<exists>payload d wal. raw = Some payload \<and> marshal \<lparr>it_ID = i, it_Kind = kind, it_CreatedAt = now, it_Payload = payload\<rparr> = Some d \<and>
    rp_wals r kind = Some wal \<and> rp_wals r' kind = Some (snd (wal_Append fault wal d)) \<and> fst (wal_Append fault wal d) = None"
  using assms by (auto simp: SubmitReliable_def case_prod_unfold Let_def split: option.splits)

text \<open>A process that got to the signal loop.\<close>

lemma agent_programE:
  assumes "agent_program sv en w = Serving p \<or> agent_program sv en w = Ended st p"
  obtains cfg a app err rep where "\<not> sv" "Load (ae_yaml en) (ae_file en) = Inr cfg" "agent_main w cfg = Inr a"
    "app_Start (ae_starts en) (ag_app a) = (None, ap_modules (ag_app a), app)"
    "SubmitReliable (ae_marshal en) (ae_fault en) (ae_now en) (ag_rep a) QueueAudit (''agent.start-'' @ dec_digits (ae_nano en))
       (ae_event en agent_version) = (err, rep)"
    "pr_ready p = sdNotify (ae_reachable en) (ae_sock en) ''READY=1''" "pr_startEvent p = err" "ag_rep (pr_agent p) = rep"
    "\<forall>m \<in> set (ap_modules (ag_app a)). ae_starts en m"
    "await_shutdown (ae_signals en) = None \<and> agent_program sv en w = Serving p \<and> ag_app (pr_agent p) = app \<or>
     await_shutdown (ae_signals en) \<noteq> None \<and> agent_program sv en w = Ended st p \<and> (st, ag_app (pr_agent p)) = app_Stop (ae_ended en) app"
proof -
  from assms have sv: "\<not> sv" by (auto simp: agent_program_def)
  with assms obtain cfg where cfg: "Load (ae_yaml en) (ae_file en) = Inr cfg" by (auto simp: agent_program_def split: sum.splits)
  with assms sv obtain a where a: "agent_main w cfg = Inr a" by (auto simp: agent_program_def split: sum.splits)
  obtain f st' app where s: "app_Start (ae_starts en) (ag_app a) = (f, st', app)" by (cases "app_Start (ae_starts en) (ag_app a)")
  with assms sv cfg a have f: "f = None" by (cases f) (auto simp: agent_program_def)
  have st': "st' = ap_modules (ag_app a)" "\<forall>m \<in> set (ap_modules (ag_app a)). ae_starts en m"
    using s f start_modules_all [of "ae_starts en" "ap_modules (ag_app a)"]
    by (auto simp: app_Start_def Let_def split: prod.splits)
  obtain err rep where r: "SubmitReliable (ae_marshal en) (ae_fault en) (ae_now en) (ag_rep a) QueueAudit
      (''agent.start-'' @ dec_digits (ae_nano en)) (ae_event en agent_version) = (err, rep)" by fastforce
  show thesis
    by (rule that [OF sv cfg a s [unfolded f st'(1)] r]) (use assms sv cfg a s f st' r in
      \<open>auto simp: agent_program_def Let_def split: option.splits prod.splits\<close>)
qed


lemma start_modules_ok: "start_modules (\<lambda>_. True) ms = (ms, None)"
  by (induction ms) auto

text \<open>Without a configuration file, under a service manager, hung up once and then terminated.\<close>

definition sample_env :: agent_env where
  "sample_env = \<lparr>ae_file = FileMissing, ae_yaml = (\<lambda>_. Some), ae_starts = (\<lambda>_. True), ae_sock = ''/run/n'', ae_usec = [], ae_duration = (\<lambda>_. None),
     ae_reachable = True, ae_nano = 7, ae_now = 0, ae_event = (\<lambda>_. Some []), ae_marshal = (\<lambda>_. Some []), ae_fault = NoFault,
     ae_signals = [SIGHUP, SIGTERM], ae_ended = 0\<rparr>"


section \<open>The test gateway follows its flags\<close>

text \<open>
  The test gateway signs with the key of its flag, exactly when there is one, and a gateway with an authority
  verifies its clients' certificates.
\<close>

lemma mock_main_flags:
  assumes "mock_main w addr f = Inr (s, tls)"
  shows "(mf_signKey f = [] \<longleftrightarrow> mk_signerKey s = None) \<and> (mf_tlsCA f = [] \<longleftrightarrow> tls = None) \<and>
    (\<forall>t. tls = Some t \<longrightarrow> tl_ClientAuth t = RequireAndVerifyClientCert)"
  using assms
  by (auto simp: mock_main_def mock_init_def mock_serverMTLS_def bind_eq_Some_conv Let_def split: if_splits sum.splits option.splits)

text \<open>The test gateway's transport is the connector's.\<close>

lemma mock_serverMTLS_agrees: "mock_serverMTLS = serverMTLS"
  by (intro ext) (simp add: mock_serverMTLS_def serverMTLS_def split: option.splits)

text \<open>A set-up bridge never commits on its own, and posts to the import path of the store.\<close>

lemma bridge_main_manual:
  "bridge_main connects brokers topic grp (u @ ''/'') = bridge_main connects brokers topic grp u \<and>
   (bridge_main connects brokers topic grp u = Some (c, url) \<longrightarrow> \<not> kc_autoCommit c \<and> connects c)"
  by (auto simp: bridge_main_def go_TrimRight_def Let_def split: if_splits)

section \<open>The poller against the test gateway\<close>

text \<open>A command of the gateway as the agent decodes it.\<close>

definition command_of_mock :: "mockCommand \<Rightarrow> Command" where
  "command_of_mock c = \<lparr>c_CmdID = mo_CmdID c, c_Action = mo_Action c, c_Params = mo_Params c, c_TimeoutSec = mo_TimeoutSec c\<rparr>"

lemma poll_cancels_queue: "e_queue (poll_cancels e is) = e_queue e"
  by (induction e "is" rule: poll_cancels.induct) (auto simp: Cancel_def split: option.splits)

text \<open>
  The agent in HTTP mode against the test gateway. What the gateway's long poll hands
  out for an asset was all that waited, and is gone from its tables; given to the agent's poller, every
  command is queued in the executor, in the gateway's order, or reported back as rejected,
  and none of them twice.
\<close>

theorem polled_commands_accounted:
  assumes "commandsHandler a late s = (Some (cmds, cancels), s')" "a \<noteq> []"
    and "poll_turn now a (poller_poll (Some (200, Some (map command_of_mock cmds, cancels)))) backoff e = (rs, backoff', e')"
  shows "cmds = mk_cmdQueues s a \<and> cancels = mk_cancels s a \<and> mk_cmdQueues s' a = [] \<and> mk_cancels s' a = [] \<and> backoff' = poll_interval \<and>
    (\<exists>qs. e_queue e' = e_queue e @ qs \<and> subseq qs (map command_of_mock cmds) \<and>
       image_mset c_CmdID (mset qs) + image_mset r_CmdID (mset rs) = image_mset mo_CmdID (mset cmds)) \<and>
    (\<forall>r \<in> set rs. r_Status r \<in> {''REJECTED_POLICY'', ''REJECTED_BUSY''})"
proof -
  have handed: "cmds = mk_cmdQueues s a" "cancels = mk_cancels s a" "mk_cmdQueues s' a = []" "mk_cancels s' a = []"
    using assms(1) by (auto simp: commandsHandler_def Let_def split: if_splits)
  have turn: "poll_commands now (poll_cancels e cancels) (map command_of_mock cmds) = (rs, e')" "backoff' = poll_interval"
    using assms(2,3) by (auto simp: poll_turn_def poller_poll_def split: prod.splits)
  have ids: "image_mset c_CmdID (mset (map command_of_mock cmds)) = image_mset mo_CmdID (mset cmds)"
    by (simp add: image_mset.compositionality comp_def command_of_mock_def)
  from poll_commands_accounted [OF turn(1)] handed turn(2) show ?thesis
    unfolding ids poll_cancels_queue by blast
qed

definition sample_mock :: "unit mock" where
  "sample_mock = (mock_init None)\<lparr>mk_cmdQueues := (\<lambda>_. [])(''h'' :=
     [\<lparr>mo_CmdID = ''c1'', mo_Action = ''nope'', mo_Params = [], mo_TimeoutSec = 5\<rparr>])\<rparr>"

theorem polled_commands_accounted_witness:
  "\<exists>rs (e' :: unit Engine). poll_turn 0 ''h'' (poller_poll (Some (200, Some (map command_of_mock (mk_cmdQueues sample_mock ''h''), mk_cancels sample_mock ''h''))))
       7 (NewEngine sample_conf None sample_hooks) = (rs, poll_interval, e') \<and> length (e_queue e') + length rs = 1"
proof -
  let ?e = "NewEngine sample_conf None sample_hooks :: unit Engine"
  let ?resp = "poller_poll (Some (200, Some (map command_of_mock (mk_cmdQueues sample_mock ''h''), mk_cancels sample_mock ''h'')))"
  obtain s' where h: "commandsHandler ''h'' False sample_mock = (Some (mk_cmdQueues sample_mock ''h'', mk_cancels sample_mock ''h''), s')"
    by (simp add: commandsHandler_def sample_mock_def Let_def)
  obtain rs b e' where t: "poll_turn 0 ''h'' ?resp 7 ?e = (rs, b, e')" by (cases "poll_turn 0 ''h'' ?resp 7 ?e")
  from polled_commands_accounted [OF h _ t] obtain qs where b: "b = poll_interval" and q: "e_queue e' = e_queue ?e @ qs" and
    m: "image_mset c_CmdID (mset qs) + image_mset r_CmdID (mset rs) = image_mset mo_CmdID (mset (mk_cmdQueues sample_mock ''h''))"
    by auto
  from arg_cong [OF m, of size] have "length qs + length rs = 1" by (simp add: sample_mock_def)
  with t b q show ?thesis by (simp add: NewEngine_def)
qed

section \<open>What the probe tells\<close>

lemma control_open_admits:
  assumes "reg_reach (sv_sessions srv)"
  shows "\<exists>srv'. control_open n1 n2 n3 True sid (Some (h_AssetId h)) (FirstHello h) srv =
    Some (Inr (length (sr_heap (sv_sessions srv)), WelcomeFrame sid (sr_epochSeq (sv_sessions srv) + 1) n3 15), srv')"
  using Register_total [OF reg_reach_ok [OF assms], of n1 n2 "h_AssetId h" sid "h_AgentVersion h" "h_CatalogVersion h"]
  by (auto simp: control_open_def emit_def Let_def split: option.splits)

lemma control_open_refuses: "cn \<noteq> h_AssetId h \<Longrightarrow> \<exists>e srv'. control_open n1 n2 n3 True sid (Some cn) (FirstHello h) srv = Some (Inl e, srv')"
  by (simp add: control_open_def)

text \<open>
  The probe succeeds exactly when its files can be read, both sides trust each other and the
  certificate names the asset it claims; it then prints the session and the epoch the
  connector gave it. A certificate of another asset is reported as a failure.
\<close>

theorem probe_reports_admission:
  assumes "reg_reach (sv_sessions srv)" "rd (pf_ca f) = Some pem"
  shows "mtlsprobe rd certs keypair (connector_exchange cn trusts n1 n2 n3 sid srv) f =
    (case keypair (pf_cert f) (pf_key f) of
       None \<Rightarrow> ProbeFatal
     | Some c \<Rightarrow> if trusts (certs pem) c (pf_serverName f) \<and> cn c = pf_asset f
                 then ProbeOK sid (sr_epochSeq (sv_sessions srv) + 1) n3 else ProbeFatal)"
proof (cases "keypair (pf_cert f) (pf_key f)")
  case (Some c)
  let ?h = "AgentHello.truncate (probe_hello (pf_asset f))"
  have "h_AssetId ?h = pf_asset f" by (simp add: probe_hello_def AgentHello.defs)
  with control_open_admits [OF assms(1), of n1 n2 n3 sid ?h] control_open_refuses [of "cn c" ?h n1 n2 n3 sid srv] Some assms(2)
  show ?thesis by (cases "cn c = pf_asset f") (auto simp: mtlsprobe_def connector_exchange_def)
qed (simp add: mtlsprobe_def assms(2))

theorem probe_reports_admission_witness:
  "mtlsprobe (\<lambda>_. Some []) (\<lambda>_. ()) (\<lambda>c k. Some c) (connector_exchange id (\<lambda>_ _ _. True) 1 2 3 ''s-1'' (NewServer (None :: unit option)))
     \<lparr>pf_ca = ''ca'', pf_cert = ''a-1'', pf_key = ''k'', pf_serverName = ''s'', pf_asset = ''a-1''\<rparr> = ProbeOK ''s-1'' 1 3"
proof -
  have "reg_reach (sv_sessions (NewServer (None :: unit option)))" by (simp add: NewServer_def reg_new)
  then show ?thesis by (subst probe_reports_admission [where pem = "[]"]) (simp_all add: NewServer_def NewSessionRegistry_def)
qed

end
