(* ===== verification/Devca.thy ===== *)
theory Devca
  imports Host_Text
begin

text \<open>
  \<^verbatim>\<open>tools/devca\<close>: the certificate authority of the development set-up. Keys are opaque (\<open>'k\<close>, the
  public key by \<open>pub\<close>); X.509 signing, key encoding and PEM are parameters, clocks, random
  bytes and failing system calls inputs. A file is its content and its permissions; the
  process's umask is not modelled.
\<close>

section \<open>Data\<close>

datatype key_usage = DigitalSignature | CertSign | CRLSign

datatype ext_usage = ServerAuth | ClientAuth

record ca_template =
  ct_Serial :: bytes
  ct_CommonName :: string
  ct_NotBefore :: int
  ct_NotAfter :: int
  ct_Organization :: string
  ct_IsCA :: bool
  ct_KeyUsage :: "key_usage list"
  ct_ExtKeyUsage :: "ext_usage list"
  ct_DNSNames :: "string list"
  ct_IPAddresses :: "string list"

datatype ca_error = IOFailed | KeyGenFailed | SignFailed | NoCA | BadCACert | BadCAKey | SansRequired | CNRequired | Usage | UnknownCommand string

text \<open>The outcome of a run: success, an error that ends the program, or a panic.\<close>

datatype ca_outcome = Success | Failed ca_error | Panic

type_synonym dirfiles = "string \<rightharpoonup> bytes \<times> nat"

text \<open>Writing creates a file with the given permissions or truncates the one that exists.\<close>

definition write_file :: "string \<Rightarrow> bytes \<Rightarrow> nat \<Rightarrow> dirfiles \<Rightarrow> dirfiles" where
  "write_file name data perm fs = fs(name \<mapsto> (data, case fs name of None \<Rightarrow> perm | Some (_, p) \<Rightarrow> p))"

text \<open>
  The world of one run: the key that is drawn, the number of files that can be written, the
  clock, the date arithmetic and the encoders.
\<close>

record ('k, 'c) ca_world =
  ca_mkdir :: bool
  ca_key :: "'k option"
  ca_writes :: nat
  ca_now :: int
  ca_addDate :: "int \<Rightarrow> int \<Rightarrow> int \<Rightarrow> int"
  ca_serial :: bytes
  ca_sign :: "ca_template \<Rightarrow> 'c option \<Rightarrow> 'k \<Rightarrow> 'k \<Rightarrow> bytes option"
  ca_keyPEM :: "'k \<Rightarrow> bytes"
  ca_pubPEM :: "'k \<Rightarrow> bytes"
  ca_certPEM :: "bytes \<Rightarrow> bytes"
  ca_decode :: "bytes \<Rightarrow> bytes option"
  ca_parseCert :: "bytes \<Rightarrow> 'c option"
  ca_parseKey :: "bytes \<Rightarrow> 'k option"
  ca_parseIP :: "string \<Rightarrow> bool"

section \<open>Operations\<close>

definition writePair :: "('k, 'c) ca_world \<Rightarrow> string \<Rightarrow> bytes \<Rightarrow> 'k \<Rightarrow> dirfiles \<Rightarrow> ca_outcome \<times> dirfiles" where
  "writePair w name der key fs =
     (if ca_writes w = 0 then (Failed IOFailed, fs)
      else (let fs = write_file (name @ ''.crt'') (ca_certPEM w der) 0x1A4 fs
            in if ca_writes w = 1 then (Failed IOFailed, fs)
               else (Success, write_file (name @ ''.key'') (ca_keyPEM w key) 0x180 fs)))"

definition genSignKey :: "('k, 'c) ca_world \<Rightarrow> string \<Rightarrow> dirfiles \<Rightarrow> ca_outcome \<times> dirfiles" where
  "genSignKey w name fs =
     (if \<not> ca_mkdir w then (Failed IOFailed, fs)
      else case ca_key w of
        None \<Rightarrow> (Failed KeyGenFailed, fs)
      | Some k \<Rightarrow>
          if ca_writes w = 0 then (Failed IOFailed, fs)
          else (let fs = write_file (name @ ''.pub'') (ca_pubPEM w k) 0x1A4 fs
                in if ca_writes w = 1 then (Failed IOFailed, fs)
                   else (Success, write_file (name @ ''.key'') (ca_keyPEM w k) 0x180 fs)))"

text \<open>The root signs itself: \<open>None\<close> stands for the template as its own parent.\<close>

definition root_template :: "('k, 'c) ca_world \<Rightarrow> ca_template" where
  "root_template w = \<lparr>ct_Serial = ca_serial w, ct_CommonName = ''tom-aiops Dev Root CA'', ct_NotBefore = ca_now w - 3600,
     ct_NotAfter = ca_addDate w 10 0 (ca_now w), ct_Organization = ''tom_aiops dev'', ct_IsCA = True, ct_KeyUsage = [CertSign, CRLSign], ct_ExtKeyUsage = [], ct_DNSNames = [], ct_IPAddresses = []\<rparr>"

definition initCA :: "('k, 'c) ca_world \<Rightarrow> dirfiles \<Rightarrow> ca_outcome \<times> dirfiles" where
  "initCA w fs =
     (if \<not> ca_mkdir w then (Failed IOFailed, fs)
      else case ca_key w of
        None \<Rightarrow> (Failed KeyGenFailed, fs)
      | Some k \<Rightarrow>
          (case ca_sign w (root_template w) None k k of
             None \<Rightarrow> (Failed SignFailed, fs)
           | Some der \<Rightarrow> writePair w ''ca'' der k fs))"

text \<open>A file without a PEM block makes the code read a field of a nil pointer: \<open>None\<close>.\<close>

definition loadCA :: "('k, 'c) ca_world \<Rightarrow> dirfiles \<Rightarrow> (ca_error + 'c \<times> 'k) option" where
  "loadCA w fs =
     (case fs ''ca.crt'' of
        None \<Rightarrow> Some (Inl NoCA)
      | Some (crtPEM, _) \<Rightarrow>
          (case ca_decode w crtPEM of
             None \<Rightarrow> None
           | Some der \<Rightarrow>
               (case ca_parseCert w der of
                  None \<Rightarrow> Some (Inl BadCACert)
                | Some cert \<Rightarrow>
                    (case fs ''ca.key'' of
                       None \<Rightarrow> Some (Inl IOFailed)
                     | Some (keyPEM, _) \<Rightarrow>
                         (case ca_decode w keyPEM of
                            None \<Rightarrow> None
                          | Some kder \<Rightarrow>
                              (case ca_parseKey w kder of None \<Rightarrow> Some (Inl BadCAKey) | Some k \<Rightarrow> Some (Inr (cert, k))))))))"

definition split_sans :: "string \<Rightarrow> string list" where
  "split_sans sans = filter (\<lambda>s. s \<noteq> []) (map go_TrimSpace (go_Split (CHR '','') sans))"

definition issue_template :: "('k, 'c) ca_world \<Rightarrow> bool \<Rightarrow> string \<Rightarrow> string \<Rightarrow> int \<Rightarrow> ca_error + ca_template" where
  "issue_template w server cn sans days =
     (let tpl = \<lparr>ct_Serial = ca_serial w, ct_CommonName = cn, ct_NotBefore = ca_now w - 3600, ct_NotAfter = ca_addDate w 0 days (ca_now w),
                 ct_Organization = ''tom_aiops dev'', ct_IsCA = False, ct_KeyUsage = [DigitalSignature], ct_ExtKeyUsage = [], ct_DNSNames = [], ct_IPAddresses = []\<rparr>
      in if server then
           (let names = split_sans sans; ips = filter (ca_parseIP w) names; dns = filter (\<lambda>s. \<not> ca_parseIP w s) names
            in if dns = [] \<and> ips = [] then Inl SansRequired
               else Inr (tpl\<lparr>ct_ExtKeyUsage := [ServerAuth], ct_CommonName := (if cn = [] then ''connector'' else cn),
                             ct_DNSNames := dns, ct_IPAddresses := ips\<rparr>))
         else if cn = [] then Inl CNRequired
         else Inr (tpl\<lparr>ct_ExtKeyUsage := [ClientAuth]\<rparr>))"

definition issue :: "('k, 'c) ca_world \<Rightarrow> string \<Rightarrow> bool \<Rightarrow> string \<Rightarrow> string \<Rightarrow> int \<Rightarrow> dirfiles \<Rightarrow> ca_outcome \<times> dirfiles" where
  "issue w name server cn sans days fs =
     (case loadCA w fs of
        None \<Rightarrow> (Panic, fs)
      | Some (Inl e) \<Rightarrow> (Failed e, fs)
      | Some (Inr (cert, caKey)) \<Rightarrow>
          (case ca_key w of
             None \<Rightarrow> (Failed KeyGenFailed, fs)
           | Some k \<Rightarrow>
               (case issue_template w server cn sans days of
                  Inl e \<Rightarrow> (Failed e, fs)
                | Inr tpl \<Rightarrow>
                    (case ca_sign w tpl (Some cert) k caKey of
                       None \<Rightarrow> (Failed SignFailed, fs)
                     | Some der \<Rightarrow> writePair w name der k fs))))"

text \<open>The subcommands with their parsed flags.\<close>

datatype ca_command = CmdInit | CmdIssue string bool bool string string int | CmdSignKey string | CmdOther "string option"

definition devca_main :: "('k, 'c) ca_world \<Rightarrow> ca_command \<Rightarrow> dirfiles \<Rightarrow> ca_outcome \<times> dirfiles" where
  "devca_main w c fs =
     (case c of
        CmdInit \<Rightarrow> initCA w fs
      | CmdIssue name server client cn sans days \<Rightarrow>
          if name = [] \<or> server = client then (Failed Usage, fs) else issue w name server cn sans days fs
      | CmdSignKey name \<Rightarrow> genSignKey w name fs
      | CmdOther None \<Rightarrow> (Failed Usage, fs)
      | CmdOther (Some x) \<Rightarrow> (Failed (UnknownCommand x), fs))"

section \<open>Issued certificates\<close>

lemma writePair_success: "writePair w n der k fs = (Success, fs') \<longleftrightarrow>
    ca_writes w > 1 \<and> fs' = write_file (n @ ''.key'') (ca_keyPEM w k) 0x180 (write_file (n @ ''.crt'') (ca_certPEM w der) 0x1A4 fs)"
  by (auto simp: writePair_def Let_def)

lemma issue_template_cases:
  "issue_template w server cn sans days = Inr tpl \<Longrightarrow> \<not> ct_IsCA tpl \<and> ct_Serial tpl = ca_serial w \<and> ct_NotBefore tpl = ca_now w - 3600 \<and>
    (if server then ct_ExtKeyUsage tpl = [ServerAuth] \<and> ct_CommonName tpl \<noteq> [] \<and> mset (ct_DNSNames tpl @ ct_IPAddresses tpl) = mset (split_sans sans) \<and>
       split_sans sans \<noteq> []
     else ct_ExtKeyUsage tpl = [ClientAuth] \<and> ct_CommonName tpl = cn \<and> cn \<noteq> [])"
  by (auto simp: issue_template_def Let_def filter_empty_conv split: if_splits)

text \<open>
  A certificate that is issued is signed with the authority's key over the new key,
  is no authority itself and serves one purpose: a client certificate carries the given,
  non-empty common name, a server certificate exactly the given non-empty list of names and
  addresses. The certificate and its private key are written as a pair; a run that fails
  before signing changes no file.
\<close>

theorem issued_certificate_restricted:
  assumes "devca_main w (CmdIssue name server client cn sans days) fs = (r, fs')"
  shows "(r = Success \<longrightarrow> server \<noteq> client \<and> name \<noteq> [] \<and> (\<exists>tpl cert caKey k der. loadCA w fs = Some (Inr (cert, caKey)) \<and> ca_key w = Some k \<and>
      ca_sign w tpl (Some cert) k caKey = Some der \<and> \<not> ct_IsCA tpl \<and>
      (if server then ct_ExtKeyUsage tpl = [ServerAuth] \<and> mset (ct_DNSNames tpl @ ct_IPAddresses tpl) = mset (split_sans sans) \<and> split_sans sans \<noteq> []
       else ct_ExtKeyUsage tpl = [ClientAuth] \<and> ct_CommonName tpl = cn \<and> cn \<noteq> []) \<and>
      map_option fst (fs' (name @ ''.crt'')) = Some (ca_certPEM w der) \<and> map_option fst (fs' (name @ ''.key'')) = Some (ca_keyPEM w k))) \<and>
    (r \<noteq> Success \<and> r \<noteq> Failed IOFailed \<longrightarrow> fs' = fs)"
proof (cases "r = Success")
  case True
  with assms have i: "server \<noteq> client" "name \<noteq> []" "issue w name server cn sans days fs = (Success, fs')"
    by (auto simp: devca_main_def split: if_splits)
  then obtain cert caKey k tpl der where s: "loadCA w fs = Some (Inr (cert, caKey))" "ca_key w = Some k"
    "issue_template w server cn sans days = Inr tpl" "ca_sign w tpl (Some cert) k caKey = Some der" "writePair w name der k fs = (Success, fs')"
    by (auto simp: issue_def split: option.splits sum.splits prod.splits)
  have "map_option fst (fs' (name @ ''.crt'')) = Some (ca_certPEM w der)" "map_option fst (fs' (name @ ''.key'')) = Some (ca_keyPEM w k)"
    using s(5) by (auto simp: writePair_success write_file_def)
  with issue_template_cases [OF s(3)] s i True show ?thesis by (auto split: if_splits)
next
  case False
  then show ?thesis
    using assms by (auto simp: devca_main_def issue_def writePair_def Let_def split: if_splits option.splits sum.splits prod.splits)
qed

definition sample_ca :: "(nat, nat) ca_world" where
  "sample_ca = \<lparr>ca_mkdir = True, ca_key = Some 7, ca_writes = 2, ca_now = 0, ca_addDate = (\<lambda>_ _ t. t), ca_serial = [1],
     ca_sign = (\<lambda>tpl parent k ca. Some (ct_Serial tpl)), ca_keyPEM = (\<lambda>_. [2]), ca_pubPEM = (\<lambda>_. [3]), ca_certPEM = (\<lambda>d. d), ca_decode = Some,
     ca_parseCert = (\<lambda>_. Some 5), ca_parseKey = (\<lambda>_. Some 6), ca_parseIP = (\<lambda>_. False)\<rparr>"

theorem issued_certificate_restricted_witness:
  "\<exists>fs'. devca_main sample_ca (CmdIssue ''agent'' False True ''a-1'' [] 825) [''ca.crt'' \<mapsto> ([9], 0), ''ca.key'' \<mapsto> ([9], 0)] = (Success, fs') \<and>
     map_option fst (fs' ''agent.crt'') = Some [1]"
proof -
  let ?fs = "[''ca.crt'' \<mapsto> ([9], 0 :: nat), ''ca.key'' \<mapsto> ([9], 0)]"
  have l: "loadCA sample_ca ?fs = Some (Inr (5, 6))" by (simp add: loadCA_def sample_ca_def)
  obtain fs' where r: "devca_main sample_ca (CmdIssue ''agent'' False True ''a-1'' [] 825) ?fs = (Success, fs')"
    by (simp add: devca_main_def issue_def l) (simp add: sample_ca_def issue_template_def writePair_def)
  from issued_certificate_restricted [OF r] obtain tpl cert caKey k der where
    "ca_sign sample_ca tpl (Some cert) k caKey = Some der" "map_option fst (fs' ''agent.crt'') = Some (ca_certPEM sample_ca der)"
    by auto
  then have "map_option fst (fs' ''agent.crt'') = Some (ct_Serial tpl)" by (simp add: sample_ca_def)
  moreover have "fs' ''agent.crt'' = Some ([1], 0x1A4)"
    using r by (simp add: devca_main_def issue_def l) (auto simp: sample_ca_def issue_template_def writePair_def write_file_def)
  ultimately show ?thesis using r by simp
qed

text \<open>An existing key file keeps its permissions when it is overwritten.\<close>

lemma overwritten_key_keeps_mode: "write_file n d 0x180 (fs(n \<mapsto> (d', 0x1A4))) n = Some (d, 0x1A4)"
  by (simp add: write_file_def)

end
