(* ===== verification/Spec2Isabelle.thy ===== *)
theory Spec2Isabelle
  imports Agent_Prelude Authenv Actions Capped_Buffer Engine Engine_Run Wal Reporter Connector_Session Mailbox
    Platform_Store Connector Uplink Uplink_Session Bootstrap Agent_Register Text_Codec Iam Console Operator_Path Host_Text Event_Runs Plugin Cgroup
    Watchdog Collectors Inventory Metrics_Bridge Agent_Main Connector_Main Mock_Gateway Programs Devca
begin

text \<open>
  A verification library of \<^verbatim>\<open>tom_ai_agent\<close>, a host agent (\<^verbatim>\<open>src/internal\<close>, \<^verbatim>\<open>src/cmd/agent\<close>) and
  the platform services it talks to (\<^verbatim>\<open>src/cmd/connector\<close>, \<^verbatim>\<open>src/internal/connector\<close>,
  \<^verbatim>\<open>src/internal/platform\<close>, \<^verbatim>\<open>src/cmd/console\<close>, \<^verbatim>\<open>src/internal/iam\<close>).

  \<^bold>\<open>The program.\<close> An operator's command is written to the platform's database together with an
  outbox row; the connector's dispatcher moves it to the asset's mailbox; the control stream
  of the asset's session takes it from there, wraps it into a signed envelope and sends it. The agent
  checks signature, nonce and expiry, queues the command for its worker pool, runs it from a
  fixed catalogue of actions and writes the result to a write-ahead log. The uplink replays the
  log to the gateway, which acknowledges what its sink has taken. An agent gets its identity
  and certificate from the bootstrap service. Operators use the console, which checks passwords,
  one-time codes, sessions and roles and forwards commands to the connector's admin interface.

  \<^bold>\<open>The theories and the code.\<close>
  \<^item> \<open>Agent_Prelude\<close>: bytes, big-endian words, Go maps as duplicate-free association lists
    (their iteration order is arbitrary, so results are shown independent of it), decimal and
    hexadecimal digits, the string functions the code uses.
  \<^item> \<open>Authenv\<close> (\<^verbatim>\<open>internal/authenv\<close>): canonical bytes of an envelope, \<open>Sign\<close>, \<open>Verify\<close>, the
    nonce cache. Ed25519 is a parameter. Shown: the encoding determines every signed field;
    the cache keeps the contract \<open>replay_guard\<close> the executor relies on.
  \<^item> \<open>Actions\<close>, \<open>Capped_Buffer\<close>, \<open>Engine\<close>, \<open>Engine_Run\<close> (\<^verbatim>\<open>internal/executor\<close>): the catalogue with
    its validators as explicit character tests, \<open>buildArgv\<close>, the output buffer, the engine record
    (queue, worker handles, cancellation table), the envelope gate, the poller; \<open>Engine_Run\<close> has the
    step relation of submissions, workers and cancellations, its invariant, and that every
    command is reported exactly once.
  \<^item> \<open>Wal\<close>, \<open>Reporter\<close> (\<^verbatim>\<open>internal/reporter\<close>): segment files as byte lists, the
    record format with CRC-32, rotation, quota, cursor; a reader that is shown to implement
    reading from an abstract list of records (the locale \<open>durable_log\<close> is the contract between the log
    and the replay loop); the flush and replay loops, at-least-once delivery across restarts.
  \<^item> \<open>Connector_Session\<close>, \<open>Mailbox\<close>, \<open>Connector\<close> (\<^verbatim>\<open>internal/connector\<close>, \<^verbatim>\<open>cmd/connector\<close>): the
    session registry with sessions as heap objects, the mailboxes, the streams as sequences
    of turns, the outbox dispatcher and the admin interface.
  \<^item> \<open>Platform_Store\<close> (\<^verbatim>\<open>internal/platform/store.go\<close>): each SQL transaction as an atomic
    function on tables; step relation and ledger invariant.
  \<^item> \<open>Uplink\<close> (\<^verbatim>\<open>internal/uplink/grpc.go\<close>): queues, waiters and answer channels of capacity
    one; each goroutine is a step of a run and blocking sends are steps that are not enabled.
    \<open>Uplink_Session\<close>: set-up of a session, its error channel and the supervisor, over scripts
    of events, shown to be runs of that step relation; the handshake with the connector's model.
  \<^item> \<open>Bootstrap\<close> (\<^verbatim>\<open>internal/connector/bootstrap.go\<close>), \<open>Agent_Register\<close> (\<^verbatim>\<open>internal/register\<close>):
    enrolment, certificate rotation and the agent's side of both.
  \<^item> \<open>Text_Codec\<close>: decimal numbers, \<^verbatim>\<open>strings.Split\<close>, base64 and base32 with their round trips.
  \<^item> \<open>Iam\<close> (\<^verbatim>\<open>internal/iam\<close>): password hashes, one-time codes, tokens, roles and the three
    tables with their invariant.
  \<^item> \<open>Console\<close> (\<^verbatim>\<open>cmd/console\<close>): every handler of the operators' console behind its route
    table; access control, the life of a session, audited refusals.
  \<^item> \<open>Host_Text\<close>: the functions of \<^verbatim>\<open>strings\<close>, \<^verbatim>\<open>strconv\<close>, \<^verbatim>\<open>bufio\<close> and \<^verbatim>\<open>path/filepath\<close> behind the
    parsers below. \<open>Event_Runs\<close>: runs of event-emitting steps and the locales \<open>event_invariant\<close>,
    \<open>event_fold\<close> and \<open>conserving_queue\<close>, which lift properties of a step to every run.
  \<^item> \<open>Plugin\<close> (\<^verbatim>\<open>internal/plugin\<close>), \<open>Cgroup\<close> (\<^verbatim>\<open>internal/executor/cgroup.go\<close>): loading managed
    plugins and the control group of a command; where programs and file operations may lie.
  \<^item> \<open>Watchdog\<close> (\<^verbatim>\<open>internal/watchdog\<close>, the scheduler of \<^verbatim>\<open>internal/collector\<close>), \<open>Collectors\<close> (the
    collectors and the self-monitor): degradation with its hysteresis, the metric dictionary,
    ranges of the values.
  \<^item> \<open>Inventory\<close> (\<^verbatim>\<open>internal/inventory\<close>): the asset report and the redaction of command lines.
  \<^item> \<open>Metrics_Bridge\<close> (\<^verbatim>\<open>internal/connector/sink_kafka.go\<close>, \<^verbatim>\<open>cmd/metricsbridge\<close>): Kafka and fan-out
    sinks behind the locale \<open>delivery_sink\<close>, the bridge to the time-series store.
  \<^item> \<open>Agent_Main\<close> (\<^verbatim>\<open>internal/config\<close>, \<^verbatim>\<open>internal/core\<close>, \<^verbatim>\<open>cmd/agent\<close>, the start and the direct sinks of the
    reporter), \<open>Connector_Main\<close> (\<^verbatim>\<open>cmd/connector/main.go\<close>): how both programs are put together.
  \<^item> \<open>Operator_Path\<close>: the admin interface of \<^verbatim>\<open>cmd/connector/main.go\<close> as an HTTP server, and the console in
    front of it; what a submission leaves behind.
  \<^item> \<open>Programs\<close>: the agent's process from start to shutdown, the set-up of console, metrics
    bridge and test gateway from their flags, \<^verbatim>\<open>tools/mtlsprobe\<close>, and the poller against the test gateway.
  \<^item> \<open>Mock_Gateway\<close> (\<^verbatim>\<open>tools/mockgateway\<close>), \<open>Devca\<close> (\<^verbatim>\<open>tools/devca\<close>): the development tools.
  \<^item> This theory: the path of a command from the operator's request to the executor's queue.

  \<^bold>\<open>Conventions.\<close> Clocks, random bytes, failing system calls, failing databases and what a peer
  sends are arguments, so every theorem holds for all of them. Code outside the repository
  (Ed25519, X.509, SHA-256, JSON) is a function parameter; what is assumed of it is written
  in the theorem and shown to be satisfiable by the theorem's witness. A panic and a
  blocked send are \<open>None\<close>. Loops that run until their context ends are modelled turn by turn, over
  the list of what happens in each turn; the loops that end are total functions.
  \<^verbatim>\<open>flushMetrics\<close> says whether it returned within the turns given, and is shown to return
  within as many turns as there are samples.
  Integers keep their width where they can wrap (\<^verbatim>\<open>uint32\<close> lengths, \<^verbatim>\<open>uint64\<close> epochs,
  \<^verbatim>\<open>int64\<close> durations); elsewhere they are \<open>int\<close> or \<open>nat\<close>.

  A \<^verbatim>\<open>float64\<close> is an exact rational.

  \<^bold>\<open>Not modelled.\<close> Logging and the parsing of flags; the generated protobuf code beyond its message
  types; what the cryptographic, TLS, Kafka, SQL and YAML libraries do inside (key generation,
  certificate requests, connections, decoding): their results are arguments; accessors and
  module names; closing of files at the end of a process.
\<close>

section \<open>From the mailbox to the executor's queue\<close>

lemma SubmitEnvelope_accepts:
  assumes "nonce_inv (e_nonces e)" "e_verifyKey e = Some key" "Verify verify key env = None" "env_Nonce env \<noteq> []"
    and "nonce_recorded (e_nonces e) (env_Nonce env) = None" "now \<le> sint (env_ExpiresAt env)"
    and "validate e (command_of env) = None" "queue_accepts e"
  shows "fst (SubmitEnvelope verify now fin e env) = [] \<and>
    e_queue (snd (SubmitEnvelope verify now fin e env)) = e_queue e @ [command_of env]"
proof -
  have "nonce_recorded (nonce_purged (e_nonces e) now) (env_Nonce env) = None"
    using assms(1,5) by (simp add: nonce_purged_recorded)
  then obtain c where c: "nonce_Check (e_nonces e) (env_Nonce env) (sint (env_ExpiresAt env)) now = (None, c)"
    by (simp add: nonce_Check_alt)
  have "validate (e\<lparr>e_nonces := c\<rparr>) = validate e" by (rule validate_cong) simp
  with assms c show ?thesis
    by (simp add: SubmitEnvelope_def submit_checked_def Submit_def queue_accepts_def)
qed

definition mailbox_command :: "MailboxCommand \<Rightarrow> Command" where
  "mailbox_command c = \<lparr>c_CmdID = mc_CmdID c, c_Action = mc_Action c, c_Params = mc_Params c, c_TimeoutSec = mc_TimeoutSec c\<rparr>"

lemma carries_command_of:
  assumes "carries env c" "0 \<le> mc_TimeoutSec c" "mc_TimeoutSec c < 2 ^ 32"
  shows "command_of env = mailbox_command c"
  using assms by (simp add: carries_def command_of_def mailbox_command_def uint_word_of_int)

lemma carries_expiry:
  assumes "carries env c" "0 \<le> mc_ExpiresAt c" "mc_ExpiresAt c < 2 ^ 63"
  shows "sint (env_ExpiresAt env) = mc_ExpiresAt c"
  using assms signed_take_bit_int_eq_self [of 63 "mc_ExpiresAt c"]
  by (simp add: carries_def signed_of_int)

lemma control_turn_sends:
  assumes "control_turn sign now SelDefault ws cs arrives a p s = (fs, True, s')"
  obtains fc s1 where "send_commands sign (fst (fst (NextDispatch now (sv_mailbox s) a))) ws
      (s\<lparr>sv_mailbox := snd (NextDispatch now (sv_mailbox s) a)\<rparr>) = (fc, True, s1)" "set fc \<subseteq> set fs"
  using assms that by (auto simp: control_turn_def Let_def split: prod.splits if_splits)

text \<open>
  An executor with the matching key that has not seen the envelope's nonce queues it as the
  given command until it expires, if its catalogue allows the command and there is room.
\<close>

definition executes_as :: "('pub \<Rightarrow> bytes \<Rightarrow> bytes \<Rightarrow> bool) \<Rightarrow> 'pub \<Rightarrow> CommandEnvelope \<Rightarrow> Command \<Rightarrow> int \<Rightarrow> bool" where
  "executes_as verify pub env cmd expires \<longleftrightarrow>
     (\<forall>e now' fin. nonce_inv (e_nonces e) \<and> e_verifyKey e = Some pub \<and> nonce_recorded (e_nonces e) (env_Nonce env) = None \<and>
       now' \<le> expires \<and> validate e cmd = None \<and> queue_accepts e \<longrightarrow>
       fst (SubmitEnvelope verify now' fin e env) = [] \<and> e_queue (snd (SubmitEnvelope verify now' fin e env)) = e_queue e @ [cmd])"

lemma queued_command_path:
  assumes key: "\<forall>m. verify pub m (sign priv m) \<and> length (sign priv m) = SignatureSize"
    and server: "sv_signer s = Some priv" "sv_mailbox s = mr_box (mb_history perAsset ttl ops)"
    and cmd: "i \<in> set (mb_byAsset (sv_mailbox s) a)" "mb_byID (sv_mailbox s) i = Some c" "mc_State c = StateQueued"
      "now \<le> mc_ExpiresAt c" "0 \<le> mc_ExpiresAt c" "mc_ExpiresAt c < 2 ^ 63" "0 \<le> mc_TimeoutSec c" "mc_TimeoutSec c < 2 ^ 32"
    and turn: "control_turn sign now SelDefault ws cs arrives a p s = (fs, True, s')" "\<forall>w \<in> set ws. length (sw_rnd w) = 16"
  shows "\<exists>env. CommandFrame env \<in> set fs \<and> env_CmdId env = i \<and> executes_as verify pub env (mailbox_command c) (mc_ExpiresAt c)"
proof -
  let ?d = "NextDispatch now (sv_mailbox s) a"
  let ?h = "mb_history perAsset ttl ops"
  have ok: "mb_ok ?h" by (rule mb_history_ok)
  have d: "fst (fst ?d) = map (\<lambda>i. dispatched_state now (the (mb_byID (sv_mailbox s) i)))
      (filter (due now (mb_byID (sv_mailbox s))) (mb_byAsset (sv_mailbox s) a))"
    using NextDispatch_eqs(1) [OF ok] server(2) by simp
  let ?c = "dispatched_state now c"
  have c: "?c \<in> set (fst (fst ?d))" unfolding d using cmd(1-4) by (force simp: due_def)
  have same: "mailbox_command ?c = mailbox_command c" "mc_TimeoutSec ?c = mc_TimeoutSec c" "mc_ExpiresAt ?c = mc_ExpiresAt c"
    by (simp_all add: dispatched_state_def mailbox_command_def)
  obtain fc s1 where send: "send_commands sign (fst (fst ?d)) ws (s\<lparr>sv_mailbox := snd ?d\<rparr>) = (fc, True, s1)" "set fc \<subseteq> set fs"
    using control_turn_sends [OF turn(1)] by blast
  from send_commands_spec [where verify = verify and pub = pub and sign = sign and priv = priv, OF key _ send(1)] server(1)
  have "list_all2 (\<lambda>f c. \<exists>env. f = CommandFrame env \<and> carries env c \<and> Verify verify pub env = None \<and>
      env_Nonce env \<in> sw_rnd ` set ws) fc (fst (fst ?d))" by auto
  with c obtain env where env: "CommandFrame env \<in> set fc" "carries env ?c" "Verify verify pub env = None"
      "env_Nonce env \<in> sw_rnd ` set ws"
    by (auto simp: list_all2_conv_all_nth in_set_conv_nth) (metis nth_mem)
  have n: "env_Nonce env \<noteq> []" using env(4) turn(2) by auto
  have co: "command_of env = mailbox_command c" using carries_command_of [OF env(2)] same cmd(7,8) by simp
  have ex: "sint (env_ExpiresAt env) = mc_ExpiresAt c" using carries_expiry [OF env(2)] same cmd(5,6) by simp
  have "mc_CmdID c = i" using mb_okD(3) [OF ok] cmd(2) server(2) by simp
  then have id: "env_CmdId env = i" using env(2) by (simp add: carries_def)
  show ?thesis
    using env(1) send(2) id SubmitEnvelope_accepts [OF _ _ env(3) n] co ex by (auto simp: executes_as_def)
qed

text \<open>
  C2: the whole path of a command. A command queued in its asset's mailbox goes out in the
  next dispatch round that succeeds, in an envelope that the asset's executor, holding the
  matching verification key, accepts and queues with the same id, action, parameters and
  timeout, provided the nonce is new to it, the command has not expired, the catalogue
  allows it and the queue has room. Ed25519 is assumed to verify what it signed, with
  64-byte signatures.
\<close>

theorem queued_command_reaches_executor:
  assumes key: "\<forall>m. verify pub m (sign priv m) \<and> length (sign priv m) = SignatureSize"
    and server: "sv_signer s = Some priv" "sv_mailbox s = mr_box (mb_history perAsset ttl ops)"
    and cmd: "i \<in> set (mb_byAsset (sv_mailbox s) a)" "mb_byID (sv_mailbox s) i = Some c" "mc_State c = StateQueued"
      "now \<le> mc_ExpiresAt c" "0 \<le> mc_ExpiresAt c" "mc_ExpiresAt c < 2 ^ 63" "0 \<le> mc_TimeoutSec c" "mc_TimeoutSec c < 2 ^ 32"
    and turn: "control_turn sign now SelDefault ws cs arrives a p s = (fs, True, s')" "\<forall>w \<in> set ws. length (sw_rnd w) = 16"
  shows "\<exists>env. CommandFrame env \<in> set fs \<and> env_CmdId env = i \<and>
    (\<forall>e now' fin. nonce_inv (e_nonces e) \<and> e_verifyKey e = Some pub \<and> nonce_recorded (e_nonces e) (env_Nonce env) = None \<and>
       now' \<le> mc_ExpiresAt c \<and> validate e (mailbox_command c) = None \<and> queue_accepts e \<longrightarrow>
       fst (SubmitEnvelope verify now' fin e env) = [] \<and>
       e_queue (snd (SubmitEnvelope verify now' fin e env)) = e_queue e @ [mailbox_command c])"
  using queued_command_path [where verify = verify and pub = pub and sign = sign and priv = priv, OF assms] by (simp add: executes_as_def)

definition sample_ops :: "mb_op list" where
  "sample_ops = [MSubmit 0 0 ''h'' ''c1'' ''diagnose.disk_usage'' [] 30]"

definition sample_queued_command :: MailboxCommand where
  "sample_queued_command = \<lparr>mc_CmdID = ''c1'', mc_Action = ''diagnose.disk_usage'', mc_Params = [], mc_TimeoutSec = 30,
     mc_State = StateQueued, mc_QueuedAt = 0, mc_ExpiresAt = 300000, mc_Result = []\<rparr>"

definition sample_server :: "unit Server" where
  "sample_server = (NewServer (Some ()))\<lparr>sv_mailbox := mr_box (mb_history 64 300000 sample_ops)\<rparr>"

definition sample_worlds :: "send_world list" where
  "sample_worlds = [\<lparr>sw_now = 7, sw_rnd = replicate 16 1, sw_sent = True, sw_db = True\<rparr>]"

lemma sample_mailbox:
  "mb_byAsset (sv_mailbox sample_server) ''h'' = [''c1'']" "mb_byID (sv_mailbox sample_server) ''c1'' = Some sample_queued_command"
  "mb_pendingCancels (sv_mailbox sample_server) ''h'' = []" "sv_signer sample_server = Some ()"
  "sv_mailbox sample_server = mr_box (mb_history 64 300000 sample_ops)"
  by (simp_all add: sample_server_def sample_ops_def mb_history_def mb_start_def NewMailbox_def mb_Submit_def pending_count_def
      signalLocked_def sample_queued_command_def NewServer_def Let_def)

lemma sample_turn:
  "\<exists>fs s'. control_turn sample_sign 7 SelDefault sample_worlds [] False ''h'' 0 sample_server = (fs, True, s')"
  by (simp add: control_turn_def NextDispatch_def sample_mailbox(1-3) sample_queued_command_def sample_worlds_def Let_def)

lemma sample_executor:
  "nonce_inv (e_nonces sample_engine)" "nonce_recorded (e_nonces sample_engine) n = None" "queue_accepts sample_engine"
  "validate sample_engine (mailbox_command sample_queued_command) = None" "e_queue sample_engine = []"
proof -
  have "mailbox_command sample_queued_command = command_of signed_envelope"
    by (simp add: mailbox_command_def sample_queued_command_def command_of_def signed_envelope_def)
  then show "validate sample_engine (mailbox_command sample_queued_command) = None" using sample_valid by simp
qed (simp_all add: sample_engine_def NewEngine_def engine_Start_def Let_def sample_conf_def NewNonceCache_def nonce_inv_def
    wf_map_def nonce_recorded_def queue_accepts_def)

theorem queued_command_reaches_executor_witness:
  "\<exists>fs s' env. control_turn sample_sign 7 SelDefault sample_worlds [] False ''h'' 0 sample_server = (fs, True, s') \<and>
     CommandFrame env \<in> set fs \<and>
     e_queue (snd (SubmitEnvelope sample_check 8 9 sample_engine env)) = [mailbox_command sample_queued_command]"
proof -
  obtain fs s' where t: "control_turn sample_sign 7 SelDefault sample_worlds [] False ''h'' 0 sample_server = (fs, True, s')"
    using sample_turn by blast
  have i: "''c1'' \<in> set (mb_byAsset (sv_mailbox sample_server) ''h'')" by (simp add: sample_mailbox(1))
  from queued_command_reaches_executor [where verify = sample_check and pub = "()" and sign = sample_sign and priv = "()",
      OF sample_key_ok sample_mailbox(4) sample_mailbox(5) i sample_mailbox(2) _ _ _ _ _ _ t]
  obtain env where "CommandFrame env \<in> set fs"
    "\<forall>e now' fin. nonce_inv (e_nonces e) \<and> e_verifyKey e = Some () \<and> nonce_recorded (e_nonces e) (env_Nonce env) = None \<and>
       now' \<le> mc_ExpiresAt sample_queued_command \<and> validate e (mailbox_command sample_queued_command) = None \<and> queue_accepts e \<longrightarrow>
       fst (SubmitEnvelope sample_check now' fin e env) = [] \<and>
       e_queue (snd (SubmitEnvelope sample_check now' fin e env)) = e_queue e @ [mailbox_command sample_queued_command]"
    by (auto simp: sample_queued_command_def sample_worlds_def)
  moreover have "8 \<le> mc_ExpiresAt sample_queued_command" by (simp add: sample_queued_command_def)
  ultimately have "e_queue (snd (SubmitEnvelope sample_check 8 9 sample_engine env)) = [mailbox_command sample_queued_command]"
    using sample_executor sample_engine_key by simp
  with t \<open>CommandFrame env \<in> set fs\<close> show ?thesis by blast
qed

section \<open>From the operator's request to the executor's queue\<close>

definition requested_command :: "string \<Rightarrow> command_request \<Rightarrow> Command" where
  "requested_command j q = \<lparr>c_CmdID = j, c_Action = q_Action q, c_Params = q_Params q,
     c_TimeoutSec = (if q_TimeoutSec q \<le> 0 then 60 else q_TimeoutSec q)\<rparr>"

text \<open>A dispatched outbox entry of a command the mailbox does not know yet.\<close>

lemma dispatchOutbox_queues:
  assumes "dispatchOutbox dbok n1 n2 st srv e = (None, st2, srv2)" "ob_type e = ''DISPATCH_REQUESTED''" "ob_payload e = dispatch_payload j row"
    and "mb_byID (sv_mailbox srv) j = None"
  shows "sv_mailbox srv2 = snd (mb_Submit n1 n2 (sv_mailbox srv) (cr_asset row) j (cr_action row) (cr_params row) (cr_timeout row)) \<and>
    fst (mb_Submit n1 n2 (sv_mailbox srv) (cr_asset row) j (cr_action row) (cr_params row) (cr_timeout row)) = None \<and>
    sv_signer srv2 = sv_signer srv"
  using assms
  by (auto simp: dispatchOutbox_def dispatch_payload_def mb_Submit_def Let_def split: prod.splits if_splits)

lemma mb_Submit_queued:
  assumes "fst (mb_Submit n1 n2 m a j act ps t) = None"
  shows "j \<in> set (mb_byAsset (snd (mb_Submit n1 n2 m a j act ps t)) a) \<and>
    mb_byID (snd (mb_Submit n1 n2 m a j act ps t)) j = Some \<lparr>mc_CmdID = j, mc_Action = act, mc_Params = ps, mc_TimeoutSec = t,
      mc_State = StateQueued, mc_QueuedAt = n1, mc_ExpiresAt = n2 + mb_ttl m, mc_Result = []\<rparr>"
  using assms by (auto simp: mb_Submit_def signalLocked_def Let_def split: if_splits)

lemma mb_history_submit:
  "snd (mb_Submit n1 n2 (mr_box (mb_history perAsset ttl ops)) a j act ps t) = mr_box (mb_history perAsset ttl (ops @ [MSubmit n1 n2 a j act ps t]))"
  by (simp add: mb_history_def split: prod.splits)

lemma recorded_entry:
  assumes "recorded a q j pst srv srv'"
  obtains pst' row e where "srv' = srv\<lparr>sv_store := Some pst'\<rparr>" "isUUID j" "e \<in> set (st_outbox pst')" "ob_type e = ''DISPATCH_REQUESTED''"
    "ob_payload e = dispatch_payload j row" "cr_asset row = a" "cr_action row = q_Action q" "cr_params row = q_Params q"
    "cr_timeout row = (if q_TimeoutSec q \<le> 0 then 60 else q_TimeoutSec q)"
proof -
  from assms obtain pst' row where r: "srv' = srv\<lparr>sv_store := Some pst'\<rparr>" "isUUID j" "cr_asset row = a" "cr_action row = q_Action q"
    "cr_params row = q_Params q" "cr_timeout row = (if q_TimeoutSec q \<le> 0 then 60 else q_TimeoutSec q)" "dispatches pst' j = [dispatch_payload j row]"
    unfolding recorded_def by blast
  from r(7) have "dispatch_payload j row \<in> set (dispatches pst' j)" by simp
  then obtain e where "e \<in> set (st_outbox pst')" "ob_type e = ''DISPATCH_REQUESTED''" "ob_payload e = dispatch_payload j row"
    by (auto simp: dispatches_def)
  with r that show ?thesis by blast
qed

text \<open>
  A recorded command and its outbox entry: once the entry is dispatched to a mailbox that
  does not have the command yet, the next dispatch round of the asset that succeeds sends
  it in an envelope the asset's executor queues as requested.
\<close>

definition reaches_executor ::
  "('pub \<Rightarrow> bytes \<Rightarrow> bytes \<Rightarrow> bool) \<Rightarrow> 'pub \<Rightarrow> ('priv \<Rightarrow> bytes \<Rightarrow> bytes) \<Rightarrow> 'priv Server \<Rightarrow> outbox_row \<Rightarrow> string \<Rightarrow> string \<Rightarrow> Command \<Rightarrow> bool" where
  "reaches_executor verify pub sign srv e a j cmd \<longleftrightarrow>
     (\<forall>dbok n1 n2 st st2 srv2 now ws cs arrives p fs srv3.
        dispatchOutbox dbok n1 n2 st srv e = (None, st2, srv2) \<and> mb_byID (sv_mailbox srv) j = None \<and>
        control_turn sign now SelDefault ws cs arrives a p srv2 = (fs, True, srv3) \<and> (\<forall>w \<in> set ws. length (sw_rnd w) = 16) \<and>
        now \<le> n2 + mb_ttl (sv_mailbox srv) \<and> 0 \<le> n2 + mb_ttl (sv_mailbox srv) \<and> n2 + mb_ttl (sv_mailbox srv) < 2 ^ 63 \<longrightarrow>
        (\<exists>env. CommandFrame env \<in> set fs \<and> env_CmdId env = j \<and> executes_as verify pub env cmd (n2 + mb_ttl (sv_mailbox srv))))"

lemma entry_reaches_executor:
  assumes key: "\<forall>m. verify pub m (sign priv m) \<and> length (sign priv m) = SignatureSize"
    and server: "sv_signer srv = Some priv" "sv_mailbox srv = mr_box (mb_history perAsset ttl ops)"
    and e: "ob_type e = ''DISPATCH_REQUESTED''" "ob_payload e = dispatch_payload j row" "0 \<le> cr_timeout row" "cr_timeout row < 2 ^ 32"
  shows "reaches_executor verify pub sign srv e (cr_asset row) j
    \<lparr>c_CmdID = j, c_Action = cr_action row, c_Params = cr_params row, c_TimeoutSec = cr_timeout row\<rparr>"
  unfolding reaches_executor_def
proof (intro allI impI, elim conjE)
  fix dbok n1 n2 st st2 srv2 now ws cs arrives p fs srv3
  assume d: "dispatchOutbox dbok n1 n2 st srv e = (None, st2, srv2)" "mb_byID (sv_mailbox srv) j = None"
    and t: "control_turn sign now SelDefault ws cs arrives (cr_asset row) p srv2 = (fs, True, srv3)" "\<forall>w \<in> set ws. length (sw_rnd w) = 16"
    and x: "now \<le> n2 + mb_ttl (sv_mailbox srv)" "0 \<le> n2 + mb_ttl (sv_mailbox srv)" "n2 + mb_ttl (sv_mailbox srv) < 2 ^ 63"
  note q = dispatchOutbox_queues [OF d(1) e(1,2) d(2)]
  let ?c = "\<lparr>mc_CmdID = j, mc_Action = cr_action row, mc_Params = cr_params row, mc_TimeoutSec = cr_timeout row,
      mc_State = StateQueued, mc_QueuedAt = n1, mc_ExpiresAt = n2 + mb_ttl (sv_mailbox srv), mc_Result = []\<rparr>"
  have c: "j \<in> set (mb_byAsset (sv_mailbox srv2) (cr_asset row))" "mb_byID (sv_mailbox srv2) j = Some ?c"
    using mb_Submit_queued [of n1 n2 "sv_mailbox srv" "cr_asset row" j "cr_action row" "cr_params row" "cr_timeout row"] q by auto
  have h: "sv_mailbox srv2 = mr_box (mb_history perAsset ttl (ops @ [MSubmit n1 n2 (cr_asset row) j (cr_action row) (cr_params row) (cr_timeout row)]))"
    using q mb_history_submit server(2) by metis
  have s: "sv_signer srv2 = Some priv" using q server(1) by simp
  from queued_command_path [where verify = verify and pub = pub and sign = sign and priv = priv, OF key s h c _ _ _ _ _ _ t] x e(3,4)
  show "\<exists>env. CommandFrame env \<in> set fs \<and> env_CmdId env = j \<and>
      executes_as verify pub env \<lparr>c_CmdID = j, c_Action = cr_action row, c_Params = cr_params row, c_TimeoutSec = cr_timeout row\<rparr>
        (n2 + mb_ttl (sv_mailbox srv))"
    by (simp add: mailbox_command_def)
qed

text \<open>
  C1: the whole way of an operator's command through the four programs. When the console
  answers a submission with success, the ledger has an outbox entry for it; dispatched by
  the connector and sent in a round that succeeds, the command arrives in an envelope that
  the executor of the asset named in the request queues with the requested action, parameters
  and timeout, under the UUID the operator was told. Ed25519 is assumed to verify what it signed, with
  64-byte signatures.
\<close>

theorem operator_command_reaches_executor:
  assumes key: "\<forall>m. verify pub m (sign priv m) \<and> length (sign priv m) = SignatureSize"
    and server: "sv_signer srv = Some priv" "sv_mailbox srv = mr_box (mb_history perAsset ttl ops)"
    and thr: "through_console L a w AL aw r st srv = Some (oc, srv')" "hr_Path r = ''/api/v1/command/submit''" "oc_status oc = 202"
    and store: "sv_store srv = Some pst" "store_reach pst" "length (am_rnd aw) = 16"
    and q: "\<forall>q. al_decode AL (hr_Body r) = Some q \<longrightarrow> q_TimeoutSec q < 2 ^ 32"
  shows "\<exists>q j pst' e. al_decode AL (hr_Body r) = Some q \<and> isUUID j \<and> sv_store srv' = Some pst' \<and> e \<in> set (st_outbox pst') \<and>
    oc_body oc = UpstreamBody (fst (al_render AL (AdminCmdID j))) (take (16 * 2 ^ 20) (snd (al_render AL (AdminCmdID j)))) \<and>
    reaches_executor verify pub sign srv' e (al_query AL (hr_RawQuery r) ''asset_id'') j (requested_command j q)"
proof -
  from operator_submission [OF thr(1,2) store] thr(3) obtain u j req where rec: "al_decode AL (hr_Body r) = Some req"
    "recorded (al_query AL (hr_RawQuery r) ''asset_id'') req j pst srv srv'" "told L AL aw r u j oc" by auto
  from rec(2) obtain pst' row e where e: "srv' = srv\<lparr>sv_store := Some pst'\<rparr>" "isUUID j" "e \<in> set (st_outbox pst')"
    "ob_type e = ''DISPATCH_REQUESTED''" "ob_payload e = dispatch_payload j row" "cr_asset row = al_query AL (hr_RawQuery r) ''asset_id''"
    "cr_action row = q_Action req" "cr_params row = q_Params req" "cr_timeout row = (if q_TimeoutSec req \<le> 0 then 60 else q_TimeoutSec req)"
    by (rule recorded_entry)
  have "0 \<le> cr_timeout row" "cr_timeout row < 2 ^ 32" using e(9) q rec(1) by auto
  from entry_reaches_executor [where verify = verify and pub = pub and sign = sign and priv = priv, OF key _ _ e(4,5) this, of srv'] server e(1)
  have "reaches_executor verify pub sign srv' e (al_query AL (hr_RawQuery r) ''asset_id'') j (requested_command j req)"
    by (simp add: requested_command_def e(6-9))
  moreover have "oc_body oc = UpstreamBody (fst (al_render AL (AdminCmdID j))) (take (16 * 2 ^ 20) (snd (al_render AL (AdminCmdID j))))"
    using rec(3) thr(3) by (simp add: told_def split: if_splits)
  ultimately show ?thesis using rec(1) e(1-3) by auto
qed

definition platform_server :: "unit Server" where
  "platform_server = SetStore (NewServer (Some ())) empty_store"

theorem operator_command_reaches_executor_witness:
  "\<exists>oc srv' j e. through_console sample_libs \<lparr>ap_connectorAdmin = ''c'', ap_sessionTTL = 8\<rparr> calm sample_admin sample_net
       (sample_http ''POST'' ''/api/v1/command/submit'' ''Bearer tok'') (console_st False) platform_server = Some (oc, srv') \<and> oc_status oc = 202 \<and>
     reaches_executor sample_check () sample_sign srv' e ''h'' j
       \<lparr>c_CmdID = j, c_Action = ''uptime'', c_Params = [], c_TimeoutSec = 60\<rparr>"
proof -
  let ?r = "sample_http ''POST'' ''/api/v1/command/submit'' ''Bearer tok''" and ?a = "\<lparr>ap_connectorAdmin = ''c'', ap_sessionTTL = 8\<rparr>"
  let ?q = "\<lparr>q_CmdID = [], q_Action = ''uptime'', q_Params = [], q_TimeoutSec = 0\<rparr>"
  have "\<exists>oc srv'. through_console sample_libs ?a calm sample_admin sample_net ?r (console_st False) platform_server = Some (oc, srv') \<and> oc_status oc = 202"
    by (rule operator_command_accepted [OF console_st_ok sample_session, where pst = empty_store and q = ?q])
      (simp_all add: HasPermission_def rolePerms_def calm_def sample_http_def platform_server_def SetStore_def sample_net_def sample_admin_def empty_store_def)
  then obtain oc srv' where t: "through_console sample_libs ?a calm sample_admin sample_net ?r (console_st False) platform_server = Some (oc, srv')"
    "oc_status oc = 202" by blast
  have p: "sv_signer platform_server = Some ()" "sv_mailbox platform_server = mr_box (mb_history 64 300000 [])" "sv_store platform_server = Some empty_store"
    "hr_Path ?r = ''/api/v1/command/submit''" "length (am_rnd sample_net) = 16" "\<forall>q. al_decode sample_admin (hr_Body ?r) = Some q \<longrightarrow> q_TimeoutSec q < 2 ^ 32"
    by (auto simp: platform_server_def SetStore_def NewServer_def mb_history_def mb_start_def sample_http_def sample_net_def sample_admin_def)
  from operator_command_reaches_executor [where verify = sample_check and pub = "()" and sign = sample_sign and priv = "()",
      OF sample_key_ok p(1,2) t(1) p(4) t(2) p(3) store_empty p(5,6)] t
  show ?thesis by (auto simp: sample_admin_def requested_command_def)
qed

end
